(* ===== verification/GoLib.thy ===== *)
theory GoLib
  imports Main "HOL-Library.Word" "HOL-Library.Sublist"
begin

text \<open>
  The prelude: the parts of the Go language and of its standard library the mail server uses.

  A Go string is a sequence of bytes, so it is a \<^typ>\<open>string\<close> (a list of 8-bit characters) here;
  \<^verbatim>\<open>[]byte\<close> is the same type. Errors are values of \<open>go_error\<close>: a sentinel of a library, an error
  that comes from outside of the program, or what \<^verbatim>\<open>fmt.Errorf\<close> builds with or without \<^verbatim>\<open>%w\<close>.
  The functions of the package \<^verbatim>\<open>strings\<close> carry their Go names.

  Case mapping. \<^verbatim>\<open>strings.ToUpper\<close> maps runes, and the sources only compare its result with ASCII
  literals. Exactly two runes outside ASCII have an upper case in ASCII: U+0131 (bytes C4 B1, to
  \<^verbatim>\<open>I\<close>) and U+017F (bytes C5 BF, to \<^verbatim>\<open>S\<close>). \<open>ToUpper\<close> maps those two and the ASCII letters and keeps
  every other byte; the result of each comparison is the one of the Go code, on every input.
  White space is that of \<^verbatim>\<open>unicode.IsSpace\<close>, with the runes outside of ASCII as their encodings.
  \<^verbatim>\<open>strings.EqualFold\<close> and the verb \<^verbatim>\<open>%q\<close> decode UTF-8 the way Go does, invalid bytes included. Which
  runes outside of ASCII print and which fold together are tables of the Unicode version that the
  Go runtime has: they are a parameter (\<open>unicode\<close>). \<open>EqualFold_ascii\<close> is \<^verbatim>\<open>EqualFold\<close> with an ASCII literal,
  which needs no table: U+017F and the Kelvin sign U+212A are the only runes that fold into ASCII.
\<close>

subsection \<open>Machine integers, errors and results\<close>

type_synonym uint64 = "64 word"
type_synonym uint32 = "32 word"
type_synonym bytes = string

datatype go_error =
    ErrNoRows                     \<comment> \<open>\<^verbatim>\<open>sql.ErrNoRows\<close>\<close>
  | ErrRedisNil                   \<comment> \<open>\<^verbatim>\<open>redis.Nil\<close>\<close>
  | ErrExternal string            \<comment> \<open>an error returned by a driver, the network, a library\<close>
  | Errorf string                 \<comment> \<open>\<^verbatim>\<open>fmt.Errorf\<close> without \<^verbatim>\<open>%w\<close>\<close>
  | Wrapf string go_error         \<comment> \<open>\<^verbatim>\<open>fmt.Errorf("...: %w", err)\<close>\<close>

type_synonym 'a result = "go_error + 'a"

primrec errors_Is :: "go_error \<Rightarrow> go_error \<Rightarrow> bool" where
  "errors_Is ErrNoRows t = (ErrNoRows = t)"
| "errors_Is ErrRedisNil t = (ErrRedisNil = t)"
| "errors_Is (ErrExternal m) t = (ErrExternal m = t)"
| "errors_Is (Errorf m) t = (Errorf m = t)"
| "errors_Is (Wrapf m e) t = (Wrapf m e = t \<or> errors_Is e t)"

text \<open>
  The collections of the development: \<open>go_str\<close> holds the rewriting laws of the string functions,
  \<open>frame\<close> the facts about fields an operation leaves alone, \<open>size_laws\<close> the facts that an
  operation does not lengthen the input that is still to be read.
\<close>

named_theorems go_str "laws of the string functions"
named_theorems frame "fields an operation leaves alone"
named_theorems size_laws "operations never lengthen the remaining input"

subsection \<open>The package strings\<close>

abbreviation (input) CR :: char where "CR \<equiv> CHR 0x0D"
abbreviation (input) LF :: char where "LF \<equiv> CHR 0x0A"
abbreviation (input) SPC :: char where "SPC \<equiv> CHR 0x20"
abbreviation (input) QUOT :: char where "QUOT \<equiv> CHR 0x22"
abbreviation (input) BSL :: char where "BSL \<equiv> CHR 0x5C"

definition CRLF :: string where "CRLF = [CR, LF]"

definition HasPrefix :: "string \<Rightarrow> string \<Rightarrow> bool" where
  "HasPrefix s p \<longleftrightarrow> take (length p) s = p"

definition HasSuffix :: "string \<Rightarrow> string \<Rightarrow> bool" where
  "HasSuffix s p \<longleftrightarrow> HasPrefix (rev s) (rev p)"

primrec Contains :: "string \<Rightarrow> string \<Rightarrow> bool" where
  "Contains [] sub = (sub = [])"
| "Contains (c # cs) sub = (HasPrefix (c # cs) sub \<or> Contains cs sub)"

text \<open>\<^verbatim>\<open>strings.Cut\<close> and \<^verbatim>\<open>strings.SplitN(s, sep, 2)\<close>: every separator of the sources is one byte.\<close>

definition Cut :: "char \<Rightarrow> string \<Rightarrow> string \<times> string \<times> bool" where
  "Cut sep s =
     (case dropWhile (\<lambda>c. c \<noteq> sep) s of
        [] \<Rightarrow> (s, [], False)
      | _ # after \<Rightarrow> (takeWhile (\<lambda>c. c \<noteq> sep) s, after, True))"

definition SplitN2 :: "char \<Rightarrow> string \<Rightarrow> string list" where
  "SplitN2 sep s = (case Cut sep s of (a, b, found) \<Rightarrow> if found then [a, b] else [s])"

fun Split :: "char \<Rightarrow> string \<Rightarrow> string list" where
  "Split sep [] = [[]]"
| "Split sep (c # cs) =
     (if c = sep then [] # Split sep cs
      else (case Split sep cs of [] \<Rightarrow> [[c]] | w # ws \<Rightarrow> (c # w) # ws))"

fun Join :: "string list \<Rightarrow> string \<Rightarrow> string" where
  "Join [] sep = []"
| "Join [x] sep = x"
| "Join (x # y # zs) sep = x @ sep @ Join (y # zs) sep"

text \<open>\<^verbatim>\<open>strings.TrimRight\<close> and \<^verbatim>\<open>strings.Trim\<close> with an ASCII cutset.\<close>

definition TrimLeft :: "string \<Rightarrow> string \<Rightarrow> string" where
  "TrimLeft s cutset = dropWhile (\<lambda>c. c \<in> set cutset) s"

definition TrimRight :: "string \<Rightarrow> string \<Rightarrow> string" where
  "TrimRight s cutset = rev (TrimLeft (rev s) cutset)"

definition Trim :: "string \<Rightarrow> string \<Rightarrow> string" where
  "Trim s cutset = TrimRight (TrimLeft s cutset) cutset"

text \<open>The encodings of the runes of \<^verbatim>\<open>unicode.IsSpace\<close>.\<close>

definition space_runes :: "string list" where
  "space_runes =
     [[CHR 0x09], [CHR 0x0A], [CHR 0x0B], [CHR 0x0C], [CHR 0x0D], [CHR 0x20],
      [CHR 0xC2, CHR 0x85], [CHR 0xC2, CHR 0xA0], [CHR 0xE1, CHR 0x9A, CHR 0x80],
      [CHR 0xE2, CHR 0x80, CHR 0x80], [CHR 0xE2, CHR 0x80, CHR 0x81],
      [CHR 0xE2, CHR 0x80, CHR 0x82], [CHR 0xE2, CHR 0x80, CHR 0x83],
      [CHR 0xE2, CHR 0x80, CHR 0x84], [CHR 0xE2, CHR 0x80, CHR 0x85],
      [CHR 0xE2, CHR 0x80, CHR 0x86], [CHR 0xE2, CHR 0x80, CHR 0x87],
      [CHR 0xE2, CHR 0x80, CHR 0x88], [CHR 0xE2, CHR 0x80, CHR 0x89],
      [CHR 0xE2, CHR 0x80, CHR 0x8A], [CHR 0xE2, CHR 0x80, CHR 0xA8],
      [CHR 0xE2, CHR 0x80, CHR 0xA9], [CHR 0xE2, CHR 0x80, CHR 0xAF],
      [CHR 0xE2, CHR 0x81, CHR 0x9F], [CHR 0xE3, CHR 0x80, CHR 0x80]]"

function strip_front :: "string list \<Rightarrow> string \<Rightarrow> string" where
  "strip_front ps s =
     (case find (\<lambda>p. p \<noteq> [] \<and> HasPrefix s p) ps of
        None \<Rightarrow> s
      | Some p \<Rightarrow> strip_front ps (drop (length p) s))"
  by pat_completeness auto
termination
proof (relation "measure (\<lambda>(ps, s). length s)")
  show "wf (measure (\<lambda>(ps::string list, s::string). length s))"
    by simp
next
  fix ps :: "string list" and s p :: string
  assume "find (\<lambda>p. p \<noteq> [] \<and> HasPrefix s p) ps = Some p"
  then have "p \<noteq> []" and "take (length p) s = p"
    by (auto simp: find_Some_iff HasPrefix_def)
  then show "((ps, drop (length p) s), (ps, s)) \<in> measure (\<lambda>(ps, s). length s)"
    by (cases s) auto
qed

declare strip_front.simps [simp del]

definition TrimSpace :: "string \<Rightarrow> string" where
  "TrimSpace s = rev (strip_front (map rev space_runes) (rev (strip_front space_runes s)))"

definition upper_byte :: "char \<Rightarrow> char" where
  "upper_byte c =
     (if 97 \<le> (of_char c :: nat) \<and> (of_char c :: nat) \<le> 122
      then char_of ((of_char c :: nat) - 32) else c)"

definition lower_byte :: "char \<Rightarrow> char" where
  "lower_byte c =
     (if 65 \<le> (of_char c :: nat) \<and> (of_char c :: nat) \<le> 90
      then char_of ((of_char c :: nat) + 32) else c)"

fun ToUpper :: "string \<Rightarrow> string" where
  "ToUpper (c # d # cs) =
     (if c = CHR 0xC4 \<and> d = CHR 0xB1 then CHR ''I'' # ToUpper cs
      else if c = CHR 0xC5 \<and> d = CHR 0xBF then CHR ''S'' # ToUpper cs
      else upper_byte c # ToUpper (d # cs))"
| "ToUpper cs = map upper_byte cs"

fun fold_case :: "string \<Rightarrow> string" where
  "fold_case (c # d # cs) =
     (if c = CHR 0xC5 \<and> d = CHR 0xBF then CHR ''s'' # fold_case cs
      else if c = CHR 0xE2 \<and> d = CHR 0x84 \<and> take 1 cs = [CHR 0xAA] then CHR ''k'' # fold_case (drop 1 cs)
      else lower_byte c # fold_case (d # cs))"
| "fold_case cs = map lower_byte cs"

definition EqualFold_ascii :: "string \<Rightarrow> string \<Rightarrow> bool" where
  "EqualFold_ascii s t \<longleftrightarrow> fold_case s = fold_case t"

subsection \<open>Runes\<close>

text \<open>
  \<^verbatim>\<open>utf8.DecodeRune\<close>: the first byte gives the ranges of the bytes that must follow; a byte that starts
  no valid encoding is \<^verbatim>\<open>RuneError\<close> of width one. \<open>runes\<close> is a \<^verbatim>\<open>range\<close> loop over a string, with the bytes
  of every rune.
\<close>

definition RuneError :: nat where "RuneError = 0xFFFD"

definition utf8_form :: "char \<Rightarrow> (nat \<times> nat) list option" where
  "utf8_form c =
     (let n = of_char c :: nat; any = (0x80, 0xBF)
      in if n < 0x80 then Some []
         else if n < 0xC2 then None
         else if n < 0xE0 then Some [any]
         else if n = 0xE0 then Some [(0xA0, 0xBF), any]
         else if n = 0xED then Some [(0x80, 0x9F), any]
         else if n < 0xF0 then Some [any, any]
         else if n = 0xF0 then Some [(0x90, 0xBF), any, any]
         else if n < 0xF4 then Some [any, any, any]
         else if n = 0xF4 then Some [(0x80, 0x8F), any, any]
         else None)"

fun in_ranges :: "(nat \<times> nat) list \<Rightarrow> string \<Rightarrow> bool" where
  "in_ranges [] cs = True"
| "in_ranges (r # rs) [] = False"
| "in_ranges ((lo, hi) # rs) (c # cs) = (lo \<le> of_char c \<and> of_char c \<le> hi \<and> in_ranges rs cs)"

definition rune_value :: "char \<Rightarrow> string \<Rightarrow> nat" where
  "rune_value c cs =
     (if cs = [] then of_char c
      else fold (\<lambda>d v. v * 64 + of_char d mod 64) cs (of_char c mod 2 ^ (6 - length cs)))"

definition DecodeRune :: "char \<Rightarrow> string \<Rightarrow> nat \<times> nat" where
  "DecodeRune c cs =
     (case utf8_form c of
        None \<Rightarrow> (RuneError, 1)
      | Some rs \<Rightarrow>
          if in_ranges rs cs then (rune_value c (take (length rs) cs), Suc (length rs)) else (RuneError, 1))"

fun runes :: "string \<Rightarrow> (nat \<times> string) list" where
  "runes [] = []"
| "runes (c # cs) = (case DecodeRune c cs of (r, w) \<Rightarrow> (r, take w (c # cs)) # runes (drop (w - 1) cs))"

record unicode =
  uni_IsPrint :: "nat \<Rightarrow> bool"
  uni_Fold :: "nat \<Rightarrow> nat"

text \<open>Tables for concrete runs, without a rune outside of ASCII that prints or folds.\<close>

definition ascii_tables :: unicode where
  "ascii_tables = \<lparr>uni_IsPrint = (\<lambda>_. False), uni_Fold = (\<lambda>r. r)\<rparr>"

text \<open>
  \<^verbatim>\<open>strconv.IsPrint\<close> and the orbits of \<^verbatim>\<open>unicode.SimpleFold\<close>, an orbit being named by one of its runes.
\<close>

definition IsPrint :: "unicode \<Rightarrow> nat \<Rightarrow> bool" where
  "IsPrint U r = (if r < 128 then 32 \<le> r \<and> r \<le> 126 else uni_IsPrint U r)"

definition rune_fold :: "unicode \<Rightarrow> nat \<Rightarrow> nat" where
  "rune_fold U r =
     (if r < 128 then (if 65 \<le> r \<and> r \<le> 90 then r + 32 else r)
      else if r = 0x17F then 115
      else if r = 0x212A then 107
      else uni_Fold U r)"

definition EqualFold :: "unicode \<Rightarrow> string \<Rightarrow> string \<Rightarrow> bool" where
  "EqualFold U s t \<longleftrightarrow> map (rune_fold U \<circ> fst) (runes s) = map (rune_fold U \<circ> fst) (runes t)"

subsection \<open>The verbs of the package fmt\<close>

definition digit :: "nat \<Rightarrow> char" where
  "digit n = ''0123456789abcdef'' ! n"

fun fmt_nat :: "nat \<Rightarrow> string" where
  "fmt_nat n = (if n < 10 then [digit n] else fmt_nat (n div 10) @ [digit (n mod 10)])"

declare fmt_nat.simps [simp del]

definition fmt_d :: "int \<Rightarrow> string" where
  "fmt_d i = (if i < 0 then CHR ''-'' # fmt_nat (nat (- i)) else fmt_nat (nat i))"

definition fmt_u :: "'a::len word \<Rightarrow> string" where
  "fmt_u w = fmt_nat (unat w)"

text \<open>\<^verbatim>\<open>%q\<close>: the escapes of \<^verbatim>\<open>strconv.Quote\<close>.\<close>

fun hex :: "nat \<Rightarrow> nat \<Rightarrow> string" where
  "hex 0 n = []"
| "hex (Suc k) n = hex k (n div 16) @ [digit (n mod 16)]"

definition quote_rune :: "unicode \<Rightarrow> nat \<times> string \<Rightarrow> string" where
  "quote_rune U = (\<lambda>(r, bs).
     if r = RuneError \<and> length bs = 1 then BSL # CHR ''x'' # hex 2 (of_char (hd bs))
     else if r = 34 then [BSL, QUOT]
     else if r = 92 then [BSL, BSL]
     else if IsPrint U r then bs
     else if r = 7 then BSL # ''a''
     else if r = 8 then BSL # ''b''
     else if r = 12 then BSL # ''f''
     else if r = 10 then BSL # ''n''
     else if r = 13 then BSL # ''r''
     else if r = 9 then BSL # ''t''
     else if r = 11 then BSL # ''v''
     else if r < 32 \<or> r = 127 then BSL # CHR ''x'' # hex 2 r
     else if r < 0x10000 then BSL # CHR ''u'' # hex 4 r
     else BSL # CHR ''U'' # hex 8 r)"

definition fmt_q :: "unicode \<Rightarrow> string \<Rightarrow> string" where
  "fmt_q U s = QUOT # concat (map (quote_rune U) (runes s)) @ [QUOT]"

subsection \<open>Laws of the string functions\<close>

lemma HasPrefix_iff_prefix: "HasPrefix s p \<longleftrightarrow> prefix p s"
  by (auto simp: HasPrefix_def prefix_def take_is_prefix) (metis append_take_drop_id)

lemma HasPrefix_Nil [simp]: "HasPrefix s []"
  by (simp add: HasPrefix_def)

lemma HasPrefix_Cons [simp]:
  "HasPrefix [] (c # p) = False" "HasPrefix (d # s) (c # p) = (d = c \<and> HasPrefix s p)"
  by (auto simp: HasPrefix_def)

lemma HasPrefix_append [simp, go_str]: "HasPrefix (p @ s) p"
  by (simp add: HasPrefix_def)

lemma HasPrefixE: "HasPrefix s p \<Longrightarrow> (\<And>t. s = p @ t \<Longrightarrow> P) \<Longrightarrow> P"
  by (metis HasPrefix_def append_take_drop_id)

lemma HasPrefix_length: "HasPrefix s p \<Longrightarrow> length p \<le> length s"
  by (erule HasPrefixE) simp

lemma HasSuffixE: "HasSuffix s p \<Longrightarrow> (\<And>t. s = t @ p \<Longrightarrow> P) \<Longrightarrow> P"
  unfolding HasSuffix_def by (erule HasPrefixE) (metis rev_append rev_rev_ident)

lemma HasSuffix_append [simp, go_str]: "HasSuffix (s @ p) p"
  by (simp add: HasSuffix_def)

lemma Contains_iff: "Contains s sub \<longleftrightarrow> (\<exists>a b. s = a @ sub @ b)"
proof (induction s)
  case (Cons c s)
  show ?case
  proof
    assume "Contains (c # s) sub"
    then consider "HasPrefix (c # s) sub" | "Contains s sub" by auto
    then show "\<exists>a b. c # s = a @ sub @ b"
    proof cases
      case 1
      then show ?thesis by (metis HasPrefixE append_Nil)
    next
      case 2
      then show ?thesis using Cons.IH by (metis append_Cons)
    qed
  next
    assume "\<exists>a b. c # s = a @ sub @ b"
    then obtain a b where ab: "c # s = a @ sub @ b" by blast
    show "Contains (c # s) sub"
    proof (cases a)
      case Nil
      with ab show ?thesis by (metis Contains.simps(2) HasPrefix_append append_Nil)
    next
      case (Cons d a')
      with ab have "s = a' @ sub @ b" by simp
      then show ?thesis using Cons.IH by auto
    qed
  qed
qed auto

lemma Cut_found [go_str]: "sep \<notin> set a \<Longrightarrow> Cut sep (a @ sep # b) = (a, b, True)"
proof -
  assume "sep \<notin> set a"
  then have "dropWhile (\<lambda>c. c \<noteq> sep) (a @ sep # b) = sep # b"
    and "takeWhile (\<lambda>c. c \<noteq> sep) (a @ sep # b) = a"
    by (induction a) auto
  then show ?thesis by (simp add: Cut_def)
qed

lemma Cut_absent [go_str]: "sep \<notin> set s \<Longrightarrow> Cut sep s = (s, [], False)"
proof -
  assume "sep \<notin> set s"
  then have "dropWhile (\<lambda>c. c \<noteq> sep) s = []"
    by (auto simp: dropWhile_eq_Nil_conv)
  then show ?thesis unfolding Cut_def by (simp only: list.case)
qed

lemma CutD: "Cut sep s = (a, b, True) \<Longrightarrow> s = a @ sep # b \<and> sep \<notin> set a"
proof -
  assume cut: "Cut sep s = (a, b, True)"
  show ?thesis
  proof (cases "dropWhile (\<lambda>c. c \<noteq> sep) s")
    case Nil
    with cut show ?thesis by (simp add: Cut_def)
  next
    case (Cons d t)
    with cut have a: "a = takeWhile (\<lambda>c. c \<noteq> sep) s" and b: "b = t"
      by (auto simp: Cut_def)
    have "d = sep"
      using Cons hd_dropWhile [of "\<lambda>c. c \<noteq> sep" s] by simp
    then have "s = a @ sep # b"
      using a b Cons takeWhile_dropWhile_id [of "\<lambda>c. c \<noteq> sep" s] by simp
    moreover have "sep \<notin> set a"
      using a set_takeWhileD by fastforce
    ultimately show ?thesis by simp
  qed
qed

lemma Cut_not_found_iff: "snd (snd (Cut sep s)) = (sep \<in> set s)"
proof (cases "sep \<in> set s")
  case True
  then obtain a b where "s = a @ sep # b" and "sep \<notin> set a"
    by (meson split_list_first)
  with True show ?thesis by (simp add: Cut_found)
qed (simp add: Cut_absent)

lemma SplitN2_found [go_str]: "sep \<notin> set a \<Longrightarrow> SplitN2 sep (a @ sep # b) = [a, b]"
  by (simp add: SplitN2_def Cut_found)

lemma SplitN2_absent [go_str]: "sep \<notin> set s \<Longrightarrow> SplitN2 sep s = [s]"
  by (simp add: SplitN2_def Cut_absent)

lemma SplitN2_two: "SplitN2 sep s = [a, b] \<Longrightarrow> s = a @ sep # b \<and> sep \<notin> set a"
  by (auto simp: SplitN2_def split: prod.splits if_splits dest: CutD)

lemma SplitN2_cases:
  obtains a b where "SplitN2 sep s = [a, b]" "s = a @ sep # b" "sep \<notin> set a"
  | "SplitN2 sep s = [s]" "sep \<notin> set s"
proof (cases "sep \<in> set s")
  case True
  then obtain a b where "s = a @ sep # b" and "sep \<notin> set a"
    by (meson split_list_first)
  then show ?thesis using that(1) by (simp add: SplitN2_found)
next
  case False
  then show ?thesis using that(2) by (simp add: SplitN2_absent)
qed

lemma Split_not_Nil [simp]: "Split sep s \<noteq> []"
  by (induction sep s rule: Split.induct) (auto split: list.splits)

lemma Split_absent [go_str]: "sep \<notin> set s \<Longrightarrow> Split sep s = [s]"
  by (induction sep s rule: Split.induct) auto

lemma Split_append [go_str]: "sep \<notin> set a \<Longrightarrow> Split sep (a @ sep # b) = a # Split sep b"
  by (induction a) auto

lemma TrimRight_suffix: "\<exists>t. s = TrimRight s cs @ t \<and> set t \<subseteq> set cs"
proof -
  let ?P = "\<lambda>c. c \<in> set cs"
  have "rev s = takeWhile ?P (rev s) @ dropWhile ?P (rev s)"
    by simp
  then have "s = rev (dropWhile ?P (rev s)) @ rev (takeWhile ?P (rev s))"
    by (metis rev_append rev_rev_ident)
  moreover have "set (rev (takeWhile ?P (rev s))) \<subseteq> set cs"
    by (auto dest: set_takeWhileD)
  ultimately show ?thesis
    unfolding TrimRight_def TrimLeft_def by blast
qed

lemma TrimRight_append_cut [go_str]: "set t \<subseteq> set cs \<Longrightarrow> TrimRight (s @ t) cs = TrimRight s cs"
  by (simp add: TrimRight_def TrimLeft_def dropWhile_append subset_code(1))

lemma TrimRight_id [go_str]: "s = [] \<or> last s \<notin> set cs \<Longrightarrow> TrimRight s cs = s"
  by (cases s rule: rev_cases) (auto simp: TrimRight_def TrimLeft_def)

lemma set_TrimLeft: "set (TrimLeft s cs) \<subseteq> set s"
  unfolding TrimLeft_def by (auto dest: set_dropWhileD)

lemma set_TrimRight: "set (TrimRight s cs) \<subseteq> set s"
  using set_TrimLeft [of "rev s" cs] by (simp add: TrimRight_def)

lemma set_Trim: "set (Trim s cs) \<subseteq> set s"
  unfolding Trim_def using set_TrimLeft set_TrimRight by blast

lemma Trim_id [go_str]: "set s \<inter> set cs = {} \<Longrightarrow> Trim s cs = s"
proof -
  assume "set s \<inter> set cs = {}"
  then have "TrimLeft s cs = s"
    by (cases s) (auto simp: TrimLeft_def)
  moreover have "TrimRight s cs = s"
    using \<open>set s \<inter> set cs = {}\<close> by (intro TrimRight_id) (cases s rule: rev_cases, auto)
  ultimately show ?thesis by (simp add: Trim_def)
qed

subsection \<open>Laws of white space\<close>

definition starts_with_any :: "string list \<Rightarrow> string \<Rightarrow> bool" where
  "starts_with_any ps s \<longleftrightarrow> (\<exists>p \<in> set ps. p \<noteq> [] \<and> HasPrefix s p)"

lemma find_starts: "find (\<lambda>p. p \<noteq> [] \<and> HasPrefix s p) ps = None \<longleftrightarrow> \<not> starts_with_any ps s"
  unfolding starts_with_any_def find_None_iff by blast

lemma strip_front_id: "\<not> starts_with_any ps s \<Longrightarrow> strip_front ps s = s"
  using find_starts [of s ps] by (simp add: strip_front.simps [of ps s])

lemma strip_front_suffix: "suffix (strip_front ps s) s"
proof (induction ps s rule: strip_front.induct)
  case (1 ps s)
  show ?case
  proof (cases "find (\<lambda>p. p \<noteq> [] \<and> HasPrefix s p) ps")
    case None
    then show ?thesis by (simp add: strip_front.simps [of ps s])
  next
    case (Some p)
    then have "suffix (strip_front ps (drop (length p) s)) (drop (length p) s)"
      using "1.IH" by blast
    with Some show ?thesis
      by (simp add: strip_front.simps [of ps s]) (metis suffix_drop suffix_order.trans)
  qed
qed

lemma strip_front_done: "\<not> starts_with_any ps (strip_front ps s)"
proof (induction ps s rule: strip_front.induct)
  case (1 ps s)
  show ?case
  proof (cases "find (\<lambda>p. p \<noteq> [] \<and> HasPrefix s p) ps")
    case None
    then show ?thesis
      using find_starts [of s ps] strip_front_id by simp
  next
    case (Some p)
    then show ?thesis using "1.IH" by (simp add: strip_front.simps [of ps s])
  qed
qed

lemma TrimSpace_length: "length (TrimSpace s) \<le> length s"
proof -
  have "length (strip_front (map rev space_runes) (rev (strip_front space_runes s)))
      \<le> length (strip_front space_runes s)"
    using suffix_length_le [OF strip_front_suffix] by (metis length_rev)
  also have "\<dots> \<le> length s"
    using strip_front_suffix suffix_length_le by blast
  finally show ?thesis by (simp add: TrimSpace_def)
qed

lemma TrimSpace_sublist: "sublist (TrimSpace s) s"
proof -
  have "suffix (rev (TrimSpace s)) (rev (strip_front space_runes s))"
    using strip_front_suffix by (simp add: TrimSpace_def)
  then have "prefix (TrimSpace s) (strip_front space_runes s)"
    by (simp add: suffix_to_prefix)
  moreover have "suffix (strip_front space_runes s) s"
    by (rule strip_front_suffix)
  ultimately show ?thesis
    unfolding prefix_def suffix_def sublist_def by (metis append_assoc)
qed

lemma TrimSpace_no_trailing: "\<not> starts_with_any (map rev space_runes) (rev (TrimSpace s))"
  by (simp add: TrimSpace_def strip_front_done)

text \<open>The first byte of a white space rune, and the last one.\<close>

definition space_heads :: string where
  "space_heads = [CHR 0x09, CHR 0x0A, CHR 0x0B, CHR 0x0C, CHR 0x0D, CHR 0x20,
     CHR 0xC2, CHR 0xE1, CHR 0xE2, CHR 0xE3]"

definition printable :: "char \<Rightarrow> bool" where
  "printable c \<longleftrightarrow> 32 < (of_char c :: nat) \<and> (of_char c :: nat) < 127"

lemma space_head: "p \<in> set space_runes \<Longrightarrow> p \<noteq> [] \<and> hd p \<in> set space_heads"
proof -
  assume "p \<in> set space_runes"
  moreover have "list_all (\<lambda>p. p \<noteq> [] \<and> hd p \<in> set space_heads) space_runes"
    by code_simp
  ultimately show ?thesis unfolding list_all_iff by blast
qed

lemma space_last: "p \<in> set space_runes \<Longrightarrow> \<not> printable (last p)"
proof -
  assume "p \<in> set space_runes"
  moreover have "list_all (\<lambda>p. \<not> printable (last p)) space_runes"
    by code_simp
  ultimately show ?thesis unfolding list_all_iff by blast
qed

lemma space_head_not_printable: "c \<in> set space_heads \<Longrightarrow> \<not> printable c"
proof -
  assume "c \<in> set space_heads"
  moreover have "list_all (\<lambda>c. \<not> printable c) space_heads"
    by code_simp
  ultimately show ?thesis unfolding list_all_iff by blast
qed

lemma not_starts_space: "s = [] \<or> printable (hd s) \<Longrightarrow> \<not> starts_with_any space_runes s"
  using space_head space_head_not_printable
  by (fastforce simp: starts_with_any_def elim: HasPrefixE)

lemma not_ends_space:
  assumes "s = [] \<or> printable (last s)"
  shows "\<not> starts_with_any (map rev space_runes) (rev s)"
proof
  assume "starts_with_any (map rev space_runes) (rev s)"
  then obtain p where p: "p \<in> set space_runes" "p \<noteq> []" and pre: "HasPrefix (rev s) (rev p)"
    by (auto simp: starts_with_any_def)
  from pre have "HasSuffix s p" by (simp add: HasSuffix_def)
  then obtain t where "s = t @ p" by (rule HasSuffixE)
  with p have "last s = last p" and "s \<noteq> []" by simp_all
  with assms space_last [OF p(1)] show False by simp
qed

lemma TrimSpace_printable [go_str]:
  assumes "s = [] \<or> printable (hd s) \<and> printable (last s)"
  shows "TrimSpace s = s"
proof -
  have "strip_front space_runes s = s"
    using assms by (intro strip_front_id not_starts_space) auto
  moreover have "strip_front (map rev space_runes) (rev s) = rev s"
    using assms by (intro strip_front_id not_ends_space) auto
  ultimately show ?thesis by (simp add: TrimSpace_def)
qed

lemma strip_front_step:
  assumes "p \<in> set ps" "length p = 1"
    and single: "\<And>q. q \<in> set ps \<Longrightarrow> q \<noteq> [] \<Longrightarrow> HasPrefix (p @ s) q \<Longrightarrow> length q = 1"
  shows "strip_front ps (p @ s) = strip_front ps s"
proof -
  have "find (\<lambda>q. q \<noteq> [] \<and> HasPrefix (p @ s) q) ps \<noteq> None"
    using assms(1,2) by (auto simp: find_None_iff)
  then obtain q where q: "find (\<lambda>q. q \<noteq> [] \<and> HasPrefix (p @ s) q) ps = Some q"
    by blast
  then have "length q = 1"
    using single by (auto simp: find_Some_iff)
  with q assms(2) show ?thesis by (simp add: strip_front.simps [of ps "p @ s"])
qed

subsection \<open>Laws of case mapping\<close>

lemma ToUpper_length: "length (ToUpper s) \<le> length s"
  by (induction s rule: ToUpper.induct) auto

lemma ToUpper_plain:
  assumes "\<forall>c \<in> set s. (of_char c :: nat) < 128"
  shows "ToUpper s = map upper_byte s"
proof -
  have "\<forall>c \<in> set s. c \<noteq> CHR 0xC4 \<and> c \<noteq> CHR 0xC5"
    using assms by fastforce
  then show ?thesis
    by (induction s rule: ToUpper.induct) auto
qed

lemma upper_byte_ascii: "(of_char (upper_byte c) :: nat) < 128 \<Longrightarrow> (of_char c :: nat) < 128"
  by (auto simp: upper_byte_def split: if_splits)

lemma ToUpper_ascii_append:
  "\<forall>c \<in> set p. (of_char c :: nat) < 128 \<Longrightarrow> ToUpper (p @ t) = map upper_byte p @ ToUpper t"
proof (induction p)
  case (Cons c p)
  then have "c \<noteq> CHR 0xC4 \<and> c \<noteq> CHR 0xC5" by fastforce
  then show ?case using Cons by (cases "p @ t") auto
qed simp

subsection \<open>Decimal numbers\<close>

lemma digit_less_10: "n < 10 \<Longrightarrow> digit n \<in> set ''0123456789''"
  by (auto simp: digit_def less_Suc_eq numeral_eq_Suc)

lemma digit_value: "n < 10 \<Longrightarrow> (of_char (digit n) :: nat) = 48 + n"
  by (auto simp: digit_def less_Suc_eq numeral_eq_Suc)

lemma fmt_nat_digits: "set (fmt_nat n) \<subseteq> set ''0123456789''"
proof (induction n rule: fmt_nat.induct)
  case (1 n)
  show ?case
  proof (cases "n < 10")
    case True
    then show ?thesis using digit_less_10 by (simp add: fmt_nat.simps [of n])
  next
    case False
    then have "set (fmt_nat (n div 10)) \<subseteq> set ''0123456789''" by (rule "1.IH")
    moreover have "digit (n mod 10) \<in> set ''0123456789''" by (rule digit_less_10) simp
    ultimately show ?thesis
      using False fmt_nat.simps [of n] by (simp only: if_False set_append) auto
  qed
qed

lemma fmt_nat_not_Nil [simp]: "fmt_nat n \<noteq> []"
  by (subst fmt_nat.simps) simp

definition parse_digits :: "string \<Rightarrow> nat" where
  "parse_digits s = foldl (\<lambda>n c. 10 * n + (of_char c - 48)) 0 s"

lemma parse_fmt_nat: "parse_digits (fmt_nat n) = n"
proof (induction n rule: fmt_nat.induct)
  case (1 n)
  show ?case
  proof (cases "n < 10")
    case True
    then show ?thesis by (simp add: fmt_nat.simps [of n] parse_digits_def digit_value)
  next
    case False
    then have "parse_digits (fmt_nat (n div 10)) = n div 10" by (rule "1.IH")
    with False show ?thesis
      by (simp add: fmt_nat.simps [of n] parse_digits_def digit_value)
  qed
qed

lemma fmt_nat_inject [simp]: "fmt_nat m = fmt_nat n \<longleftrightarrow> m = n"
  by (metis parse_fmt_nat)

lemma fmt_u_inject [simp]: "fmt_u v = fmt_u w \<longleftrightarrow> v = w"
  by (simp add: fmt_u_def word_unat_eq_iff)

lemma fmt_nat_plain: "c \<in> set (fmt_nat n) \<Longrightarrow> c \<noteq> CR \<and> c \<noteq> LF \<and> c \<noteq> SPC"
  using fmt_nat_digits [of n] by auto

subsection \<open>Quoting\<close>

lemma digit_plain: "n < 16 \<Longrightarrow> CR \<noteq> digit n \<and> LF \<noteq> digit n"
  by (auto simp: digit_def less_Suc_eq numeral_eq_Suc)

lemma hex_plain: "CR \<notin> set (hex k n)" "LF \<notin> set (hex k n)"
  by (induction k arbitrary: n) (simp_all add: digit_plain)

lemma in_ranges_high:
  "list_all (\<lambda>(lo, hi). 128 \<le> lo) rs \<Longrightarrow> in_ranges rs cs \<Longrightarrow> c \<in> set (take (length rs) cs) \<Longrightarrow> 128 \<le> (of_char c :: nat)"
  by (induction rs cs rule: in_ranges.induct) auto

lemma utf8_form_high: "utf8_form c = Some rs \<Longrightarrow> list_all (\<lambda>(lo, hi). 128 \<le> lo) rs \<and> (rs = [] \<or> 128 \<le> (of_char c :: nat))"
  by (auto simp: utf8_form_def Let_def split: if_splits)

text \<open>A rune is one byte, or every byte of it is outside of ASCII.\<close>

lemma runes_bytes:
  "(r, bs) \<in> set (runes s) \<Longrightarrow>
     (\<exists>c. bs = [c] \<and> (r = of_char c \<or> r = RuneError)) \<or> (\<forall>c \<in> set bs. 128 \<le> (of_char c :: nat))"
proof (induction s rule: runes.induct)
  case (2 c cs)
  obtain r1 w where dec: "DecodeRune c cs = (r1, w)" by fastforce
  have head: "(\<exists>d. take w (c # cs) = [d] \<and> (r1 = of_char d \<or> r1 = RuneError))
    \<or> (\<forall>d \<in> set (take w (c # cs)). 128 \<le> (of_char d :: nat))"
    using dec in_ranges_high utf8_form_high [of c]
    by (fastforce simp: DecodeRune_def rune_value_def split: option.splits if_splits)
  show ?case using "2.prems" "2.IH" [OF dec [symmetric]] dec head by auto
qed simp

lemma quote_rune_no_newline:
  assumes "(r, bs) \<in> set (runes s)" "c = CR \<or> c = LF"
  shows "c \<notin> set (quote_rune U (r, bs))"
proof -
  have c: "(of_char c :: nat) < 14" "\<And>k n. c \<notin> set (hex k n)" using assms(2) hex_plain by auto
  have keep: "IsPrint U r \<Longrightarrow> r \<noteq> RuneError \<or> length bs \<noteq> 1 \<Longrightarrow> c \<notin> set bs"
    using runes_bytes [OF assms(1)] c(1) by (fastforce simp: IsPrint_def)
  show ?thesis using assms(2) c(2) keep unfolding quote_rune_def by auto
qed

lemma fmt_q_no_newline: "CR \<notin> set (fmt_q U s)" "LF \<notin> set (fmt_q U s)"
  using quote_rune_no_newline by (fastforce simp: fmt_q_def)+

end
