(* ===== verification/GoNet.thy ===== *)
theory GoNet
  imports GoLib
begin

text \<open>
  Connections and buffered readers, as the sessions of \<^verbatim>\<open>internal/smtp\<close> and \<^verbatim>\<open>internal/imap\<close> use them.

  A connection is the sequence of results its \<^verbatim>\<open>Read\<close> calls give: a chunk of bytes (however the
  network cut the byte stream) or an error (a passed deadline, a reset). When the sequence is used
  up every further read is an error: the peer has closed. A \<^verbatim>\<open>bufio.Reader\<close> is the bytes it has
  read ahead; two readers on one connection each have their own. \<open>ReadString\<close> is
  \<^verbatim>\<open>bufio.Reader.ReadString('\n')\<close>: it returns \<^const>\<open>None\<close> for a non-nil error, and then the bytes
  read so far are gone from the buffer.

  The central facts: what one reader returns depends on the bytes only and not on how they were
  cut into chunks (\<open>ReadString_chunks\<close>), and a read never lengthens the input (\<open>size_laws\<close>), which
  is why the session loops end.
\<close>

datatype read_event = Chunk bytes | ReadErr

type_synonym stream = "read_event list"

fun cut_line :: "bytes \<Rightarrow> (bytes \<times> bytes) option" where
  "cut_line [] = None"
| "cut_line (c # cs) =
     (if c = LF then Some ([LF], cs)
      else map_option (\<lambda>(line, rest). (c # line, rest)) (cut_line cs))"

fun ReadString :: "bytes \<Rightarrow> stream \<Rightarrow> bytes option \<times> bytes \<times> stream" where
  "ReadString buf evs =
     (case cut_line buf of
        Some (line, rest) \<Rightarrow> (Some line, rest, evs)
      | None \<Rightarrow>
          (case evs of
             [] \<Rightarrow> (None, [], [])
           | ReadErr # evs' \<Rightarrow> (None, [], evs')
           | Chunk c # evs' \<Rightarrow> ReadString (buf @ c) evs'))"

declare ReadString.simps [simp del]

fun event_size :: "read_event \<Rightarrow> nat" where
  "event_size (Chunk c) = Suc (length c)"
| "event_size ReadErr = 1"

definition stream_size :: "stream \<Rightarrow> nat" where
  "stream_size evs = sum_list (map event_size evs)"

definition input_size :: "bytes \<Rightarrow> stream \<Rightarrow> nat" where
  "input_size buf evs = length buf + stream_size evs"

subsection \<open>Cutting a buffer at its first newline\<close>

lemma cut_line_Some_iff:
  "cut_line b = Some (line, rest) \<longleftrightarrow> (\<exists>l. line = l @ [LF] \<and> LF \<notin> set l \<and> b = line @ rest)"
proof (induction b arbitrary: line)
  case (Cons c b)
  show ?case
  proof (cases "c = LF")
    case True
    then show ?thesis by (auto simp: Cons_eq_append_conv)
  next
    case False
    have "cut_line (c # b) = Some (line, rest) \<longleftrightarrow> (\<exists>m. line = c # m \<and> cut_line b = Some (m, rest))"
      using False by auto
    also have "\<dots> \<longleftrightarrow> (\<exists>m l. line = c # m \<and> m = l @ [LF] \<and> LF \<notin> set l \<and> b = m @ rest)"
      using Cons.IH by auto
    also have "\<dots> \<longleftrightarrow> (\<exists>l. line = l @ [LF] \<and> LF \<notin> set l \<and> c # b = line @ rest)"
      using False by (auto simp: Cons_eq_append_conv)
    finally show ?thesis .
  qed
qed auto

lemma cut_line_None_iff: "cut_line b = None \<longleftrightarrow> LF \<notin> set b"
  by (induction b) auto

lemma cut_line_append [go_str]: "LF \<notin> set l \<Longrightarrow> cut_line (l @ LF # rest) = Some (l @ [LF], rest)"
  by (simp add: cut_line_Some_iff)

lemma cut_line_more: "cut_line b = Some (line, rest) \<Longrightarrow> cut_line (b @ c) = Some (line, rest @ c)"
  by (auto simp: cut_line_Some_iff)

subsection \<open>Reading a line\<close>

lemma ReadString_buffered: "cut_line buf = Some (line, rest) \<Longrightarrow> ReadString buf evs = (Some line, rest, evs)"
  by (simp add: ReadString.simps)

lemma ReadString_Chunk:
  "cut_line buf = None \<Longrightarrow> ReadString buf (Chunk c # evs) = ReadString (buf @ c) evs"
  by (simp add: ReadString.simps [of buf])

lemma ReadString_end: "cut_line buf = None \<Longrightarrow> ReadString buf [] = (None, [], [])"
  by (simp add: ReadString.simps)

lemma ReadString_err: "cut_line buf = None \<Longrightarrow> ReadString buf (ReadErr # evs) = (None, [], evs)"
  by (simp add: ReadString.simps)

lemma stream_size_simps [simp]:
  "stream_size [] = 0"
  "stream_size (Chunk c # evs) = Suc (length c + stream_size evs)"
  "stream_size (ReadErr # evs) = Suc (stream_size evs)"
  by (simp_all add: stream_size_def)

lemma stream_size_drop: "stream_size (drop n evs) \<le> stream_size evs"
proof -
  have "stream_size evs = stream_size (take n evs) + stream_size (drop n evs)"
    unfolding stream_size_def by (metis append_take_drop_id map_append sum_list_append)
  then show ?thesis by simp
qed

lemma ReadString_size:
  "ReadString buf evs = (r, buf', evs') \<Longrightarrow>
     input_size buf' evs' + (case r of None \<Rightarrow> 0 | Some line \<Rightarrow> length line) \<le> input_size buf evs"
proof (induction buf evs rule: ReadString.induct)
  case (1 buf evs)
  show ?case
  proof (cases "cut_line buf")
    case (Some lr)
    then obtain line rest where lr: "cut_line buf = Some (line, rest)" by (cases lr) auto
    then have "length buf = length line + length rest"
      by (auto simp: cut_line_Some_iff)
    with lr "1.prems" show ?thesis
      by (auto simp: ReadString_buffered input_size_def)
  next
    case None
    show ?thesis
    proof (cases evs)
      case Nil
      with None "1.prems" show ?thesis by (auto simp: ReadString_end input_size_def)
    next
      case (Cons e es)
      show ?thesis
      proof (cases e)
        case (Chunk c)
        with None Cons "1.prems" have "ReadString (buf @ c) es = (r, buf', evs')"
          by (simp add: ReadString_Chunk)
        then have "input_size buf' evs' + (case r of None \<Rightarrow> 0 | Some line \<Rightarrow> length line)
            \<le> input_size (buf @ c) es"
          using "1.IH" [OF None Cons Chunk] by blast
        then show ?thesis using Cons Chunk by (simp add: input_size_def)
      next
        case ReadErr
        with None Cons "1.prems" show ?thesis by (auto simp: ReadString_err input_size_def)
      qed
    qed
  qed
qed

lemma ReadString_line:
  "ReadString buf evs = (Some line, buf', evs') \<Longrightarrow> \<exists>l. line = l @ [LF] \<and> LF \<notin> set l"
proof (induction buf evs rule: ReadString.induct)
  case (1 buf evs)
  show ?case
  proof (cases "cut_line buf")
    case (Some lr)
    with "1.prems" show ?thesis
      by (cases lr) (auto simp: ReadString_buffered cut_line_Some_iff)
  next
    case None
    with 1 show ?thesis
      by (cases evs) (auto simp: ReadString.simps [of buf] split: read_event.splits)
  qed
qed

lemma ReadString_smaller:
  assumes "ReadString buf evs = (Some line, buf', evs')"
  shows "input_size buf' evs' < input_size buf evs"
  using ReadString_size [OF assms] ReadString_line [OF assms] by auto

lemma ReadString_stream:
  "ReadString buf evs = (r, buf', evs') \<Longrightarrow> stream_size evs' \<le> stream_size evs"
proof (induction buf evs rule: ReadString.induct)
  case (1 buf evs)
  show ?case
  proof (cases "cut_line buf")
    case (Some lr)
    with "1.prems" show ?thesis by (cases lr) (auto simp: ReadString_buffered)
  next
    case None
    show ?thesis
    proof (cases evs)
      case Nil
      with None "1.prems" show ?thesis by (auto simp: ReadString_end)
    next
      case (Cons e es)
      then show ?thesis
        using None "1.prems" "1.IH" [OF None Cons]
        by (cases e) (auto simp: ReadString_Chunk ReadString_err)
    qed
  qed
qed

text \<open>
  One reader sees lines, not chunks: whatever the chunks are, the line is the first line of the
  bytes, and the reader's buffer with the chunks that are left holds exactly the other bytes.
\<close>

lemma ReadString_chunks:
  assumes "cut_line (buf @ concat cs) = Some (line, rest)"
  shows "\<exists>buf' cs'. ReadString buf (map Chunk cs @ evs) = (Some line, buf', map Chunk cs' @ evs)
           \<and> buf' @ concat cs' = rest"
  using assms
proof (induction cs arbitrary: buf)
  case Nil
  then show ?case by (intro exI [of _ rest] exI [of _ "[]"]) (simp add: ReadString_buffered)
next
  case (Cons c cs)
  show ?case
  proof (cases "cut_line buf")
    case None
    then show ?thesis using Cons by (simp add: ReadString_Chunk)
  next
    case (Some lr)
    then obtain l r where lr: "cut_line buf = Some (l, r)" by (cases lr) auto
    with Cons.prems have "l = line" and "r @ concat (c # cs) = rest"
      using cut_line_more [OF lr, of "concat (c # cs)"] by auto
    with lr show ?thesis
      by (intro exI [of _ r] exI [of _ "c # cs"]) (simp add: ReadString_buffered)
  qed
qed

lemma ReadString_chunks_end:
  "cut_line (buf @ concat cs) = None \<Longrightarrow> ReadString buf (map Chunk cs) = (None, [], [])"
proof (induction cs arbitrary: buf)
  case Nil
  then show ?case by (simp add: ReadString_end)
next
  case (Cons c cs)
  then have "cut_line buf = None" by (simp add: cut_line_None_iff)
  then show ?case using Cons by (simp add: ReadString_Chunk)
qed

end
