(* ===== verification/Fsm.thy ===== *)
theory Fsm
  imports GoLib
begin

text \<open>
  Finite state machines of \<^verbatim>\<open>github.com/looplab/fsm\<close>, which the sessions use and which is not part
  of the repository. The transition table and the current state are data of the program; what
  \<^verbatim>\<open>FSM.Event\<close> does with them is a parameter of the session models, and \<open>looplab_contract\<close> states
  what the package documents of it:
  \<^item> an event that has no transition from the current state is an error and changes nothing
    (\<^verbatim>\<open>InvalidEventError\<close>, \<^verbatim>\<open>UnknownEventError\<close>);
  \<^item> an event whose destination is the current state is an error too and changes nothing
    (\<^verbatim>\<open>NoTransitionError\<close>: "no transition has happened, for example if the source and destination
    states are the same");
  \<^item> every other event of the table moves the machine to its destination and returns nil.
  The callbacks the sources register only write log lines.
\<close>

record ('s, 'e) EventDesc =
  Name :: 'e
  Src :: "'s list"
  Dst :: 's

record ('s, 'e) FSM =
  Current :: 's
  Events :: "('s, 'e) EventDesc list"

type_synonym ('s, 'e) fsm_Event = "('s, 'e) FSM \<Rightarrow> 'e \<Rightarrow> go_error option \<times> ('s, 'e) FSM"

text \<open>The destination the table gives, where a later entry of the table overrides an earlier one.\<close>

definition fsm_dst :: "('s, 'e) FSM \<Rightarrow> 'e \<Rightarrow> 's option" where
  "fsm_dst f e =
     map_option Dst (find (\<lambda>d. Name d = e \<and> Current f \<in> set (Src d)) (rev (Events f)))"

definition looplab_contract :: "('s, 'e) fsm_Event \<Rightarrow> bool" where
  "looplab_contract event \<longleftrightarrow>
     (\<forall>f e. case fsm_dst f e of
        None \<Rightarrow> \<exists>err. event f e = (Some err, f)
      | Some d \<Rightarrow>
          if d = Current f then \<exists>err. event f e = (Some err, f)
          else event f e = (None, f\<lparr>Current := d\<rparr>))"

text \<open>A function that behaves as documented, for the concrete runs of the development.\<close>

definition table_event :: "('s, 'e) fsm_Event" where
  "table_event f e =
     (case fsm_dst f e of
        None \<Rightarrow> (Some (ErrExternal ''event inappropriate in current state''), f)
      | Some d \<Rightarrow>
          if d = Current f then (Some (ErrExternal ''no transition''), f)
          else (None, f\<lparr>Current := d\<rparr>))"

lemma table_event_contract: "looplab_contract table_event"
  by (auto simp: looplab_contract_def table_event_def split: option.splits)

text \<open>What a client reads off the contract: the next state, when there is one.\<close>

definition fsm_next :: "('s, 'e) FSM \<Rightarrow> 'e \<Rightarrow> 's option" where
  "fsm_next f e = (case fsm_dst f e of None \<Rightarrow> None | Some d \<Rightarrow> if d = Current f then None else Some d)"

lemma contract_moves:
  "looplab_contract event \<Longrightarrow> fsm_next f e = Some d \<Longrightarrow> event f e = (None, f\<lparr>Current := d\<rparr>)"
  unfolding looplab_contract_def fsm_next_def
  by (elim allE [where x = f] allE [where x = e]) (auto split: option.splits if_splits)

lemma contract_rejects:
  "looplab_contract event \<Longrightarrow> fsm_next f e = None \<Longrightarrow> \<exists>err. event f e = (Some err, f)"
  unfolding looplab_contract_def fsm_next_def
  by (elim allE [where x = f] allE [where x = e]) (auto split: option.splits if_splits)

end
