(* ===== verification/Ports.thy ===== *)
theory Ports
  imports GoLib
begin

text \<open>
  The ports of \<^verbatim>\<open>internal/ports\<close>: the domain model (\<^verbatim>\<open>storage.go\<close>), the domain events
  (\<^verbatim>\<open>events.go\<close>) and the interfaces by which the protocol servers reach the storage.

  A Go interface value is a record of functions. An operation of a port takes the state \<open>'w\<close> of
  whatever stands behind the port and returns its result with the new state; a non-nil error is
  \<^const>\<open>Inl\<close>. Times are seconds since the epoch.
\<close>

type_synonym time = int

record Domain =
  Domain_ID :: uint64
  Domain_Name :: string

record User =
  User_ID :: uint64
  User_DomainID :: uint64
  User_Username :: string
  User_PasswordHash :: string
  User_QuotaBytes :: int

record Mailbox =
  Mailbox_ID :: uint64
  Mailbox_UserID :: uint64
  Mailbox_Name :: string
  Mailbox_UIDValidity :: uint32
  Mailbox_UIDNext :: uint32

record Message =
  Message_ID :: uint64
  Message_MailboxID :: uint64
  Message_UID :: uint32
  Message_Flags :: string
  Message_SizeBytes :: int
  Message_RawKey :: string
  Message_EnvelopeFrom :: string
  Message_EnvelopeTo :: string
  Message_Subject :: string

record MessageReceived =
  Received_From :: string
  Received_To :: "string list"
  Received_Body :: bytes
  Received_Size :: int
  Received_Timestamp :: time

record MessageDelivered =
  Delivered_MessageID :: uint64
  Delivered_MailboxID :: uint64
  Delivered_UID :: uint32
  Delivered_To :: string
  Delivered_Timestamp :: time

datatype Event = EvReceived MessageReceived | EvDelivered MessageDelivered

fun EventName :: "Event \<Rightarrow> string" where
  "EventName (EvReceived e) = ''message.received''"
| "EventName (EvDelivered e) = ''message.delivered''"

fun OccurredAt :: "Event \<Rightarrow> time" where
  "OccurredAt (EvReceived e) = Received_Timestamp e"
| "OccurredAt (EvDelivered e) = Delivered_Timestamp e"

type_synonym ('w, 'a) op = "'w \<Rightarrow> 'a result \<times> 'w"

record 'w DeliveryPipeline =
  Deliver :: "MessageReceived \<Rightarrow> 'w \<Rightarrow> go_error option \<times> 'w"

record 'w MailboxReader =
  FindMailbox :: "uint64 \<Rightarrow> string \<Rightarrow> ('w, Mailbox) op"
  ListMailboxes :: "uint64 \<Rightarrow> ('w, Mailbox list) op"
  GetMailboxByID :: "uint64 \<Rightarrow> ('w, Mailbox) op"

text \<open>A body is an option: \<^verbatim>\<open>nil\<close> is not the empty slice.\<close>

record 'w MessageReader =
  GetMessageBody :: "uint64 \<Rightarrow> ('w, bytes option) op"
  ListMessages :: "uint64 \<Rightarrow> ('w, Message list) op"
  GetMessageByUID :: "uint64 \<Rightarrow> uint32 \<Rightarrow> ('w, Message) op"

record 'w DomainResolver =
  FindDomain :: "string \<Rightarrow> ('w, Domain) op"

record 'w UserAuthenticator =
  FindUser :: "string \<Rightarrow> uint64 \<Rightarrow> ('w, User) op"

subsection \<open>The contract of the delivery port\<close>

text \<open>
  What the SMTP server promises of every event it hands over: a sender, one to a hundred
  recipients, and a size that is the body's.
\<close>

definition event_ok :: "MessageReceived \<Rightarrow> bool" where
  "event_ok e \<longleftrightarrow> Received_From e \<noteq> [] \<and> Received_To e \<noteq> [] \<and> length (Received_To e) \<le> 100
     \<and> (\<forall>a \<in> set (Received_To e). a \<noteq> []) \<and> Received_Size e = int (length (Received_Body e))"

definition deliver_all :: "'w DeliveryPipeline \<Rightarrow> MessageReceived list \<Rightarrow> 'w \<Rightarrow> 'w" where
  "deliver_all p evs w = foldl (\<lambda>w e. snd (Deliver p e w)) w evs"

lemma deliver_all_Nil [simp]: "deliver_all p [] w = w"
  by (simp add: deliver_all_def)

lemma deliver_all_Cons [simp]: "deliver_all p (e # es) w = deliver_all p es (snd (Deliver p e w))"
  by (simp add: deliver_all_def)

lemma deliver_all_append [simp]: "deliver_all p (a @ b) w = deliver_all p b (deliver_all p a w)"
  by (simp add: deliver_all_def)

text \<open>
  A pipeline that keeps an invariant of its state whenever it is given an event as above. The
  client's lemma: any number of deliveries keep it.
\<close>

locale delivery_pipeline =
  fixes pipe :: "'w DeliveryPipeline" and inv :: "'w \<Rightarrow> bool"
  assumes deliver_inv: "inv w \<Longrightarrow> event_ok e \<Longrightarrow> inv (snd (Deliver pipe e w))"
begin

lemma deliver_all_inv: "inv w \<Longrightarrow> list_all event_ok evs \<Longrightarrow> inv (deliver_all pipe evs w)"
  by (induction evs arbitrary: w) (auto intro: deliver_inv)

end

text \<open>A pipeline that never reports an error to the session.\<close>

locale silent_pipeline =
  fixes pipe :: "'w DeliveryPipeline"
  assumes silent: "fst (Deliver pipe e w) = None"

subsection \<open>The contract of the reading ports\<close>

text \<open>
  What the IMAP and JMAP servers rely on, for some notion \<open>owner w b u\<close> of mailbox \<open>b\<close> belonging to
  user \<open>u\<close>: the mailboxes found for a user are that user's, the messages listed for a mailbox lie
  in it and are ordered by UID, and reading changes no ownership.
\<close>

locale mail_reader =
  fixes mbx :: "'w MailboxReader" and msg :: "'w MessageReader"
    and owner :: "'w \<Rightarrow> uint64 \<Rightarrow> uint64 \<Rightarrow> bool"
  assumes find_owned: "FindMailbox mbx u n w = (Inr m, w') \<Longrightarrow> Mailbox_UserID m = u \<and> owner w (Mailbox_ID m) u"
    and list_owned: "ListMailboxes mbx u w = (Inr ms, w') \<Longrightarrow> m \<in> set ms \<Longrightarrow>
      Mailbox_UserID m = u \<and> owner w (Mailbox_ID m) u"
    and messages_inside: "ListMessages msg b w = (Inr xs, w') \<Longrightarrow> x \<in> set xs \<Longrightarrow> Message_MailboxID x = b"
    and messages_sorted: "ListMessages msg b w = (Inr xs, w') \<Longrightarrow> sorted (map Message_UID xs)"
    and find_keeps: "owner (snd (FindMailbox mbx u n w)) = owner w"
    and list_keeps: "owner (snd (ListMailboxes mbx u w)) = owner w"
    and messages_keep: "owner (snd (ListMessages msg b w)) = owner w"
    and body_keeps: "owner (snd (GetMessageBody msg i w)) = owner w"
begin

lemma found_then_listed:
  assumes "FindMailbox mbx u n w = (Inr mb, w1)" "ListMessages msg (Mailbox_ID mb) w1 = (Inr xs, w2)" "x \<in> set xs"
  shows "owner w2 (Message_MailboxID x) u"
proof -
  have "owner w (Mailbox_ID mb) u" using find_owned [OF assms(1)] by simp
  moreover have "owner w1 = owner w" using find_keeps [of u n w] assms(1) by simp
  moreover have "owner w2 = owner w1" using messages_keep [of "Mailbox_ID mb" w1] assms(2) by simp
  ultimately show ?thesis using messages_inside [OF assms(2,3)] by simp
qed

end

text \<open>
  The four reading ports leave a part \<open>view w\<close> of their state as it is; their clients then do, too.
\<close>

locale quiet_ports =
  fixes mbx :: "'w MailboxReader" and msg :: "'w MessageReader" and doms :: "'w DomainResolver"
    and usrs :: "'w UserAuthenticator" and view :: "'w \<Rightarrow> 'v"
  assumes quiet_find: "FindMailbox mbx u n w = (rf, w') \<Longrightarrow> view w' = view w"
    and quiet_list: "ListMailboxes mbx u w = (rl, w') \<Longrightarrow> view w' = view w"
    and quiet_messages: "ListMessages msg b w = (rm, w') \<Longrightarrow> view w' = view w"
    and quiet_body: "GetMessageBody msg i w = (rb, w') \<Longrightarrow> view w' = view w"
    and quiet_domain: "FindDomain doms dn w = (rd, w') \<Longrightarrow> view w' = view w"
    and quiet_user: "FindUser usrs un did w = (ru, w') \<Longrightarrow> view w' = view w"

text \<open>
  The contract of the reading ports with the two ports that a login needs: \<open>account w n dn u\<close> says that
  the user \<open>u\<close> is known as \<open>n\<close> in the domain \<open>dn\<close>; what the directory answers are such users, and
  reading changes neither ownership nor accounts.
\<close>

locale account_reader = mail_reader mbx msg owner
  for mbx :: "'w MailboxReader" and msg :: "'w MessageReader" and owner +
  fixes doms :: "'w DomainResolver" and usrs :: "'w UserAuthenticator"
    and account :: "'w \<Rightarrow> string \<Rightarrow> string \<Rightarrow> User \<Rightarrow> bool"
  assumes reads_quiet: "quiet_ports mbx msg doms usrs (\<lambda>w. (owner w, account w))"
    and resolved: "FindDomain doms dn w = (Inr d, w1) \<Longrightarrow> FindUser usrs n (Domain_ID d) w1 = (Inr u, w2) \<Longrightarrow>
      account w2 n dn u"

sublocale account_reader \<subseteq> quiet: quiet_ports mbx msg doms usrs "\<lambda>w. (owner w, account w)"
  by (rule reads_quiet)

end
