(* ===== verification/Config.thy ===== *)
theory Config
  imports GoLib
begin

text \<open>
  The configuration: \<^verbatim>\<open>config/config.go\<close> (records, \<open>Load\<close> and its three helpers) with the two parsers
  of the package \<^verbatim>\<open>strconv\<close> it calls, and \<^verbatim>\<open>internal/security/tls.go\<close> (\<open>LoadTLSConfig\<close>).

  The process environment is a function from names to values with the empty string for an unset
  name, as \<^verbatim>\<open>os.Getenv\<close> gives it. Reading a certificate and its key from disk is a parameter of
  \<open>LoadTLSConfig\<close>. The lemmas show which values a variable can give a field: numbers and booleans
  that parse are taken, anything else falls back to the default, and a number is read back as it
  was printed.
\<close>

record MySQLConfig =
  MySQL_DSN :: string

record RedisConfig =
  Redis_Addr :: string
  Redis_Password :: string
  Redis_DB :: int

record SMTPConfig =
  SMTP_Addr :: string
  SMTP_AddrTLS :: string
  SMTP_Domain :: string
  SMTP_MaxSize :: int

record IMAPConfig =
  IMAP_Addr :: string
  IMAP_AddrTLS :: string

record JMAPConfig =
  JMAP_Addr :: string

record TLSConfig =
  TLS_CertFile :: string
  TLS_KeyFile :: string
  TLS_Enabled :: bool

record TelemetryConfig =
  PPROFAddr :: string

record Config =
  cfg_Env :: string
  cfg_MySQL :: MySQLConfig
  cfg_Redis :: RedisConfig
  cfg_SMTP :: SMTPConfig
  cfg_IMAP :: IMAPConfig
  cfg_JMAP :: JMAPConfig
  cfg_TLS :: TLSConfig
  cfg_Telemetry :: TelemetryConfig

subsection \<open>The package strconv\<close>

definition int64_min :: int where "int64_min = - (2 ^ 63)"
definition int64_max :: int where "int64_max = 2 ^ 63 - 1"

text \<open>\<^verbatim>\<open>strconv.Atoi\<close>: an optional sign, at least one decimal digit, and a value that fits an int.\<close>

definition Atoi :: "string \<Rightarrow> int option" where
  "Atoi s =
     (let (neg, ds) = (case s of
            [] \<Rightarrow> (False, s)
          | c # t \<Rightarrow> if c = CHR ''-'' then (True, t) else if c = CHR ''+'' then (False, t) else (False, s));
          v = (if neg then - int (parse_digits ds) else int (parse_digits ds))
      in if ds = [] \<or> \<not> list_all (\<lambda>c. c \<in> set ''0123456789'') ds then None
         else if v < int64_min \<or> int64_max < v then None
         else Some v)"

definition ParseBool :: "string \<Rightarrow> bool option" where
  "ParseBool s =
     (if s \<in> set [''1'', ''t'', ''T'', ''true'', ''TRUE'', ''True''] then Some True
      else if s \<in> set [''0'', ''f'', ''F'', ''false'', ''FALSE'', ''False''] then Some False
      else None)"

subsection \<open>Reading the environment\<close>

type_synonym environ = "string \<Rightarrow> string"

definition getEnv :: "environ \<Rightarrow> string \<Rightarrow> string \<Rightarrow> string" where
  "getEnv env key fallback = (let val = env key in if val \<noteq> [] then val else fallback)"

definition getEnvInt :: "environ \<Rightarrow> string \<Rightarrow> int \<Rightarrow> int" where
  "getEnvInt env key fallback =
     (let val = env key
      in if val = [] then fallback
         else (case Atoi val of None \<Rightarrow> fallback | Some n \<Rightarrow> n))"

definition getEnvBool :: "environ \<Rightarrow> string \<Rightarrow> bool \<Rightarrow> bool" where
  "getEnvBool env key fallback =
     (let val = env key
      in if val = [] then fallback
         else (case ParseBool val of None \<Rightarrow> fallback | Some b \<Rightarrow> b))"

definition Load :: "environ \<Rightarrow> Config" where
  "Load env =
     \<lparr>cfg_Env = getEnv env ''GOMAIL_ENV'' ''development'',
      cfg_MySQL = \<lparr>MySQL_DSN = getEnv env ''GOMAIL_MYSQL_DSN''
        ''gomail:gomailpassword@tcp(localhost:3306)/gomail?parseTime=true''\<rparr>,
      cfg_Redis = \<lparr>Redis_Addr = getEnv env ''GOMAIL_REDIS_ADDR'' ''localhost:6379'',
        Redis_Password = getEnv env ''GOMAIL_REDIS_PASSWORD'' [],
        Redis_DB = getEnvInt env ''GOMAIL_REDIS_DB'' 0\<rparr>,
      cfg_SMTP = \<lparr>SMTP_Addr = getEnv env ''GOMAIL_SMTP_ADDR'' '':2525'',
        SMTP_AddrTLS = getEnv env ''GOMAIL_SMTP_ADDR_TLS'' '':4650'',
        SMTP_Domain = getEnv env ''GOMAIL_SMTP_DOMAIN'' ''gomail.local'',
        SMTP_MaxSize = getEnvInt env ''GOMAIL_SMTP_MAX_SIZE'' 26214400\<rparr>,
      cfg_IMAP = \<lparr>IMAP_Addr = getEnv env ''GOMAIL_IMAP_ADDR'' '':1430'',
        IMAP_AddrTLS = getEnv env ''GOMAIL_IMAP_ADDR_TLS'' '':9930''\<rparr>,
      cfg_JMAP = \<lparr>JMAP_Addr = getEnv env ''GOMAIL_JMAP_ADDR'' '':8080''\<rparr>,
      cfg_TLS = \<lparr>TLS_CertFile = getEnv env ''GOMAIL_TLS_CERT'' ''certs/server.crt'',
        TLS_KeyFile = getEnv env ''GOMAIL_TLS_KEY'' ''certs/server.key'',
        TLS_Enabled = getEnvBool env ''GOMAIL_TLS_ENABLED'' True\<rparr>,
      cfg_Telemetry = \<lparr>PPROFAddr = getEnv env ''GOMAIL_PPROF_ADDR'' ''localhost:6061''\<rparr>\<rparr>"

subsection \<open>The TLS configuration\<close>

datatype cipher_suite =
    TLS_ECDHE_ECDSA_WITH_AES_256_GCM_SHA384
  | TLS_ECDHE_RSA_WITH_AES_256_GCM_SHA384
  | TLS_ECDHE_ECDSA_WITH_CHACHA20_POLY1305_SHA256
  | TLS_ECDHE_RSA_WITH_CHACHA20_POLY1305_SHA256
  | TLS_ECDHE_ECDSA_WITH_AES_128_GCM_SHA256
  | TLS_ECDHE_RSA_WITH_AES_128_GCM_SHA256

datatype tls_version = VersionTLS12 | VersionTLS13

record 'cert tls_config =
  Certificates :: "'cert list"
  MinVersion :: tls_version
  CipherSuites :: "cipher_suite list"

definition LoadTLSConfig ::
    "(string \<Rightarrow> string \<Rightarrow> 'cert result) \<Rightarrow> string \<Rightarrow> string \<Rightarrow> 'cert tls_config result" where
  "LoadTLSConfig loadPair certFile keyFile =
     (case loadPair certFile keyFile of
        Inl err \<Rightarrow> Inl (Wrapf ''load tls key pair'' err)
      | Inr cert \<Rightarrow>
          Inr \<lparr>Certificates = [cert],
               MinVersion = VersionTLS12,
               CipherSuites =
                 [TLS_ECDHE_ECDSA_WITH_AES_256_GCM_SHA384,
                  TLS_ECDHE_RSA_WITH_AES_256_GCM_SHA384,
                  TLS_ECDHE_ECDSA_WITH_CHACHA20_POLY1305_SHA256,
                  TLS_ECDHE_RSA_WITH_CHACHA20_POLY1305_SHA256,
                  TLS_ECDHE_ECDSA_WITH_AES_128_GCM_SHA256,
                  TLS_ECDHE_RSA_WITH_AES_128_GCM_SHA256]\<rparr>)"

subsection \<open>Facts about the parsers\<close>

lemma fmt_nat_all_digits: "list_all (\<lambda>c. c \<in> set ''0123456789'') (fmt_nat n)"
  using fmt_nat_digits [of n] unfolding list_all_iff by blast

lemma fmt_nat_no_sign: "fmt_nat n = c # t \<Longrightarrow> c \<noteq> CHR ''-'' \<and> c \<noteq> CHR ''+''"
  using fmt_nat_digits [of n] by auto

lemma Atoi_range: "Atoi s = Some v \<Longrightarrow> int64_min \<le> v \<and> v \<le> int64_max"
  by (auto simp: Atoi_def Let_def split: prod.splits if_splits)

lemma Atoi_negative:
  assumes "int64_min \<le> - int n"
  shows "Atoi (CHR ''-'' # fmt_nat n) = Some (- int n)"
proof -
  have "- int n \<le> int64_max" by (simp add: int64_max_def)
  with assms show ?thesis
    using fmt_nat_all_digits [of n] by (simp add: Atoi_def parse_fmt_nat)
qed

lemma Atoi_positive:
  assumes "int n \<le> int64_max"
  shows "Atoi (fmt_nat n) = Some (int n)"
proof -
  obtain c t where ct: "fmt_nat n = c # t" by (cases "fmt_nat n") auto
  have "int64_min \<le> int n" by (simp add: int64_min_def)
  with assms ct show ?thesis
    using fmt_nat_no_sign [OF ct] fmt_nat_all_digits [of n] parse_fmt_nat [of n]
    by (simp add: Atoi_def)
qed

lemma Atoi_fmt_d: "int64_min \<le> v \<Longrightarrow> v \<le> int64_max \<Longrightarrow> Atoi (fmt_d v) = Some v"
  using Atoi_negative [of "nat (- v)"] Atoi_positive [of "nat v"] by (auto simp: fmt_d_def)

lemma fmt_d_not_Nil [simp]: "fmt_d v \<noteq> []"
  by (simp add: fmt_d_def)

lemma getEnvInt_cases:
  "env key = fmt_d v \<Longrightarrow> int64_min \<le> v \<Longrightarrow> v \<le> int64_max \<Longrightarrow> getEnvInt env key d = v"
  "Atoi (env key) = None \<Longrightarrow> getEnvInt env key d = d"
  by (simp_all add: getEnvInt_def Atoi_fmt_d Let_def)

lemma getEnvInt_range:
  "int64_min \<le> d \<Longrightarrow> d \<le> int64_max \<Longrightarrow> int64_min \<le> getEnvInt env key d \<and> getEnvInt env key d \<le> int64_max"
  using Atoi_range by (simp add: getEnvInt_def Let_def split: option.split)

text \<open>
  The size limit and the cache's database number are the numbers written in the environment: each
  64-bit number, printed in decimal, is read back, a value that is no such number gives the default,
  and whatever the environment holds the limit fits the 64 bits of its field.
\<close>

lemma Load_numbers:
  assumes "int64_min \<le> v" "v \<le> int64_max"
  shows "(env ''GOMAIL_SMTP_MAX_SIZE'' = fmt_d v \<longrightarrow> SMTP_MaxSize (cfg_SMTP (Load env)) = v)
    \<and> (env ''GOMAIL_REDIS_DB'' = fmt_d v \<longrightarrow> Redis_DB (cfg_Redis (Load env)) = v)
    \<and> (Atoi (env ''GOMAIL_SMTP_MAX_SIZE'') = None \<longrightarrow> SMTP_MaxSize (cfg_SMTP (Load env)) = 26214400)
    \<and> (Atoi (env ''GOMAIL_REDIS_DB'') = None \<longrightarrow> Redis_DB (cfg_Redis (Load env)) = 0)
    \<and> int64_min \<le> SMTP_MaxSize (cfg_SMTP (Load env)) \<and> SMTP_MaxSize (cfg_SMTP (Load env)) \<le> int64_max"
proof -
  have "int64_min \<le> 26214400" "26214400 \<le> int64_max" by (simp_all add: int64_min_def int64_max_def)
  from getEnvInt_range [OF this, of env] show ?thesis using assms by (simp add: Load_def getEnvInt_cases)
qed

lemma Load_numbers_witness:
  "SMTP_MaxSize (cfg_SMTP (Load (\<lambda>k. if k = ''GOMAIL_SMTP_MAX_SIZE'' then fmt_d 1000 else ''x''))) = 1000
   \<and> Redis_DB (cfg_Redis (Load (\<lambda>k. if k = ''GOMAIL_SMTP_MAX_SIZE'' then fmt_d 1000 else ''x''))) = 0"
proof -
  let ?env = "\<lambda>k. if k = ''GOMAIL_SMTP_MAX_SIZE'' then fmt_d 1000 else ''x''"
  have v: "int64_min \<le> 1000" "1000 \<le> int64_max" by (simp_all add: int64_min_def int64_max_def)
  have "Atoi ''x'' = None" by (simp add: Atoi_def)
  then show ?thesis using Load_numbers [OF v, of ?env] by simp
qed

end
