(* ===== verification/Smtp.thy ===== *)
theory Smtp
  imports GoNet Fsm Ports Config
begin

text \<open>
  The SMTP session of \<^verbatim>\<open>internal/smtp\<close>: the envelope (\<^verbatim>\<open>envelope.go\<close>), the state machine and the read
  loop (\<^verbatim>\<open>session.go\<close>) and the command handlers (\<^verbatim>\<open>handler.go\<close>).

  A session is the record \<open>smtp_session\<close>: the connection, the buffered reader, the state machine,
  the envelope and the TLS flag of the Go struct, with the lines written to the client so far, the
  state of the storage behind the delivery port and the number of clock readings made. What the Go
  struct only reads (configuration, TLS configuration, delivery port) and what is outside of the
  repository (\<^verbatim>\<open>FSM.Event\<close>, the TLS handshake, the clock) is the record \<open>smtp_env\<close>. A handler is a
  function from session to session. The handshake takes some read results of the connection off
  and gives, when it succeeds, the reads of the encrypted connection.

  \<open>smtp_loop\<close> is defined by well-founded recursion: a command line shortens the input, and an
  upgrade to TLS, which replaces the input, happens at most once.
\<close>

subsection \<open>The envelope\<close>

record Envelope =
  env_From :: string
  env_To :: "string list"
  env_Data :: bytes
  env_Size :: int
  env_ReceivedAt :: time

definition emptyEnvelope :: Envelope where
  "emptyEnvelope = \<lparr>env_From = [], env_To = [], env_Data = [], env_Size = 0, env_ReceivedAt = 0\<rparr>"

definition AddRecipient :: "string \<Rightarrow> Envelope \<Rightarrow> Envelope" where
  "AddRecipient addr e = e\<lparr>env_To := env_To e @ [addr]\<rparr>"

definition HasRecipients :: "Envelope \<Rightarrow> bool" where
  "HasRecipients e \<longleftrightarrow> length (env_To e) > 0"

definition Envelope_Reset :: "Envelope \<Rightarrow> Envelope" where
  "Envelope_Reset e =
     e\<lparr>env_From := [], env_To := [], env_Data := [], env_Size := 0, env_ReceivedAt := 0\<rparr>"

subsection \<open>The state machine\<close>

datatype smtp_State = StateInit | StateGreeted | StateMailFrom | StateRcptTo | StateData | StateQuit

datatype SMTPEvent = EventEHLO | EventMailFrom | EventRcptTo | EventData | EventDone | EventRset | EventQuit

definition smtp_events :: "(smtp_State, SMTPEvent) EventDesc list" where
  "smtp_events =
     [\<lparr>Name = EventEHLO, Src = [StateInit, StateGreeted], Dst = StateGreeted\<rparr>,
      \<lparr>Name = EventMailFrom, Src = [StateGreeted], Dst = StateMailFrom\<rparr>,
      \<lparr>Name = EventRcptTo, Src = [StateMailFrom], Dst = StateRcptTo\<rparr>,
      \<lparr>Name = EventData, Src = [StateRcptTo], Dst = StateData\<rparr>,
      \<lparr>Name = EventDone, Src = [StateData], Dst = StateGreeted\<rparr>,
      \<lparr>Name = EventRset, Src = [StateGreeted, StateMailFrom, StateRcptTo, StateData], Dst = StateGreeted\<rparr>,
      \<lparr>Name = EventQuit, Src = [StateInit, StateGreeted, StateMailFrom, StateRcptTo, StateData],
       Dst = StateQuit\<rparr>]"

definition newSMTPFSM :: "(smtp_State, SMTPEvent) FSM" where
  "newSMTPFSM = \<lparr>Current = StateInit, Events = smtp_events\<rparr>"

subsection \<open>The session\<close>

record 'w smtp_session =
  conn :: stream
  reader :: bytes
  fsm :: "(smtp_State, SMTPEvent) FSM"
  envelope :: Envelope
  isTLS :: bool
  sent :: "string list"
  store :: 'w
  ticks :: nat

record 'w smtp_env =
  smtp_cfg :: Config
  smtp_tlsCfg :: "string tls_config option"
  smtp_delivery :: "'w DeliveryPipeline"
  smtp_Event :: "(smtp_State, SMTPEvent) fsm_Event"
  smtp_Handshake :: "string tls_config \<Rightarrow> stream \<Rightarrow> nat \<times> stream option"
  smtp_Now :: "nat \<Rightarrow> time"

definition smtp_NewSession :: "stream \<Rightarrow> bool \<Rightarrow> 'w \<Rightarrow> 'w smtp_session" where
  "smtp_NewSession c overTLS w =
     \<lparr>conn = c, reader = [], fsm = newSMTPFSM, envelope = emptyEnvelope, isTLS = overTLS,
      sent = [], store = w, ticks = 0\<rparr>"

definition smtp_write :: "string \<Rightarrow> 'w smtp_session \<Rightarrow> 'w smtp_session" where
  "smtp_write line s = s\<lparr>sent := sent s @ [line @ CRLF]\<rparr>"

definition smtp_currentState :: "'w smtp_session \<Rightarrow> smtp_State" where
  "smtp_currentState s = Current (fsm s)"

definition smtp_transition ::
    "'w smtp_env \<Rightarrow> SMTPEvent \<Rightarrow> 'w smtp_session \<Rightarrow> bool \<times> 'w smtp_session" where
  "smtp_transition E event s =
     (case smtp_Event E (fsm s) event of
        (Some err, f) \<Rightarrow> (False, smtp_write ''503 Bad sequence of commands'' (s\<lparr>fsm := f\<rparr>))
      | (None, f) \<Rightarrow> (True, s\<lparr>fsm := f\<rparr>))"

definition smtp_transitionRcptTo :: "'w smtp_env \<Rightarrow> 'w smtp_session \<Rightarrow> bool \<times> 'w smtp_session" where
  "smtp_transitionRcptTo E s =
     (if smtp_currentState s = StateRcptTo then (True, s) else smtp_transition E EventRcptTo s)"

subsection \<open>The handlers\<close>

definition extractAddress :: "string \<Rightarrow> string \<Rightarrow> string option" where
  "extractAddress args prfx =
     (let upper = ToUpper args
      in if \<not> HasPrefix upper prfx then None
         else
           let rest = TrimSpace (drop (length prfx) args)
           in if HasPrefix rest ''<'' \<and> HasSuffix rest ''>''
              then (let inner = take (length rest - 2) (drop 1 rest)
                    in if inner = [] then None else Some inner)
              else if rest \<noteq> [] then Some rest
              else None)"

definition handleEHLO :: "'w smtp_env \<Rightarrow> string \<Rightarrow> 'w smtp_session \<Rightarrow> 'w smtp_session" where
  "handleEHLO E args s =
     (if args = [] then smtp_write ''501 Syntax: EHLO hostname'' s
      else
        case smtp_transition E EventEHLO s of
          (False, s) \<Rightarrow> s
        | (True, s) \<Rightarrow>
            (let s = s\<lparr>envelope := Envelope_Reset (envelope s)\<rparr>;
                 s = smtp_write (''250-'' @ SMTP_Domain (cfg_SMTP (smtp_cfg E)) @ '' greets '' @ args) s;
                 s = smtp_write (''250-SIZE '' @ fmt_d (SMTP_MaxSize (cfg_SMTP (smtp_cfg E)))) s;
                 s = smtp_write ''250-8BITMIME'' s;
                 s = (if smtp_tlsCfg E \<noteq> None \<and> \<not> isTLS s then smtp_write ''250-STARTTLS'' s else s)
             in smtp_write ''250 ENHANCEDSTATUSCODES'' s))"

definition handleMAIL :: "'w smtp_env \<Rightarrow> string \<Rightarrow> 'w smtp_session \<Rightarrow> 'w smtp_session" where
  "handleMAIL E args s =
     (case extractAddress args ''FROM:'' of
        None \<Rightarrow> smtp_write ''501 Syntax: MAIL FROM:<address>'' s
      | Some addr \<Rightarrow>
          (case smtp_transition E EventMailFrom s of
             (False, s) \<Rightarrow> s
           | (True, s) \<Rightarrow> smtp_write ''250 OK'' (s\<lparr>envelope := (envelope s)\<lparr>env_From := addr\<rparr>\<rparr>)))"

definition handleRCPT :: "'w smtp_env \<Rightarrow> string \<Rightarrow> 'w smtp_session \<Rightarrow> 'w smtp_session" where
  "handleRCPT E args s =
     (case extractAddress args ''TO:'' of
        None \<Rightarrow> smtp_write ''501 Syntax: RCPT TO:<address>'' s
      | Some addr \<Rightarrow>
          if length (env_To (envelope s)) \<ge> 100 then smtp_write ''452 Too many recipients'' s
          else
            (case smtp_transitionRcptTo E s of
               (False, s) \<Rightarrow> s
             | (True, s) \<Rightarrow> smtp_write ''250 OK'' (s\<lparr>envelope := AddRecipient addr (envelope s)\<rparr>)))"

text \<open>
  The loop of \<^verbatim>\<open>handleDATA\<close> over its own reader: the outcome, what that reader still has buffered and
  the reads the connection has left.
\<close>

datatype data_outcome = DataReadError | DataTooBig | DataComplete bytes

function data_loop :: "int \<Rightarrow> bytes \<Rightarrow> stream \<Rightarrow> bytes \<Rightarrow> data_outcome \<times> bytes \<times> stream" where
  "data_loop maxSize buf evs body =
     (case ReadString buf evs of
        (None, buf', evs') \<Rightarrow> (DataReadError, buf', evs')
      | (Some line, buf', evs') \<Rightarrow>
          if line = ''.'' @ CRLF \<or> line = ''.'' @ [LF] then (DataComplete body, buf', evs')
          else
            let line = (if HasPrefix line ''..'' then drop 1 line else line);
                body = body @ line
            in if int (length body) > maxSize then (DataTooBig, buf', evs')
               else data_loop maxSize buf' evs' body)"
  by pat_completeness auto
termination
  by (relation "measure (\<lambda>(m, buf, evs, body). input_size buf evs)")
    (auto intro: ReadString_smaller [OF sym])

declare data_loop.simps [simp del]

definition handleDATA :: "'w smtp_env \<Rightarrow> 'w smtp_session \<Rightarrow> 'w smtp_session" where
  "handleDATA E s =
     (case smtp_transition E EventData s of
        (False, s) \<Rightarrow> s
      | (True, s) \<Rightarrow>
          (let s = smtp_write ''354 Start mail input; end with <CRLF>.<CRLF>'' s
           in case data_loop (SMTP_MaxSize (cfg_SMTP (smtp_cfg E))) [] (conn s) [] of
                (DataReadError, _, evs) \<Rightarrow> s\<lparr>conn := evs\<rparr>
              | (DataTooBig, _, evs) \<Rightarrow>
                  (let s = s\<lparr>conn := evs\<rparr>;
                       s = smtp_write ''552 Message size exceeds maximum permitted'' s;
                       s = s\<lparr>envelope := Envelope_Reset (envelope s)\<rparr>
                   in snd (smtp_transition E EventRset s))
              | (DataComplete body, _, evs) \<Rightarrow>
                  (let s = s\<lparr>conn := evs\<rparr>;
                       e = (envelope s)\<lparr>env_Data := body, env_Size := int (length body),
                              env_ReceivedAt := smtp_Now E (ticks s)\<rparr>;
                       s = s\<lparr>envelope := e, ticks := Suc (ticks s)\<rparr>;
                       event = \<lparr>Received_From = env_From e, Received_To = env_To e,
                                Received_Body = env_Data e, Received_Size = env_Size e,
                                Received_Timestamp = env_ReceivedAt e\<rparr>
                   in case Deliver (smtp_delivery E) event (store s) of
                        (Some err, w) \<Rightarrow>
                          smtp_write ''451 Requested action aborted: error in processing'' (s\<lparr>store := w\<rparr>)
                      | (None, w) \<Rightarrow>
                          smtp_write ''250 OK: message accepted for delivery''
                            (snd (smtp_transition E EventDone (s\<lparr>store := w\<rparr>))))))"

definition handleRSET :: "'w smtp_env \<Rightarrow> 'w smtp_session \<Rightarrow> 'w smtp_session" where
  "handleRSET E s =
     (case smtp_transition E EventRset s of
        (False, s) \<Rightarrow> s
      | (True, s) \<Rightarrow> smtp_write ''250 OK'' (s\<lparr>envelope := Envelope_Reset (envelope s)\<rparr>))"

definition handleQUIT :: "'w smtp_env \<Rightarrow> 'w smtp_session \<Rightarrow> 'w smtp_session" where
  "handleQUIT E s =
     smtp_write (''221 '' @ SMTP_Domain (cfg_SMTP (smtp_cfg E)) @ '' Service closing transmission channel'')
       (snd (smtp_transition E EventQuit s))"

definition smtp_handleSTARTTLS :: "'w smtp_env \<Rightarrow> 'w smtp_session \<Rightarrow> 'w smtp_session" where
  "smtp_handleSTARTTLS E s =
     (if isTLS s then smtp_write ''503 Already using TLS'' s
      else case smtp_tlsCfg E of
        None \<Rightarrow> smtp_write ''454 TLS not available'' s
      | Some tc \<Rightarrow>
          if smtp_currentState s = StateMailFrom \<or> smtp_currentState s = StateRcptTo
          then smtp_write ''503 Bad sequence of commands'' s
          else
            (let s = smtp_write ''220 Ready to start TLS'' s
             in case smtp_Handshake E tc (conn s) of
                  (n, None) \<Rightarrow> s\<lparr>conn := drop n (conn s)\<rparr>
                | (n, Some tlsConn) \<Rightarrow>
                    s\<lparr>conn := tlsConn, reader := [], isTLS := True, fsm := newSMTPFSM,
                      envelope := Envelope_Reset (envelope s)\<rparr>))"

subsection \<open>The read loop\<close>

definition smtp_dispatch :: "'w smtp_env \<Rightarrow> string \<Rightarrow> 'w smtp_session \<Rightarrow> 'w smtp_session \<times> bool" where
  "smtp_dispatch E line s =
     (case Cut SPC line of
        (cmd, args, _) \<Rightarrow>
          (let cmd = ToUpper (TrimSpace cmd)
           in if cmd = ''EHLO'' \<or> cmd = ''HELO'' then (handleEHLO E args s, False)
              else if cmd = ''STARTTLS'' then (smtp_handleSTARTTLS E s, False)
              else if cmd = ''MAIL'' then (handleMAIL E args s, False)
              else if cmd = ''RCPT'' then (handleRCPT E args s, False)
              else if cmd = ''DATA'' then (handleDATA E s, False)
              else if cmd = ''RSET'' then (handleRSET E s, False)
              else if cmd = ''QUIT'' then (handleQUIT E s, True)
              else if cmd = ''NOOP'' then (smtp_write ''250 OK'' s, False)
              else (smtp_write ''500 Command not recognized'' s, False)))"

lemma smtp_write_fields [simp]:
  "conn (smtp_write l s) = conn s" "reader (smtp_write l s) = reader s" "fsm (smtp_write l s) = fsm s"
  "envelope (smtp_write l s) = envelope s" "isTLS (smtp_write l s) = isTLS s"
  "store (smtp_write l s) = store s" "ticks (smtp_write l s) = ticks s"
  "sent (smtp_write l s) = sent s @ [l @ CRLF]"
  by (simp_all add: smtp_write_def)

lemma transition_frame [frame]:
  "smtp_transition E ev s = (b, s') \<Longrightarrow>
     conn s' = conn s \<and> reader s' = reader s \<and> envelope s' = envelope s \<and> isTLS s' = isTLS s
     \<and> store s' = store s \<and> ticks s' = ticks s \<and> (b \<longrightarrow> sent s' = sent s)"
  by (auto simp: smtp_transition_def split: prod.splits option.splits)

lemma transition_snd_frame [simp]:
  "conn (snd (smtp_transition E ev s)) = conn s" "reader (snd (smtp_transition E ev s)) = reader s"
  "envelope (snd (smtp_transition E ev s)) = envelope s" "isTLS (snd (smtp_transition E ev s)) = isTLS s"
  "store (snd (smtp_transition E ev s)) = store s" "ticks (snd (smtp_transition E ev s)) = ticks s"
  using transition_frame [of E ev s] by (metis surj_pair snd_conv)+

lemma transitionRcptTo_frame [frame]:
  "smtp_transitionRcptTo E s = (b, s') \<Longrightarrow>
     conn s' = conn s \<and> reader s' = reader s \<and> envelope s' = envelope s \<and> isTLS s' = isTLS s
     \<and> store s' = store s \<and> ticks s' = ticks s \<and> (b \<longrightarrow> sent s' = sent s)"
  by (auto simp: smtp_transitionRcptTo_def dest: transition_frame split: if_splits)

lemma data_loop_stream:
  "data_loop m buf evs body = (r, buf', evs') \<Longrightarrow> stream_size evs' \<le> stream_size evs"
proof (induction m buf evs body rule: data_loop.induct)
  case (1 m buf evs body)
  obtain r1 buf1 evs1 where rd: "ReadString buf evs = (r1, buf1, evs1)"
    by (metis prod_cases3)
  then have le: "stream_size evs1 \<le> stream_size evs" by (rule ReadString_stream)
  show ?case
  proof (cases r1)
    case None
    with rd le "1.prems" show ?thesis by (simp add: data_loop.simps [of m buf])
  next
    case (Some line)
    with rd le "1.prems" "1.IH" [OF rd [symmetric] Some refl] show ?thesis
      by (auto simp: data_loop.simps [of m buf] Let_def split: if_splits intro: le_trans)
  qed
qed

lemma handleEHLO_frame [frame]:
  "conn (handleEHLO E args s) = conn s" "reader (handleEHLO E args s) = reader s"
  "isTLS (handleEHLO E args s) = isTLS s" "store (handleEHLO E args s) = store s"
  by (auto simp: handleEHLO_def Let_def split: prod.splits bool.splits dest: transition_frame)

lemma handleMAIL_frame [frame]:
  "conn (handleMAIL E args s) = conn s" "reader (handleMAIL E args s) = reader s"
  "isTLS (handleMAIL E args s) = isTLS s" "store (handleMAIL E args s) = store s"
  by (auto simp: handleMAIL_def split: prod.splits bool.splits option.splits dest: transition_frame)

lemma handleRCPT_frame [frame]:
  "conn (handleRCPT E args s) = conn s" "reader (handleRCPT E args s) = reader s"
  "isTLS (handleRCPT E args s) = isTLS s" "store (handleRCPT E args s) = store s"
  by (auto simp: handleRCPT_def split: prod.splits bool.splits option.splits dest: transitionRcptTo_frame)

lemma handleRSET_frame [frame]:
  "conn (handleRSET E s) = conn s" "reader (handleRSET E s) = reader s"
  "isTLS (handleRSET E s) = isTLS s" "store (handleRSET E s) = store s"
  by (auto simp: handleRSET_def split: prod.splits bool.splits dest: transition_frame)

lemma handleQUIT_frame [frame]:
  "conn (handleQUIT E s) = conn s" "reader (handleQUIT E s) = reader s"
  "isTLS (handleQUIT E s) = isTLS s" "store (handleQUIT E s) = store s"
  by (auto simp: handleQUIT_def)

lemma handleDATA_frame [frame]:
  "reader (handleDATA E s) = reader s" "isTLS (handleDATA E s) = isTLS s"
  by (auto simp: handleDATA_def Let_def
      split: prod.splits bool.splits option.splits data_outcome.splits dest: transition_frame)

lemma handleDATA_stream [size_laws]: "stream_size (conn (handleDATA E s)) \<le> stream_size (conn s)"
  by (auto simp: handleDATA_def Let_def
      split: prod.splits bool.splits option.splits data_outcome.splits
      dest!: transition_frame data_loop_stream)

lemma handleSTARTTLS_size [size_laws]:
  "isTLS (smtp_handleSTARTTLS E s) = isTLS s
     \<and> reader (smtp_handleSTARTTLS E s) = reader s
     \<and> stream_size (conn (smtp_handleSTARTTLS E s)) \<le> stream_size (conn s)
   \<or> \<not> isTLS s \<and> isTLS (smtp_handleSTARTTLS E s)"
  by (auto simp: smtp_handleSTARTTLS_def Let_def stream_size_drop split: option.splits prod.splits)

text \<open>A command does not lengthen the input, or it is the one upgrade to TLS.\<close>

lemma smtp_dispatch_size:
  "smtp_dispatch E line s = (s', q) \<Longrightarrow>
     isTLS s' = isTLS s \<and> input_size (reader s') (conn s') \<le> input_size (reader s) (conn s)
     \<or> \<not> isTLS s \<and> isTLS s'"
  using handleSTARTTLS_size [of E s] handleDATA_stream [of E s]
  by (auto simp: smtp_dispatch_def Let_def input_size_def frame split: prod.splits if_splits)

function smtp_loop :: "'w smtp_env \<Rightarrow> 'w smtp_session \<Rightarrow> 'w smtp_session" where
  "smtp_loop E s =
     (case ReadString (reader s) (conn s) of
        (None, buf, evs) \<Rightarrow> s\<lparr>reader := buf, conn := evs\<rparr>
      | (Some raw, buf, evs) \<Rightarrow>
          (let s = s\<lparr>reader := buf, conn := evs\<rparr>;
               line = TrimRight raw CRLF
           in if line = [] then smtp_loop E s
              else (case smtp_dispatch E line s of
                      (s, True) \<Rightarrow> s
                    | (s, False) \<Rightarrow> smtp_loop E s)))"
  by pat_completeness auto
termination
  by (relation "measures [\<lambda>(E, s). if isTLS s then 0 else 1,
                          \<lambda>(E, s). input_size (reader s) (conn s)]")
    (auto dest!: ReadString_smaller [OF sym] smtp_dispatch_size [OF sym])

declare smtp_loop.simps [simp del]

text \<open>One turn of the loop, with whether it is the last, and induction along the turns.\<close>

definition smtp_step :: "'w smtp_env \<Rightarrow> 'w smtp_session \<Rightarrow> 'w smtp_session \<times> bool" where
  "smtp_step E s =
     (case ReadString (reader s) (conn s) of
        (None, buf, evs) \<Rightarrow> (s\<lparr>reader := buf, conn := evs\<rparr>, True)
      | (Some raw, buf, evs) \<Rightarrow>
          (let s = s\<lparr>reader := buf, conn := evs\<rparr>;
               line = TrimRight raw CRLF
           in if line = [] then (s, False) else smtp_dispatch E line s))"

lemma smtp_loop_step: "smtp_loop E s = (case smtp_step E s of (t, True) \<Rightarrow> t | (t, False) \<Rightarrow> smtp_loop E t)"
  by (subst smtp_loop.simps) (auto simp: smtp_step_def Let_def split: prod.split option.split)

lemma smtp_step_smaller:
  "smtp_step E s = (t, False) \<Longrightarrow>
     (t, s) \<in> measures [\<lambda>s. if isTLS s then 0 else 1, \<lambda>s. input_size (reader s) (conn s)]"
  by (auto simp: smtp_step_def Let_def dest!: ReadString_smaller smtp_dispatch_size
      split: prod.splits option.splits if_splits)

lemma smtp_turns_induct [case_names turn]:
  assumes "\<And>s. (\<And>t. smtp_step E s = (t, False) \<Longrightarrow> P t) \<Longrightarrow> P s"
  shows "P s"
  by (rule wf_induct [OF wf_measures, of "[\<lambda>s. if isTLS s then 0 else 1, \<lambda>s. input_size (reader s) (conn s)]"])
    (blast intro: assms smtp_step_smaller)

definition smtp_Handle :: "'w smtp_env \<Rightarrow> 'w smtp_session \<Rightarrow> 'w smtp_session" where
  "smtp_Handle E s =
     smtp_loop E (smtp_write (''220 '' @ SMTP_Domain (cfg_SMTP (smtp_cfg E)) @ '' ESMTP gomail-core ready'') s)"

end
