(* ===== verification/Smtp_Correct.thy ===== *)
theory Smtp_Correct
  imports Smtp
begin

text \<open>
  What the SMTP session of theory \<open>Smtp\<close> guarantees: the address parser, the state machine under
  the documented behaviour of \<^verbatim>\<open>looplab/fsm\<close>, the invariant of the session and what a session does
  to the storage, the transfer of a message body, and the read loop as a sequence of commands.
\<close>

subsection \<open>The address parser\<close>

text \<open>The slices of the Go code are in range.\<close>

lemma extractAddress_in_range:
  "HasPrefix (ToUpper args) prfx \<Longrightarrow> length prfx \<le> length args"
  using HasPrefix_length [of "ToUpper args" prfx] ToUpper_length [of args] by linarith

lemma bracket_length:
  assumes "HasPrefix rest ''<''" "HasSuffix rest ''>''"
  shows "2 \<le> length rest"
proof -
  from assms(1) obtain a where a: "rest = ''<'' @ a" by (rule HasPrefixE)
  from assms(2) obtain b where b: "rest = b @ ''>''" by (rule HasSuffixE)
  from a b show ?thesis by (cases a; cases b) auto
qed

lemma extractAddress_not_empty: "extractAddress args prfx = Some addr \<Longrightarrow> addr \<noteq> []"
  by (auto simp: extractAddress_def Let_def split: if_splits)

lemma extractAddress_brackets:
  assumes "HasPrefix (ToUpper (p @ ''<'' @ addr @ ''>'')) prfx" "length p = length prfx"
  shows "extractAddress (p @ ''<'' @ addr @ ''>'') prfx = (if addr = [] then None else Some addr)"
proof -
  let ?rest = "''<'' @ addr @ ''>''"
  have "TrimSpace ?rest = ?rest"
    by (rule TrimSpace_printable) (simp add: printable_def)
  then show ?thesis
    using assms HasSuffix_append [of "''<'' @ addr" "''>''"] by (simp add: extractAddress_def Let_def)
qed

subsection \<open>The state machine\<close>

fun smtp_next :: "smtp_State \<Rightarrow> SMTPEvent \<Rightarrow> smtp_State option" where
  "smtp_next StateInit EventEHLO = Some StateGreeted"
| "smtp_next StateGreeted EventMailFrom = Some StateMailFrom"
| "smtp_next StateMailFrom EventRcptTo = Some StateRcptTo"
| "smtp_next StateRcptTo EventData = Some StateData"
| "smtp_next StateData EventDone = Some StateGreeted"
| "smtp_next StateMailFrom EventRset = Some StateGreeted"
| "smtp_next StateRcptTo EventRset = Some StateGreeted"
| "smtp_next StateData EventRset = Some StateGreeted"
| "smtp_next StateQuit e = None"
| "smtp_next q EventQuit = Some StateQuit"
| "smtp_next q e = None"

lemma fsm_next_smtp: "Events f = smtp_events \<Longrightarrow> fsm_next f e = smtp_next (Current f) e"
  by (cases "Current f"; cases e) (simp_all add: fsm_next_def fsm_dst_def smtp_events_def)

definition smtp_wf :: "'w smtp_session \<Rightarrow> bool" where
  "smtp_wf s \<longleftrightarrow> Events (fsm s) = smtp_events"

definition goto :: "smtp_State \<Rightarrow> 'w smtp_session \<Rightarrow> 'w smtp_session" where
  "goto q s = s\<lparr>fsm := (fsm s)\<lparr>Current := q\<rparr>\<rparr>"

lemma goto_fields [simp]:
  "conn (goto q s) = conn s" "reader (goto q s) = reader s" "envelope (goto q s) = envelope s"
  "isTLS (goto q s) = isTLS s" "store (goto q s) = store s" "ticks (goto q s) = ticks s"
  "sent (goto q s) = sent s" "smtp_currentState (goto q s) = q" "smtp_wf (goto q s) = smtp_wf s"
  "Current (fsm (goto q s)) = q" "Events (fsm (goto q s)) = Events (fsm s)"
  by (simp_all add: goto_def smtp_currentState_def smtp_wf_def)

lemma state_write [simp]:
  "smtp_currentState (smtp_write l s) = smtp_currentState s" "smtp_wf (smtp_write l s) = smtp_wf s"
  by (simp_all add: smtp_currentState_def smtp_wf_def)

lemma transition_spec:
  assumes "looplab_contract (smtp_Event E)" "smtp_wf s"
  shows "smtp_transition E ev s =
    (case smtp_next (smtp_currentState s) ev of
       None \<Rightarrow> (False, smtp_write ''503 Bad sequence of commands'' s)
     | Some q \<Rightarrow> (True, goto q s))"
proof -
  have nxt: "fsm_next (fsm s) ev = smtp_next (smtp_currentState s) ev"
    using assms(2) by (simp add: smtp_wf_def smtp_currentState_def fsm_next_smtp)
  show ?thesis
  proof (cases "smtp_next (smtp_currentState s) ev")
    case None
    with nxt obtain err where "smtp_Event E (fsm s) ev = (Some err, fsm s)"
      using contract_rejects [OF assms(1)] by metis
    with None show ?thesis by (simp add: smtp_transition_def)
  next
    case (Some q)
    with nxt have "smtp_Event E (fsm s) ev = (None, (fsm s)\<lparr>Current := q\<rparr>)"
      using contract_moves [OF assms(1)] by metis
    with Some show ?thesis by (simp add: smtp_transition_def goto_def)
  qed
qed

subsection \<open>The session invariant\<close>

definition smtp_inv :: "'w smtp_session \<Rightarrow> bool" where
  "smtp_inv s \<longleftrightarrow> smtp_wf s
     \<and> length (env_To (envelope s)) \<le> 100 \<and> (\<forall>a \<in> set (env_To (envelope s)). a \<noteq> [])
     \<and> (smtp_currentState s \<in> {StateMailFrom, StateRcptTo, StateData} \<longrightarrow> env_From (envelope s) \<noteq> [])
     \<and> (smtp_currentState s \<in> {StateRcptTo, StateData} \<longrightarrow> HasRecipients (envelope s))"

lemma smtp_inv_NewSession: "smtp_inv (smtp_NewSession c t w)"
  by (simp add: smtp_inv_def smtp_wf_def smtp_NewSession_def newSMTPFSM_def emptyEnvelope_def
      smtp_currentState_def)

lemma smtp_inv_write [simp]: "smtp_inv (smtp_write l s) = smtp_inv s"
  by (simp add: smtp_inv_def)

lemma smtp_inv_io [simp]:
  "smtp_inv (s\<lparr>reader := b\<rparr>) = smtp_inv s" "smtp_inv (s\<lparr>conn := c\<rparr>) = smtp_inv s"
  "smtp_inv (s\<lparr>store := w\<rparr>) = smtp_inv s"
  by (simp_all add: smtp_inv_def smtp_wf_def smtp_currentState_def)

lemma Reset_fields [simp]:
  "env_From (Envelope_Reset e) = []" "env_To (Envelope_Reset e) = []" "env_Data (Envelope_Reset e) = []"
  "env_Size (Envelope_Reset e) = 0" "env_ReceivedAt (Envelope_Reset e) = 0"
  by (simp_all add: Envelope_Reset_def)

lemma Reset_eq_empty [simp]: "Envelope_Reset e = emptyEnvelope"
  by (simp add: Envelope_Reset_def emptyEnvelope_def)

lemmas smtp_state_simps = smtp_inv_def smtp_wf_def smtp_currentState_def HasRecipients_def

lemma handleEHLO_inv:
  assumes "looplab_contract (smtp_Event E)" "smtp_inv s"
  shows "smtp_inv (handleEHLO E args s)"
proof -
  have "smtp_wf s" using assms(2) by (simp add: smtp_inv_def)
  then show ?thesis
    using assms(2) transition_spec [OF assms(1)]
    by (cases "smtp_currentState s")
      (auto simp: handleEHLO_def Let_def smtp_state_simps goto_def emptyEnvelope_def)
qed

lemma handleMAIL_inv:
  assumes "looplab_contract (smtp_Event E)" "smtp_inv s"
  shows "smtp_inv (handleMAIL E args s)"
proof (cases "extractAddress args ''FROM:''")
  case None
  with assms show ?thesis by (simp add: handleMAIL_def)
next
  case (Some addr)
  then have "addr \<noteq> []" by (rule extractAddress_not_empty)
  moreover have "smtp_wf s" using assms(2) by (simp add: smtp_inv_def)
  ultimately show ?thesis
    using Some assms(2) transition_spec [OF assms(1)]
    by (cases "smtp_currentState s")
      (auto simp: handleMAIL_def smtp_state_simps goto_def)
qed

lemma handleRCPT_inv:
  assumes "looplab_contract (smtp_Event E)" "smtp_inv s"
  shows "smtp_inv (handleRCPT E args s)"
proof (cases "extractAddress args ''TO:''")
  case None
  with assms show ?thesis by (simp add: handleRCPT_def)
next
  case (Some addr)
  then have "addr \<noteq> []" by (rule extractAddress_not_empty)
  moreover have "smtp_wf s" using assms(2) by (simp add: smtp_inv_def)
  ultimately show ?thesis
    using Some assms(2) transition_spec [OF assms(1)]
    by (cases "smtp_currentState s")
      (auto simp: handleRCPT_def smtp_transitionRcptTo_def AddRecipient_def smtp_state_simps goto_def)
qed

lemma handleRSET_inv:
  assumes "looplab_contract (smtp_Event E)" "smtp_inv s"
  shows "smtp_inv (handleRSET E s)"
proof -
  have "smtp_wf s" using assms(2) by (simp add: smtp_inv_def)
  then show ?thesis
    using assms(2) transition_spec [OF assms(1)]
    by (cases "smtp_currentState s")
      (auto simp: handleRSET_def smtp_state_simps goto_def emptyEnvelope_def)
qed

lemma handleQUIT_inv:
  assumes "looplab_contract (smtp_Event E)" "smtp_inv s"
  shows "smtp_inv (handleQUIT E s)"
proof -
  have "smtp_wf s" using assms(2) by (simp add: smtp_inv_def)
  then show ?thesis
    using assms(2) transition_spec [OF assms(1)]
    by (cases "smtp_currentState s") (auto simp: handleQUIT_def smtp_state_simps goto_def)
qed

lemma handleSTARTTLS_inv: "smtp_inv s \<Longrightarrow> smtp_inv (smtp_handleSTARTTLS E s)"
  by (auto simp: smtp_handleSTARTTLS_def Let_def split: option.splits prod.splits)
    (auto simp: smtp_state_simps newSMTPFSM_def emptyEnvelope_def)

subsection \<open>DATA, branch by branch\<close>

abbreviation maxSize :: "'w smtp_env \<Rightarrow> int" where
  "maxSize E \<equiv> SMTP_MaxSize (cfg_SMTP (smtp_cfg E))"

definition data_event :: "'w smtp_env \<Rightarrow> 'w smtp_session \<Rightarrow> bytes \<Rightarrow> MessageReceived" where
  "data_event E s body =
     \<lparr>Received_From = env_From (envelope s), Received_To = env_To (envelope s), Received_Body = body,
      Received_Size = int (length body), Received_Timestamp = smtp_Now E (ticks s)\<rparr>"

definition with_body :: "'w smtp_env \<Rightarrow> bytes \<Rightarrow> 'w smtp_session \<Rightarrow> 'w smtp_session" where
  "with_body E body s =
     s\<lparr>envelope := (envelope s)\<lparr>env_Data := body, env_Size := int (length body),
         env_ReceivedAt := smtp_Now E (ticks s)\<rparr>, ticks := Suc (ticks s)\<rparr>"

lemma handleDATA_bad_state:
  assumes "looplab_contract (smtp_Event E)" "smtp_wf s" "smtp_currentState s \<noteq> StateRcptTo"
  shows "handleDATA E s = smtp_write ''503 Bad sequence of commands'' s"
  using assms(3) transition_spec [OF assms(1,2)]
  by (cases "smtp_currentState s") (simp_all add: handleDATA_def)

definition data_started :: "'w smtp_session \<Rightarrow> 'w smtp_session" where
  "data_started s = smtp_write ''354 Start mail input; end with <CRLF>.<CRLF>'' (goto StateData s)"

lemma data_started_fields [simp]:
  "conn (data_started s) = conn s" "reader (data_started s) = reader s" "store (data_started s) = store s"
  "envelope (data_started s) = envelope s" "isTLS (data_started s) = isTLS s"
  "ticks (data_started s) = ticks s" "smtp_currentState (data_started s) = StateData"
  "smtp_wf (data_started s) = smtp_wf s" "Events (fsm (data_started s)) = Events (fsm s)"
  "Current (fsm (data_started s)) = StateData"
  by (simp_all add: data_started_def)

lemma handleDATA_read_error:
  assumes "looplab_contract (smtp_Event E)" "smtp_wf s" "smtp_currentState s = StateRcptTo"
    and "data_loop (maxSize E) [] (conn s) [] = (DataReadError, b, evs)"
  shows "handleDATA E s = (data_started s)\<lparr>conn := evs\<rparr>"
  using assms(3,4) transition_spec [OF assms(1,2)]
  by (simp add: handleDATA_def data_started_def)

lemma handleDATA_too_big:
  assumes "looplab_contract (smtp_Event E)" "smtp_wf s" "smtp_currentState s = StateRcptTo"
    and "data_loop (maxSize E) [] (conn s) [] = (DataTooBig, b, evs)"
  shows "handleDATA E s =
    goto StateGreeted ((smtp_write ''552 Message size exceeds maximum permitted''
      ((data_started s)\<lparr>conn := evs\<rparr>))\<lparr>envelope := emptyEnvelope\<rparr>)"
proof -
  let ?t = "(smtp_write ''552 Message size exceeds maximum permitted''
      ((data_started s)\<lparr>conn := evs\<rparr>))\<lparr>envelope := emptyEnvelope\<rparr>"
  have "smtp_wf ?t" and "smtp_currentState ?t = StateData"
    using assms(2) by (simp_all add: smtp_wf_def smtp_currentState_def)
  then have "smtp_transition E EventRset ?t = (True, goto StateGreeted ?t)"
    using transition_spec [OF assms(1)] by simp
  then show ?thesis
    using assms(3,4) transition_spec [OF assms(1,2)]
    by (simp add: handleDATA_def data_started_def)
qed

lemma handleDATA_complete:
  assumes "looplab_contract (smtp_Event E)" "smtp_wf s" "smtp_currentState s = StateRcptTo"
    and "data_loop (maxSize E) [] (conn s) [] = (DataComplete body, b, evs)"
    and "Deliver (smtp_delivery E) (data_event E s body) (store s) = (err, w)"
  shows "handleDATA E s =
    (let t = (with_body E body ((data_started s)\<lparr>conn := evs\<rparr>))\<lparr>store := w\<rparr>
     in case err of
          Some _ \<Rightarrow> smtp_write ''451 Requested action aborted: error in processing'' t
        | None \<Rightarrow> smtp_write ''250 OK: message accepted for delivery'' (goto StateGreeted t))"
proof -
  let ?t = "(with_body E body ((data_started s)\<lparr>conn := evs\<rparr>))\<lparr>store := w\<rparr>"
  have "smtp_wf ?t" and "smtp_currentState ?t = StateData"
    using assms(2) by (simp_all add: smtp_wf_def smtp_currentState_def with_body_def)
  then have done_step: "smtp_transition E EventDone ?t = (True, goto StateGreeted ?t)"
    using transition_spec [OF assms(1)] by simp
  show ?thesis
  proof (cases err)
    case None
    then show ?thesis
      using assms(3,4,5) transition_spec [OF assms(1,2)] done_step
      by (simp add: handleDATA_def data_started_def with_body_def data_event_def)
  next
    case (Some e)
    then show ?thesis
      using assms(3,4,5) transition_spec [OF assms(1,2)]
      by (simp add: handleDATA_def data_started_def with_body_def data_event_def)
  qed
qed

subsection \<open>What DATA and a whole session do to the storage\<close>

definition smtp_event_ok :: "'w smtp_env \<Rightarrow> MessageReceived \<Rightarrow> bool" where
  "smtp_event_ok E e \<longleftrightarrow> event_ok e \<and> Received_Size e \<le> max 0 (maxSize E)"

lemma data_loop_bound:
  "data_loop m buf evs body = (DataComplete b, buf', evs') \<Longrightarrow>
     int (length b) \<le> max (int (length body)) m"
proof (induction m buf evs body rule: data_loop.induct)
  case (1 m buf evs body)
  obtain r1 buf1 evs1 where rd: "ReadString buf evs = (r1, buf1, evs1)"
    by (metis prod_cases3)
  show ?case
  proof (cases r1)
    case None
    with rd "1.prems" show ?thesis by (simp add: data_loop.simps [of m buf])
  next
    case (Some line)
    with rd "1.prems" "1.IH" [OF rd [symmetric] Some refl] show ?thesis
      by (fastforce simp: data_loop.simps [of m buf] Let_def split: if_splits)
  qed
qed

lemma data_event_ok:
  assumes "smtp_inv s" "smtp_currentState s = StateRcptTo"
    and "data_loop (maxSize E) [] (conn s) [] = (DataComplete body, b, evs)"
  shows "smtp_event_ok E (data_event E s body)"
  using assms(1,2) data_loop_bound [OF assms(3)]
  by (auto simp: smtp_event_ok_def event_ok_def data_event_def smtp_inv_def HasRecipients_def)

definition delivers :: "'w smtp_env \<Rightarrow> 'w smtp_session \<Rightarrow> 'w smtp_session \<Rightarrow> bool" where
  "delivers E s s' \<longleftrightarrow>
     (\<exists>evs. list_all (smtp_event_ok E) evs \<and> store s' = deliver_all (smtp_delivery E) evs (store s))"

lemma delivers_same: "store s' = store s \<Longrightarrow> delivers E s s'"
  unfolding delivers_def by (rule exI [of _ "[]"]) simp

lemma delivers_trans: "delivers E s t \<Longrightarrow> delivers E t u \<Longrightarrow> delivers E s u"
  unfolding delivers_def by (metis deliver_all_append list_all_append)

lemma handleDATA_inv_delivers:
  assumes fsm: "looplab_contract (smtp_Event E)" and inv: "smtp_inv s"
  shows "smtp_inv (handleDATA E s) \<and> delivers E s (handleDATA E s)"
proof -
  have wf: "smtp_wf s" using inv by (simp add: smtp_inv_def)
  show ?thesis
  proof (cases "smtp_currentState s = StateRcptTo")
    case False
    then show ?thesis
      using handleDATA_bad_state [OF fsm wf] inv by (simp add: delivers_same)
  next
    case st: True
    obtain r b evs where loop: "data_loop (maxSize E) [] (conn s) [] = (r, b, evs)"
      by (metis prod_cases3)
    show ?thesis
    proof (cases r)
      case DataReadError
      with loop have "handleDATA E s = (data_started s)\<lparr>conn := evs\<rparr>"
        using handleDATA_read_error [OF fsm wf st] by simp
      then show ?thesis using inv st by (auto simp: delivers_same smtp_state_simps)
    next
      case DataTooBig
      with loop show ?thesis
        using handleDATA_too_big [OF fsm wf st, of b evs] inv
        by (auto simp: delivers_same smtp_state_simps emptyEnvelope_def)
    next
      case (DataComplete body)
      obtain err w where dl: "Deliver (smtp_delivery E) (data_event E s body) (store s) = (err, w)"
        by fastforce
      have hd: "handleDATA E s =
          (let t = (with_body E body ((data_started s)\<lparr>conn := evs\<rparr>))\<lparr>store := w\<rparr>
           in case err of
                Some _ \<Rightarrow> smtp_write ''451 Requested action aborted: error in processing'' t
              | None \<Rightarrow> smtp_write ''250 OK: message accepted for delivery'' (goto StateGreeted t))"
        using handleDATA_complete [OF fsm wf st, of body b evs] loop DataComplete dl by simp
      have ok: "smtp_event_ok E (data_event E s body)"
        using data_event_ok [OF inv st] loop DataComplete by simp
      have "store (handleDATA E s) = w"
        using hd by (simp add: Let_def with_body_def split: option.splits)
      then have "delivers E s (handleDATA E s)"
        unfolding delivers_def using ok dl
        by (intro exI [of _ "[data_event E s body]"]) simp
      moreover have "smtp_inv (handleDATA E s)"
        using hd inv st
        by (auto simp: Let_def with_body_def smtp_state_simps split: option.splits)
      ultimately show ?thesis by simp
    qed
  qed
qed

lemma handleSTARTTLS_store [frame]: "store (smtp_handleSTARTTLS E s) = store s"
  by (auto simp: smtp_handleSTARTTLS_def Let_def split: option.splits prod.splits)

lemma smtp_dispatch_inv_delivers:
  assumes "looplab_contract (smtp_Event E)" "smtp_inv s" "smtp_dispatch E line s = (s', q)"
  shows "smtp_inv s' \<and> delivers E s s'"
proof -
  note handlers = handleEHLO_inv [OF assms(1,2)] handleMAIL_inv [OF assms(1,2)]
    handleRCPT_inv [OF assms(1,2)] handleRSET_inv [OF assms(1,2)] handleQUIT_inv [OF assms(1,2)]
    handleSTARTTLS_inv [OF assms(2)] handleDATA_inv_delivers [OF assms(1,2)]
  show ?thesis
    using assms(2,3) handlers
    by (auto simp: smtp_dispatch_def Let_def frame delivers_same split: prod.splits if_splits)
qed

text \<open>
  The rule for the read loop: what every command keeps, and what reading keeps, holds when the
  loop returns.
\<close>

lemma smtp_loop_rule:
  assumes "P s"
    and step: "\<And>s line s' q. P s \<Longrightarrow> smtp_dispatch E line s = (s', q) \<Longrightarrow> P s'"
    and io: "\<And>s b c. P s \<Longrightarrow> P (s\<lparr>reader := b, conn := c\<rparr>)"
  shows "P (smtp_loop E s)"
  using assms(1)
proof (induction s rule: smtp_turns_induct [of E])
  case (turn s)
  obtain t stop where st: "smtp_step E s = (t, stop)" by fastforce
  have "P t"
    using st turn.prems by (auto simp: smtp_step_def Let_def intro: io step [OF io] split: prod.splits option.splits if_splits)
  then show ?case using turn.IH st by (cases stop) (simp_all add: smtp_loop_step [of E s])
qed

lemma smtp_loop_inv_delivers:
  assumes "looplab_contract (smtp_Event E)" "smtp_inv s"
  shows "smtp_inv (smtp_loop E s) \<and> delivers E s (smtp_loop E s)"
proof (rule smtp_loop_rule [where P = "\<lambda>t. smtp_inv t \<and> delivers E s t"])
  show "smtp_inv s \<and> delivers E s s" using assms(2) by (simp add: delivers_same)
next
  fix t line t' q
  assume "smtp_inv t \<and> delivers E s t" "smtp_dispatch E line t = (t', q)"
  then show "smtp_inv t' \<and> delivers E s t'"
    using smtp_dispatch_inv_delivers [OF assms(1)] delivers_trans by blast
next
  fix t b c
  assume "smtp_inv t \<and> delivers E s t"
  then show "smtp_inv (t\<lparr>reader := b, conn := c\<rparr>) \<and> delivers E s (t\<lparr>reader := b, conn := c\<rparr>)"
    by (simp add: delivers_def)
qed

subsection \<open>Every command is answered\<close>

definition extends :: "'w smtp_session \<Rightarrow> 'w smtp_session \<Rightarrow> bool" where
  "extends s t \<longleftrightarrow> prefix (sent s) (sent t)"

definition answered :: "'w smtp_session \<Rightarrow> 'w smtp_session \<Rightarrow> bool" where
  "answered s t \<longleftrightarrow> strict_prefix (sent s) (sent t)"

lemma extends_refl [simp]: "extends s s"
  by (simp add: extends_def)

lemma extends_trans: "extends s t \<Longrightarrow> extends t u \<Longrightarrow> extends s u"
  by (simp add: extends_def)

lemma answered_extends: "answered s t \<Longrightarrow> extends t u \<Longrightarrow> answered s u"
  by (simp add: answered_def extends_def prefix_order.less_le_trans)

lemma answered_write [simp, intro]: "extends s t \<Longrightarrow> answered s (smtp_write l t)"
  by (auto simp: answered_def extends_def prefix_def strict_prefix_def)

lemma extends_write [simp, intro]: "extends s t \<Longrightarrow> extends s (smtp_write l t)"
  by (auto simp: extends_def)

lemma extends_fields [simp]:
  "extends s (t\<lparr>conn := c\<rparr>) = extends s t" "extends s (t\<lparr>store := w\<rparr>) = extends s t"
  "extends s (t\<lparr>envelope := e\<rparr>) = extends s t" "extends s (t\<lparr>fsm := f\<rparr>) = extends s t"
  "extends s (t\<lparr>ticks := n\<rparr>) = extends s t"
  "extends s (t\<lparr>reader := b\<rparr>) = extends s t"
  by (simp_all add: extends_def)

lemma transition_answers:
  "smtp_transition E ev s = (b, t) \<Longrightarrow> extends s t \<and> (\<not> b \<longrightarrow> answered s t)"
  by (auto simp: smtp_transition_def split: prod.splits option.splits)

lemma extends_transition [simp, intro]: "extends s t \<Longrightarrow> extends s (snd (smtp_transition E ev t))"
  by (metis extends_trans transition_answers prod.collapse)

lemma transitionRcptTo_answers:
  "smtp_transitionRcptTo E s = (b, t) \<Longrightarrow> extends s t \<and> (\<not> b \<longrightarrow> answered s t)"
  using transition_answers [of E EventRcptTo s] by (auto simp: smtp_transitionRcptTo_def split: if_splits)

lemma handleDATA_answered: "answered s (handleDATA E s)"
proof (cases "smtp_transition E EventData s")
  case (Pair b t)
  note t = transition_answers [OF Pair]
  let ?u = "smtp_write ''354 Start mail input; end with <CRLF>.<CRLF>'' t"
  show ?thesis
  proof (cases b)
    case False
    with Pair t show ?thesis by (simp add: handleDATA_def)
  next
    case True
    have "extends ?u (handleDATA E s)"
      using Pair True
      by (auto simp: handleDATA_def Let_def split: prod.splits data_outcome.splits option.splits)
    moreover have "answered s ?u" using t by auto
    ultimately show ?thesis by (blast intro: answered_extends)
  qed
qed

lemma handlers_answered:
  "answered s (handleEHLO E args s)" "answered s (handleMAIL E args s)" "answered s (handleRCPT E args s)"
  "answered s (handleRSET E s)" "answered s (handleQUIT E s)"
  using transition_answers [of E _ s] transitionRcptTo_answers [of E s]
  by (auto simp: handleEHLO_def handleMAIL_def handleRCPT_def handleRSET_def handleQUIT_def Let_def
      split: prod.splits bool.splits option.splits)

lemma handleSTARTTLS_answered: "answered s (smtp_handleSTARTTLS E s)"
  by (auto simp: smtp_handleSTARTTLS_def Let_def answered_def strict_prefix_def
      split: option.splits prod.splits)

lemma smtp_dispatch_answered: "smtp_dispatch E line s = (s', q) \<Longrightarrow> answered s s'"
  using handlers_answered [of s E] handleDATA_answered [of s E] handleSTARTTLS_answered [of s E]
  by (auto simp: smtp_dispatch_def Let_def split: prod.splits if_splits)

subsection \<open>The transfer of a message body\<close>

text \<open>What a client does to send a message (RFC 5321, section 4.5.2), line by line.\<close>

definition is_line :: "bytes \<Rightarrow> bool" where
  "is_line l \<longleftrightarrow> (\<exists>m. l = m @ [LF] \<and> LF \<notin> set m)"

definition dot_stuff :: "bytes \<Rightarrow> bytes" where
  "dot_stuff l = (if HasPrefix l ''.'' then CHR ''.'' # l else l)"

definition wire_data :: "bytes list \<Rightarrow> bytes" where
  "wire_data ls = concat (map dot_stuff ls) @ ''.'' @ CRLF"

lemma is_line_dot_stuff: "is_line l \<Longrightarrow> is_line (dot_stuff l)"
proof -
  assume "is_line l"
  then obtain m where m: "l = m @ [LF]" "LF \<notin> set m" by (auto simp: is_line_def)
  then have "dot_stuff l = (if HasPrefix l ''.'' then CHR ''.'' # m else m) @ [LF]"
    by (simp add: dot_stuff_def)
  moreover have "LF \<notin> set (if HasPrefix l ''.'' then CHR ''.'' # m else m)"
    using m(2) by simp
  ultimately show ?thesis unfolding is_line_def by blast
qed

lemma is_line_cut: "is_line l \<Longrightarrow> cut_line (l @ rest) = Some (l, rest)"
  by (auto simp: is_line_def cut_line_Some_iff)

lemma dot_stuff_not_end: "is_line l \<Longrightarrow> dot_stuff l \<noteq> ''.'' @ CRLF \<and> dot_stuff l \<noteq> ''.'' @ [LF]"
proof -
  assume "is_line l"
  then have "l \<noteq> [] \<and> hd l = CHR ''.'' \<longrightarrow> hd (dot_stuff l) = CHR ''.'' \<and> hd (tl (dot_stuff l)) = CHR ''.''"
    and "l \<noteq> [] \<and> hd l \<noteq> CHR ''.'' \<longrightarrow> hd (dot_stuff l) \<noteq> CHR ''.''"
    by (cases l; simp add: dot_stuff_def)+
  moreover have "l \<noteq> []" using \<open>is_line l\<close> by (auto simp: is_line_def)
  ultimately show ?thesis by (cases "hd l = CHR ''.''") (auto simp: CRLF_def)
qed

lemma unstuff_stuff: "(if HasPrefix (dot_stuff l) ''..'' then drop 1 (dot_stuff l) else dot_stuff l) = l"
  by (cases l) (simp_all add: dot_stuff_def)

lemma data_loop_wire:
  assumes "list_all is_line ls" "int (length body + length (concat ls)) \<le> m"
    and "buf @ concat cs = wire_data ls @ rest"
  shows "\<exists>buf' cs'. data_loop m buf (map Chunk cs @ evs) body
           = (DataComplete (body @ concat ls), buf', map Chunk cs' @ evs) \<and> buf' @ concat cs' = rest"
  using assms
proof (induction ls arbitrary: body buf cs)
  case Nil
  have "cut_line (buf @ concat cs) = Some (''.'' @ CRLF, rest)"
    using Nil.prems(3) by (simp add: wire_data_def CRLF_def)
  then obtain buf' cs' where "ReadString buf (map Chunk cs @ evs) = (Some (''.'' @ CRLF), buf', map Chunk cs' @ evs)"
    and "buf' @ concat cs' = rest"
    using ReadString_chunks by blast
  then show ?case by (auto simp: data_loop.simps [of m buf])
next
  case (Cons l ls)
  from Cons.prems(1) have l: "is_line l" and ls: "list_all is_line ls" by simp_all
  have "cut_line (buf @ concat cs) = Some (dot_stuff l, wire_data ls @ rest)"
    using Cons.prems(3) is_line_cut [OF is_line_dot_stuff [OF l]] by (simp add: wire_data_def)
  then obtain buf1 cs1 where
    rd: "ReadString buf (map Chunk cs @ evs) = (Some (dot_stuff l), buf1, map Chunk cs1 @ evs)"
    and rest1: "buf1 @ concat cs1 = wire_data ls @ rest"
    using ReadString_chunks by blast
  have fits: "int (length (body @ l) + length (concat ls)) \<le> m"
    using Cons.prems(2) by simp
  have "data_loop m buf (map Chunk cs @ evs) body = data_loop m buf1 (map Chunk cs1 @ evs) (body @ l)"
    using rd dot_stuff_not_end [OF l] unstuff_stuff [of l] fits
    by (simp add: data_loop.simps [of m buf] del: append_Cons)
  with Cons.IH [OF ls fits rest1] show ?case by simp
qed

lemma data_loop_too_big:
  assumes "list_all is_line ls" "int (length body) \<le> m" "m < int (length body + length (concat ls))"
    and "buf @ concat cs = concat (map dot_stuff ls) @ rest"
  shows "\<exists>buf' evs'. data_loop m buf (map Chunk cs @ evs) body = (DataTooBig, buf', evs')"
  using assms
proof (induction ls arbitrary: body buf cs)
  case Nil
  then show ?case by simp
next
  case (Cons l ls)
  from Cons.prems(1) have l: "is_line l" and ls: "list_all is_line ls" by simp_all
  have "cut_line (buf @ concat cs) = Some (dot_stuff l, concat (map dot_stuff ls) @ rest)"
    using Cons.prems(4) is_line_cut [OF is_line_dot_stuff [OF l]] by simp
  then obtain buf1 cs1 where
    rd: "ReadString buf (map Chunk cs @ evs) = (Some (dot_stuff l), buf1, map Chunk cs1 @ evs)"
    and rest1: "buf1 @ concat cs1 = concat (map dot_stuff ls) @ rest"
    using ReadString_chunks by blast
  have step: "data_loop m buf (map Chunk cs @ evs) body =
      (if int (length (body @ l)) > m then (DataTooBig, buf1, map Chunk cs1 @ evs)
       else data_loop m buf1 (map Chunk cs1 @ evs) (body @ l))"
    using rd dot_stuff_not_end [OF l] unstuff_stuff [of l]
    by (simp add: data_loop.simps [of m buf] del: append_Cons)
  show ?case
  proof (cases "int (length (body @ l)) > m")
    case True
    with step show ?thesis by simp
  next
    case False
    then have "int (length (body @ l)) \<le> m" by simp
    moreover have "m < int (length (body @ l) + length (concat ls))" using Cons.prems(3) by simp
    ultimately show ?thesis using Cons.IH [OF ls _ _ rest1] False step by simp
  qed
qed

subsection \<open>The order of commands\<close>

text \<open>
  The steps from state to state that a command may make: the transaction of RFC 5321, RSET out of a
  transaction, QUIT out of every state, and STARTTLS back to the beginning.
\<close>

fun smtp_edge :: "smtp_State \<Rightarrow> smtp_State \<Rightarrow> bool" where
  "smtp_edge StateInit q = (q \<in> {StateInit, StateGreeted, StateQuit})"
| "smtp_edge StateGreeted q = (q \<in> {StateInit, StateGreeted, StateMailFrom, StateQuit})"
| "smtp_edge StateMailFrom q = (q \<in> {StateGreeted, StateMailFrom, StateRcptTo, StateQuit})"
| "smtp_edge StateRcptTo q = (q \<in> {StateGreeted, StateRcptTo, StateData, StateQuit})"
| "smtp_edge StateData q = (q \<in> {StateInit, StateGreeted, StateData, StateQuit})"
| "smtp_edge StateQuit q = (q \<in> {StateInit, StateQuit})"

lemma smtp_edge_refl: "smtp_edge q q"
  by (cases q) simp_all

lemma handlers_edge:
  assumes "looplab_contract (smtp_Event E)" "smtp_wf s"
  shows "smtp_edge (smtp_currentState s) (smtp_currentState (handleEHLO E args s))"
    "smtp_edge (smtp_currentState s) (smtp_currentState (handleMAIL E args s))"
    "smtp_edge (smtp_currentState s) (smtp_currentState (handleRCPT E args s))"
    "smtp_edge (smtp_currentState s) (smtp_currentState (handleRSET E s))"
    "smtp_edge (smtp_currentState s) (smtp_currentState (handleQUIT E s))"
proof -
  have upd: "smtp_currentState (t\<lparr>envelope := e\<rparr>) = smtp_currentState t" for t :: "'a smtp_session" and e
    by (simp add: smtp_currentState_def)
  note t = transition_spec [OF assms]
  show "smtp_edge (smtp_currentState s) (smtp_currentState (handleEHLO E args s))"
    using t by (cases "smtp_currentState s") (simp_all add: handleEHLO_def Let_def upd)
  show "smtp_edge (smtp_currentState s) (smtp_currentState (handleMAIL E args s))"
    using t by (cases "smtp_currentState s"; cases "extractAddress args ''FROM:''")
      (simp_all add: handleMAIL_def upd)
  show "smtp_edge (smtp_currentState s) (smtp_currentState (handleRCPT E args s))"
    using t by (cases "smtp_currentState s"; cases "extractAddress args ''TO:''")
      (simp_all add: handleRCPT_def smtp_transitionRcptTo_def upd)
  show "smtp_edge (smtp_currentState s) (smtp_currentState (handleRSET E s))"
    using t by (cases "smtp_currentState s") (simp_all add: handleRSET_def upd)
  show "smtp_edge (smtp_currentState s) (smtp_currentState (handleQUIT E s))"
    using t by (cases "smtp_currentState s") (simp_all add: handleQUIT_def)
qed

lemma handleDATA_edge:
  assumes "looplab_contract (smtp_Event E)" "smtp_wf s"
  shows "smtp_edge (smtp_currentState s) (smtp_currentState (handleDATA E s))"
proof (cases "smtp_currentState s = StateRcptTo")
  case False
  then show ?thesis using handleDATA_bad_state [OF assms] by (simp add: smtp_edge_refl)
next
  case True
  have upd: "smtp_currentState (t\<lparr>conn := x\<rparr>) = smtp_currentState t" "smtp_currentState (t\<lparr>store := y\<rparr>) = smtp_currentState t"
    for t :: "'a smtp_session" and x y
    by (simp_all add: smtp_currentState_def)
  have body: "smtp_currentState (with_body E b t) = smtp_currentState t" for t b
    by (simp add: with_body_def smtp_currentState_def)
  obtain r b evs where loop: "data_loop (maxSize E) [] (conn s) [] = (r, b, evs)" by (metis prod_cases3)
  show ?thesis
  proof (cases r)
    case DataReadError
    then show ?thesis using handleDATA_read_error [OF assms True] loop True by (simp add: upd)
  next
    case DataTooBig
    then show ?thesis using handleDATA_too_big [OF assms True] loop True by simp
  next
    case (DataComplete m)
    obtain err w where "Deliver (smtp_delivery E) (data_event E s m) (store s) = (err, w)" by fastforce
    then show ?thesis
      using handleDATA_complete [OF assms True] DataComplete loop True
      by (simp add: Let_def upd body split: option.split)
  qed
qed

lemma handleSTARTTLS_edge:
  "smtp_edge (smtp_currentState s) (smtp_currentState (smtp_handleSTARTTLS E s))"
proof -
  have upd: "smtp_currentState (t\<lparr>conn := x\<rparr>) = smtp_currentState t" for t :: "'a smtp_session" and x
    by (simp add: smtp_currentState_def)
  show ?thesis
    by (cases "smtp_currentState s")
      (auto simp: smtp_handleSTARTTLS_def Let_def upd smtp_edge_refl split: option.split prod.split,
       auto simp: smtp_currentState_def newSMTPFSM_def)
qed

lemma smtp_dispatch_edge:
  assumes "looplab_contract (smtp_Event E)" "smtp_wf s"
  shows "smtp_edge (smtp_currentState s) (smtp_currentState (fst (smtp_dispatch E line s)))"
  using handlers_edge [OF assms] handleDATA_edge [OF assms] handleSTARTTLS_edge [of s E]
  by (auto simp: smtp_dispatch_def Let_def smtp_edge_refl split: prod.split)

end
