(* ===== verification/Smtp_Properties.thy ===== *)
theory Smtp_Properties
  imports Smtp_Correct
begin

text \<open>
  The properties of the SMTP server, each with a run of the model where its hypotheses hold. The
  runs use \<open>demo_smtp\<close>: the default configuration, a delivery port that collects the events, and the
  state machine that behaves as documented.
\<close>

definition demo_smtp :: "MessageReceived list smtp_env" where
  "demo_smtp =
     \<lparr>smtp_cfg = Load (\<lambda>_. []),
      smtp_tlsCfg = Some \<lparr>Certificates = [''certificate''], MinVersion = VersionTLS12, CipherSuites = []\<rparr>,
      smtp_delivery = \<lparr>Deliver = (\<lambda>e w. (None, w @ [e]))\<rparr>,
      smtp_Event = table_event,
      smtp_Handshake = (\<lambda>tc c. (0, Some [Chunk (''EHLO x'' @ CRLF)])),
      smtp_Now = (\<lambda>n. int n)\<rparr>"

lemma demo_smtp_contract [simp]: "looplab_contract (smtp_Event demo_smtp)"
  by (simp add: demo_smtp_def table_event_contract)

text \<open>A session in some state, with an envelope and a connection.\<close>

definition demo_session :: "smtp_State \<Rightarrow> string \<Rightarrow> string list \<Rightarrow> stream \<Rightarrow> MessageReceived list smtp_session" where
  "demo_session q sender rcpts c =
     (smtp_NewSession c False [])\<lparr>fsm := \<lparr>Current = q, Events = smtp_events\<rparr>,
        envelope := emptyEnvelope\<lparr>env_From := sender, env_To := rcpts\<rparr>\<rparr>"

lemma demo_session_inv [simp]:
  "smtp_inv (demo_session StateRcptTo ''a@b'' [''c@d''] c)" "smtp_inv (demo_session StateGreeted [] [] c)"
  by (simp_all add: smtp_state_simps demo_session_def smtp_NewSession_def emptyEnvelope_def)

lemma demo_session_fields [simp]:
  "smtp_currentState (demo_session q a b c) = q" "smtp_wf (demo_session q a b c)"
  "conn (demo_session q a b c) = c" "isTLS (demo_session q a b c) = False"
  by (simp_all add: demo_session_def smtp_currentState_def smtp_wf_def smtp_NewSession_def)

subsection \<open>Sessions\<close>

text \<open>
  C5: a session from its greeting to its end, whatever the client sends and however the network cuts
  it, changes the storage only by handing well-formed events to the delivery port, one after the
  other: each has a sender, one to a hundred non-empty recipients and a body whose recorded size is
  its length and within the configured maximum.
\<close>

theorem smtp_session_deliveries:
  assumes "looplab_contract (smtp_Event E)"
  shows "\<exists>evs. list_all (smtp_event_ok E) evs
    \<and> store (smtp_Handle E (smtp_NewSession c t w)) = deliver_all (smtp_delivery E) evs w"
proof -
  let ?s = "smtp_write (''220 '' @ SMTP_Domain (cfg_SMTP (smtp_cfg E)) @ '' ESMTP gomail-core ready'')
    (smtp_NewSession c t w)"
  have "delivers E ?s (smtp_loop E ?s)"
    using smtp_loop_inv_delivers [OF assms, of ?s] smtp_inv_NewSession [of c t w] by (simp only: smtp_inv_write)
  then show ?thesis by (simp add: delivers_def smtp_Handle_def smtp_NewSession_def)
qed

theorem smtp_session_deliveries_witness:
  "\<exists>evs. list_all (smtp_event_ok demo_smtp) evs
    \<and> store (smtp_Handle demo_smtp (smtp_NewSession [Chunk (''QUIT'' @ CRLF)] False []))
        = deliver_all (smtp_delivery demo_smtp) evs []"
  using smtp_session_deliveries [of demo_smtp] by simp

text \<open>
  C4: a client that sends the lines of a message with dot stuffing and the final dot gets exactly
  these lines delivered, for every way the bytes are cut into segments: the event that reaches the
  delivery port has the unstuffed body, the sender and the recipients of the envelope, and the
  client reads 354 and then 250 or 451, as the port decides.
\<close>

theorem smtp_data_round_trip:
  assumes "looplab_contract (smtp_Event E)" "smtp_inv s" "smtp_currentState s = StateRcptTo"
    and "list_all is_line ls" "int (length (concat ls)) \<le> SMTP_MaxSize (cfg_SMTP (smtp_cfg E))"
    and "conn s = map Chunk cs @ evs" "concat cs = wire_data ls @ rest"
    and "Deliver (smtp_delivery E) (data_event E s (concat ls)) (store s) = (err, w)"
  shows "store (handleDATA E s) = w
    \<and> sent (handleDATA E s) = sent s @ [''354 Start mail input; end with <CRLF>.<CRLF>'' @ CRLF,
        (if err = None then ''250 OK: message accepted for delivery''
         else ''451 Requested action aborted: error in processing'') @ CRLF]"
proof -
  have wf: "smtp_wf s" using assms(2) by (simp add: smtp_inv_def)
  obtain b cs' where "data_loop (maxSize E) [] (conn s) [] = (DataComplete (concat ls), b, map Chunk cs' @ evs)"
    using data_loop_wire [of ls "[]" "maxSize E" "[]" cs rest evs] assms(4-7) by auto
  from handleDATA_complete [OF assms(1) wf assms(3) this assms(8)] show ?thesis
    by (auto simp: Let_def with_body_def data_started_def goto_def smtp_write_def split: option.splits)
qed

theorem smtp_data_round_trip_witness:
  "store (handleDATA demo_smtp (demo_session StateRcptTo ''a@b'' [''c@d''] [Chunk ''..x'', Chunk (CRLF @ ''.'' @ CRLF)]))
     = [data_event demo_smtp (demo_session StateRcptTo ''a@b'' [''c@d''] []) (''.x'' @ CRLF)]
   \<and> sent (handleDATA demo_smtp (demo_session StateRcptTo ''a@b'' [''c@d''] [Chunk ''..x'', Chunk (CRLF @ ''.'' @ CRLF)]))
     = [''354 Start mail input; end with <CRLF>.<CRLF>'' @ CRLF, ''250 OK: message accepted for delivery'' @ CRLF]"
proof -
  let ?c = "[Chunk ''..x'', Chunk (CRLF @ ''.'' @ CRLF)]"
  let ?s = "demo_session StateRcptTo ''a@b'' [''c@d''] ?c"
  have "is_line (''.x'' @ CRLF)" unfolding is_line_def by (rule exI [of _ "''.x'' @ [CR]"]) (simp add: CRLF_def)
  moreover have "Deliver (smtp_delivery demo_smtp) (data_event demo_smtp ?s (''.x'' @ CRLF)) []
      = (None, [data_event demo_smtp (demo_session StateRcptTo ''a@b'' [''c@d''] []) (''.x'' @ CRLF)])"
    by (simp add: demo_smtp_def data_event_def demo_session_def smtp_NewSession_def)
  moreover have "int (length (concat [''.x'' @ CRLF])) \<le> SMTP_MaxSize (cfg_SMTP (smtp_cfg demo_smtp))"
    by (simp add: demo_smtp_def Load_def getEnvInt_def CRLF_def)
  moreover have "sent ?s = []" "store ?s = []" by (simp_all add: demo_session_def smtp_NewSession_def)
  moreover have "concat [''..x'', CRLF @ ''.'' @ CRLF] = wire_data [''.x'' @ CRLF] @ []"
    by (simp add: wire_data_def dot_stuff_def)
  ultimately show ?thesis
    using smtp_data_round_trip [where E = demo_smtp and s = ?s and ls = "[''.x'' @ CRLF]"
        and cs = "[''..x'', CRLF @ ''.'' @ CRLF]" and evs = "[]" and rest = "[]" and err = None]
    by (simp only: demo_smtp_contract demo_session_inv demo_session_fields list.simps list.pred_inject
        concat.simps append_Nil append_Nil2 if_True simp_thms)
qed

text \<open>
  C17: every command line, in every session that satisfies the invariant, leaves one that satisfies
  it: at most a hundred recipients, none of them empty, a sender once MAIL was accepted and a
  recipient once RCPT was.
\<close>

theorem smtp_dispatch_keeps_invariant:
  assumes "looplab_contract (smtp_Event E)" "smtp_inv s"
  shows "smtp_inv (fst (smtp_dispatch E line s))"
  using smtp_dispatch_inv_delivers [OF assms] by (cases "smtp_dispatch E line s") simp

theorem smtp_dispatch_keeps_invariant_witness:
  "smtp_inv (fst (smtp_dispatch demo_smtp ''RSET'' (demo_session StateRcptTo ''a@b'' [''c@d''] [])))"
  using smtp_dispatch_keeps_invariant [of demo_smtp] by simp

text \<open>
  C21: a command moves the session along the edges of the RFC 5321 transaction only: there is no way
  into DATA but through MAIL and RCPT, and none out of it but its end, RSET, QUIT or STARTTLS.
\<close>

theorem smtp_command_order:
  assumes "looplab_contract (smtp_Event E)" "smtp_inv s"
  shows "smtp_edge (smtp_currentState s) (smtp_currentState (fst (smtp_dispatch E line s)))"
  using smtp_dispatch_edge [OF assms(1)] assms(2) by (simp add: smtp_inv_def)

theorem smtp_command_order_witness:
  "smtp_edge StateGreeted (smtp_currentState (fst (smtp_dispatch demo_smtp ''DATA'' (demo_session StateGreeted [] [] []))))"
  using smtp_command_order [of demo_smtp "demo_session StateGreeted [] [] []" "''DATA''"] by simp

text \<open>
  C33: every command line is answered: the lines sent before stay, and at least one is added.
\<close>

theorem smtp_command_answered:
  "strict_prefix (sent s) (sent (fst (smtp_dispatch E line s)))"
  using smtp_dispatch_answered [of E line s] by (cases "smtp_dispatch E line s") (simp add: answered_def)

text \<open>
  C18: no command injection across STARTTLS. After a successful handshake the rest of the session
  does not depend on what the client had sent in the clear behind the command, nor on the envelope
  and the state built up before.
\<close>

theorem smtp_starttls_no_injection:
  assumes "\<not> isTLS s" "smtp_tlsCfg E = Some tc" "smtp_Handshake E tc (conn s) = (n, Some tlsConn)"
    and "smtp_currentState s = StateInit \<or> smtp_currentState s = StateGreeted"
    and "smtp_currentState s' = StateInit \<or> smtp_currentState s' = StateGreeted"
    and "s' = s\<lparr>reader := b, fsm := f, envelope := e\<rparr>"
  shows "smtp_loop E (smtp_handleSTARTTLS E s') = smtp_loop E (smtp_handleSTARTTLS E s)
    \<and> reader (smtp_handleSTARTTLS E s) = [] \<and> conn (smtp_handleSTARTTLS E s) = tlsConn"
proof -
  have "smtp_handleSTARTTLS E s' = smtp_handleSTARTTLS E s"
    using assms by (auto simp: smtp_handleSTARTTLS_def smtp_write_def Let_def)
  moreover have "reader (smtp_handleSTARTTLS E s) = []" "conn (smtp_handleSTARTTLS E s) = tlsConn"
    using assms by (auto simp: smtp_handleSTARTTLS_def smtp_write_def Let_def)
  ultimately show ?thesis by simp
qed

theorem smtp_starttls_no_injection_witness:
  "smtp_loop demo_smtp (smtp_handleSTARTTLS demo_smtp ((demo_session StateGreeted [] [] [])
       \<lparr>reader := ''MAIL FROM:<evil@example.org>'' @ CRLF, fsm := newSMTPFSM, envelope := emptyEnvelope\<rparr>))
     = smtp_loop demo_smtp (smtp_handleSTARTTLS demo_smtp (demo_session StateGreeted [] [] []))
   \<and> reader (smtp_handleSTARTTLS demo_smtp (demo_session StateGreeted [] [] [])) = []
   \<and> conn (smtp_handleSTARTTLS demo_smtp (demo_session StateGreeted [] [] [])) = [Chunk (''EHLO x'' @ CRLF)]"
  by (rule smtp_starttls_no_injection
        [where tc = "\<lparr>Certificates = [''certificate''], MinVersion = VersionTLS12, CipherSuites = []\<rparr>" and n = 0])
    (simp_all add: demo_smtp_def smtp_currentState_def newSMTPFSM_def, simp_all add: demo_session_def)

text \<open>
  C20: a message longer than the configured maximum is refused: for every way the bytes are cut the
  client reads 552, nothing reaches the storage, and the session is back before MAIL with an empty
  envelope.
\<close>

theorem smtp_oversize_refused:
  assumes "looplab_contract (smtp_Event E)" "smtp_inv s" "smtp_currentState s = StateRcptTo"
    and "list_all is_line ls" "0 \<le> SMTP_MaxSize (cfg_SMTP (smtp_cfg E))"
    and "SMTP_MaxSize (cfg_SMTP (smtp_cfg E)) < int (length (concat ls))"
    and "conn s = map Chunk cs @ evs" "concat cs = concat (map dot_stuff ls) @ rest"
  shows "last (sent (handleDATA E s)) = ''552 Message size exceeds maximum permitted'' @ CRLF
    \<and> store (handleDATA E s) = store s \<and> smtp_currentState (handleDATA E s) = StateGreeted
    \<and> envelope (handleDATA E s) = emptyEnvelope"
proof -
  have wf: "smtp_wf s" using assms(2) by (simp add: smtp_inv_def)
  obtain b evs' where "data_loop (maxSize E) [] (conn s) [] = (DataTooBig, b, evs')"
    using data_loop_too_big [of ls "[]" "maxSize E" "[]" cs rest evs] assms(4-8) by auto
  from handleDATA_too_big [OF assms(1) wf assms(3) this] show ?thesis by simp
qed

definition tiny_smtp :: "MessageReceived list smtp_env" where
  "tiny_smtp = demo_smtp\<lparr>smtp_cfg := Load (\<lambda>k. if k = ''GOMAIL_SMTP_MAX_SIZE'' then ''3'' else [])\<rparr>"

theorem smtp_oversize_refused_witness:
  "last (sent (handleDATA tiny_smtp (demo_session StateRcptTo ''a@b'' [''c@d''] [Chunk (''hello'' @ CRLF)])))
     = ''552 Message size exceeds maximum permitted'' @ CRLF
   \<and> store (handleDATA tiny_smtp (demo_session StateRcptTo ''a@b'' [''c@d''] [Chunk (''hello'' @ CRLF)])) = []
   \<and> smtp_currentState (handleDATA tiny_smtp (demo_session StateRcptTo ''a@b'' [''c@d''] [Chunk (''hello'' @ CRLF)])) = StateGreeted
   \<and> envelope (handleDATA tiny_smtp (demo_session StateRcptTo ''a@b'' [''c@d''] [Chunk (''hello'' @ CRLF)])) = emptyEnvelope"
proof -
  let ?s = "demo_session StateRcptTo ''a@b'' [''c@d''] [Chunk (''hello'' @ CRLF)]"
  have "is_line (''hello'' @ CRLF)" unfolding is_line_def by (rule exI [of _ "''hello'' @ [CR]"]) (simp add: CRLF_def)
  moreover have "SMTP_MaxSize (cfg_SMTP (smtp_cfg tiny_smtp)) = 3"
    by (simp add: tiny_smtp_def Load_def getEnvInt_def Atoi_def parse_digits_def int64_min_def int64_max_def)
  moreover have "looplab_contract (smtp_Event tiny_smtp)"
    using demo_smtp_contract by (simp add: tiny_smtp_def)
  moreover have "store ?s = []" by (simp add: demo_session_def smtp_NewSession_def)
  ultimately show ?thesis
    using smtp_oversize_refused [of tiny_smtp ?s "[''hello'' @ CRLF]" "[''hello'' @ CRLF]" "[]" "[]"]
    by (simp add: dot_stuff_def CRLF_def)
qed

subsection \<open>Commands\<close>

text \<open>
  C34: the address parser returns exactly what stands between the angle brackets, for the keyword in
  any spelling of upper and lower case, refuses an empty pair of brackets, and never slices outside
  of its argument.
\<close>

theorem extractAddress_round_trip:
  assumes "map upper_byte p = prfx" "prfx = ''FROM:'' \<or> prfx = ''TO:''"
  shows "extractAddress (p @ ''<'' @ addr @ ''>'') prfx = (if addr = [] then None else Some addr)
    \<and> length prfx \<le> length (p @ ''<'' @ addr @ ''>'')"
proof -
  have len: "length p = length prfx" using assms(1) by (simp flip: assms(1))
  have "\<forall>c \<in> set prfx. (of_char c :: nat) < 128" using assms(2) by auto
  then have "\<forall>c \<in> set p. (of_char c :: nat) < 128" using assms(1) upper_byte_ascii by auto
  then have "HasPrefix (ToUpper (p @ ''<'' @ addr @ ''>'')) prfx"
    by (simp only: ToUpper_ascii_append assms(1) HasPrefix_append)
  then show ?thesis using extractAddress_brackets [OF _ len] len by simp
qed

theorem extractAddress_round_trip_witness:
  "extractAddress (''From:'' @ ''<'' @ ''bob@example.org'' @ ''>'') ''FROM:'' = (if ''bob@example.org'' = [] then None else Some ''bob@example.org'')
    \<and> length ''FROM:'' \<le> length (''From:'' @ ''<'' @ ''bob@example.org'' @ ''>'')"
  by (rule extractAddress_round_trip) code_simp+

text \<open>
  When the delivery port reports an error the client reads 451, and the session stays in DATA:
  a new MAIL is refused with 503 until the client resets.
\<close>

lemma smtp_failed_delivery:
  assumes "looplab_contract (smtp_Event E)" "smtp_inv s" "smtp_currentState s = StateRcptTo"
    and "list_all is_line ls" "int (length (concat ls)) \<le> SMTP_MaxSize (cfg_SMTP (smtp_cfg E))"
    and "conn s = map Chunk cs @ evs" "concat cs = wire_data ls @ rest"
    and "Deliver (smtp_delivery E) (data_event E s (concat ls)) (store s) = (Some err, w)"
    and "extractAddress args ''FROM:'' = Some addr"
  shows "smtp_currentState (handleDATA E s) = StateData
    \<and> last (sent (handleDATA E s)) = ''451 Requested action aborted: error in processing'' @ CRLF
    \<and> last (sent (handleMAIL E args (handleDATA E s))) = ''503 Bad sequence of commands'' @ CRLF"
proof -
  have wf: "smtp_wf s" using assms(2) by (simp add: smtp_inv_def)
  obtain b cs' where "data_loop (maxSize E) [] (conn s) [] = (DataComplete (concat ls), b, map Chunk cs' @ evs)"
    using data_loop_wire [of ls "[]" "maxSize E" "[]" cs rest evs] assms(4-7) by auto
  note hd = handleDATA_complete [OF assms(1) wf assms(3) this assms(8)]
  have st: "smtp_currentState (handleDATA E s) = StateData" and wf': "smtp_wf (handleDATA E s)"
    using wf by (simp_all add: hd Let_def with_body_def smtp_currentState_def smtp_wf_def)
  have "handleMAIL E args (handleDATA E s) = smtp_write ''503 Bad sequence of commands'' (handleDATA E s)"
    using transition_spec [OF assms(1) wf', of EventMailFrom] st assms(9) by (simp add: handleMAIL_def)
  then show ?thesis using st by (simp add: hd Let_def)
qed

definition failing_smtp :: "MessageReceived list smtp_env" where
  "failing_smtp = demo_smtp\<lparr>smtp_delivery := \<lparr>Deliver = (\<lambda>e w. (Some (ErrExternal ''disk full''), w))\<rparr>\<rparr>"

lemma smtp_failed_delivery_witness:
  "smtp_currentState (handleDATA failing_smtp (demo_session StateRcptTo ''a@b'' [''c@d''] [Chunk (''.'' @ CRLF)])) = StateData
    \<and> last (sent (handleDATA failing_smtp (demo_session StateRcptTo ''a@b'' [''c@d''] [Chunk (''.'' @ CRLF)])))
        = ''451 Requested action aborted: error in processing'' @ CRLF
    \<and> last (sent (handleMAIL failing_smtp ''FROM:<x@y>''
          (handleDATA failing_smtp (demo_session StateRcptTo ''a@b'' [''c@d''] [Chunk (''.'' @ CRLF)]))))
        = ''503 Bad sequence of commands'' @ CRLF"
proof -
  let ?s = "demo_session StateRcptTo ''a@b'' [''c@d''] [Chunk (''.'' @ CRLF)]"
  have "extractAddress ''FROM:<x@y>'' ''FROM:'' = Some ''x@y''" by code_simp
  moreover have "0 \<le> SMTP_MaxSize (cfg_SMTP (smtp_cfg failing_smtp))"
    by (simp add: failing_smtp_def demo_smtp_def Load_def getEnvInt_def)
  moreover have "looplab_contract (smtp_Event failing_smtp)" using demo_smtp_contract by (simp add: failing_smtp_def)
  ultimately show ?thesis
    using smtp_failed_delivery [of failing_smtp ?s "[]" "[''.'' @ CRLF]" "[]" "[]" "ErrExternal ''disk full''" "store ?s"]
    by (simp add: wire_data_def failing_smtp_def)
qed

text \<open>
  C37: recipients of a finished transaction stay in the envelope. After a message was accepted, the
  next transaction's first RCPT adds to the list, so the second message goes to the recipients of
  the first one as well.
\<close>

theorem smtp_recipients_carried_over:
  assumes "looplab_contract (smtp_Event E)" "smtp_inv s" "smtp_currentState s = StateRcptTo"
    and "list_all is_line ls" "int (length (concat ls)) \<le> SMTP_MaxSize (cfg_SMTP (smtp_cfg E))"
    and "conn s = map Chunk cs @ evs" "concat cs = wire_data ls @ rest"
    and "Deliver (smtp_delivery E) (data_event E s (concat ls)) (store s) = (None, w)"
    and "extractAddress mail ''FROM:'' = Some sender" "extractAddress rcpt ''TO:'' = Some addr"
    and "length (env_To (envelope s)) < 100"
  shows "let t = handleRCPT E rcpt (handleMAIL E mail (handleDATA E s))
    in smtp_currentState t = StateRcptTo \<and> env_From (envelope t) = sender
      \<and> env_To (envelope t) = env_To (envelope s) @ [addr]"
proof -
  have wf: "smtp_wf s" using assms(2) by (simp add: smtp_inv_def)
  obtain b cs' where "data_loop (maxSize E) [] (conn s) [] = (DataComplete (concat ls), b, map Chunk cs' @ evs)"
    using data_loop_wire [of ls "[]" "maxSize E" "[]" cs rest evs] assms(4-7) by auto
  note hd = handleDATA_complete [OF assms(1) wf assms(3) this assms(8)]
  let ?d = "handleDATA E s"
  have d: "smtp_currentState ?d = StateGreeted" "smtp_wf ?d" "env_To (envelope ?d) = env_To (envelope s)"
    using wf by (simp_all add: hd Let_def with_body_def smtp_wf_def)
  let ?m = "handleMAIL E mail ?d"
  have "?m = smtp_write ''250 OK'' ((goto StateMailFrom ?d)\<lparr>envelope := (envelope ?d)\<lparr>env_From := sender\<rparr>\<rparr>)"
    using transition_spec [OF assms(1) d(2), of EventMailFrom] d(1) assms(9) by (simp add: handleMAIL_def)
  then have m: "smtp_currentState ?m = StateMailFrom" "smtp_wf ?m" "env_To (envelope ?m) = env_To (envelope s)"
      "env_From (envelope ?m) = sender"
    using d by (simp_all add: smtp_currentState_def smtp_wf_def)
  have "handleRCPT E rcpt ?m =
      smtp_write ''250 OK'' ((goto StateRcptTo ?m)\<lparr>envelope := AddRecipient addr (envelope ?m)\<rparr>)"
    using transition_spec [OF assms(1) m(2), of EventRcptTo] m assms(10,11)
    by (simp add: handleRCPT_def smtp_transitionRcptTo_def)
  then show ?thesis using m by (simp add: smtp_currentState_def AddRecipient_def)
qed

theorem smtp_recipients_carried_over_witness:
  "let t = handleRCPT demo_smtp ''TO:<new@d>'' (handleMAIL demo_smtp ''FROM:<x@y>''
       (handleDATA demo_smtp (demo_session StateRcptTo ''a@b'' [''old@d''] [Chunk (''.'' @ CRLF)])))
   in smtp_currentState t = StateRcptTo \<and> env_From (envelope t) = ''x@y'' \<and> env_To (envelope t) = [''old@d'', ''new@d'']"
proof -
  let ?s = "demo_session StateRcptTo ''a@b'' [''old@d''] [Chunk (''.'' @ CRLF)]"
  have "extractAddress ''FROM:<x@y>'' ''FROM:'' = Some ''x@y''" "extractAddress ''TO:<new@d>'' ''TO:'' = Some ''new@d''"
    by code_simp+
  moreover have "0 \<le> SMTP_MaxSize (cfg_SMTP (smtp_cfg demo_smtp))"
    by (simp add: demo_smtp_def Load_def getEnvInt_def)
  moreover have "smtp_inv ?s" "env_To (envelope ?s) = [''old@d'']"
    by (simp_all add: smtp_state_simps demo_session_def smtp_NewSession_def emptyEnvelope_def)
  moreover have "Deliver (smtp_delivery demo_smtp) (data_event demo_smtp ?s []) (store ?s)
      = (None, store ?s @ [data_event demo_smtp ?s []])"
    by (simp add: demo_smtp_def)
  ultimately show ?thesis
    using smtp_recipients_carried_over [of demo_smtp ?s "[]" "[''.'' @ CRLF]" "[]" "[]" _ "''FROM:<x@y>''" "''x@y''" "''TO:<new@d>''" "''new@d''"]
    by (simp add: wire_data_def)
qed

text \<open>
  Outside of a transaction RSET and a repeated EHLO are refused with 503 and clear nothing,
  although the table of the state machine lists the greeted state as a source of both events: the
  library reports an event that does not change the state as an error.
\<close>

lemma smtp_reset_refused_when_greeted:
  assumes "looplab_contract (smtp_Event E)" "smtp_inv s" "smtp_currentState s = StateGreeted" "args \<noteq> []"
  shows "handleRSET E s = smtp_write ''503 Bad sequence of commands'' s
    \<and> handleEHLO E args s = smtp_write ''503 Bad sequence of commands'' s"
proof -
  have "smtp_wf s" using assms(2) by (simp add: smtp_inv_def)
  then show ?thesis
    using transition_spec [OF assms(1)] assms(3,4) by (simp add: handleRSET_def handleEHLO_def)
qed

lemma smtp_reset_refused_when_greeted_witness:
  "handleRSET demo_smtp (demo_session StateGreeted [] [] []) = smtp_write ''503 Bad sequence of commands'' (demo_session StateGreeted [] [] [])
    \<and> handleEHLO demo_smtp ''host'' (demo_session StateGreeted [] [] []) = smtp_write ''503 Bad sequence of commands'' (demo_session StateGreeted [] [] [])"
  using smtp_reset_refused_when_greeted [of demo_smtp "demo_session StateGreeted [] [] []" "''host''"] by simp

text \<open>
  C38: DATA does not see what the session's reader has already buffered. A client that sends DATA
  and the whole message in one segment gets 354 and nothing else: no message reaches the storage,
  the session is left in DATA, and the bytes of the message stay in the buffer, to be read as
  commands.
\<close>

theorem smtp_pipelined_data_lost:
  assumes "looplab_contract (smtp_Event E)" "smtp_inv s" "smtp_currentState s = StateRcptTo"
    and "reader s = []" "conn s = [Chunk (''DATA'' @ CRLF @ message)]"
  shows "\<exists>t. smtp_loop E s = smtp_loop E t \<and> reader t = message \<and> conn t = [] \<and> store t = store s
    \<and> smtp_currentState t = StateData
    \<and> sent t = sent s @ [''354 Start mail input; end with <CRLF>.<CRLF>'' @ CRLF]"
proof -
  let ?s = "s\<lparr>reader := message, conn := []\<rparr>"
  have wf: "smtp_wf ?s" and st: "smtp_currentState ?s = StateRcptTo"
    using assms(2,3) by (simp_all add: smtp_inv_def smtp_wf_def smtp_currentState_def)
  have "data_loop (maxSize E) [] (conn ?s) [] = (DataReadError, [], [])"
    by (simp add: data_loop.simps ReadString_end)
  from handleDATA_read_error [OF assms(1) wf st this]
  have hd: "handleDATA E ?s = (data_started ?s)\<lparr>conn := []\<rparr>" .
  have "Cut SPC ''DATA'' = (''DATA'', [], False)" "ToUpper (TrimSpace ''DATA'') = ''DATA''" by code_simp+
  then have dp: "smtp_dispatch E ''DATA'' ?s = (handleDATA E ?s, False)"
    unfolding smtp_dispatch_def by simp
  have "cut_line (''DATA'' @ CRLF @ message) = Some (''DATA'' @ CRLF, message)"
    using cut_line_append [of "''DATA'' @ [CR]" message] by (simp add: CRLF_def)
  then have rd: "ReadString (reader s) (conn s) = (Some (''DATA'' @ CRLF), message, [])"
    using assms(4,5) by (simp only: ReadString_Chunk cut_line.simps append_Nil ReadString_buffered)
  have "TrimRight (''DATA'' @ CRLF) CRLF = ''DATA''" by code_simp
  then have "smtp_loop E s = smtp_loop E (handleDATA E ?s)"
    using dp rd by (subst smtp_loop.simps) simp
  then show ?thesis
    by (intro exI [of _ "handleDATA E ?s"])
      (simp add: hd, simp add: data_started_def smtp_currentState_def goto_def smtp_write_def)
qed

theorem smtp_pipelined_data_lost_witness:
  "\<exists>t. smtp_loop demo_smtp (demo_session StateRcptTo ''a@b'' [''c@d''] [Chunk (''DATA'' @ CRLF @ ''x'' @ CRLF @ ''.'' @ CRLF)])
      = smtp_loop demo_smtp t
    \<and> reader t = ''x'' @ CRLF @ ''.'' @ CRLF \<and> conn t = [] \<and> store t = [] \<and> smtp_currentState t = StateData
    \<and> sent t = [''354 Start mail input; end with <CRLF>.<CRLF>'' @ CRLF]"
proof -
  let ?s = "demo_session StateRcptTo ''a@b'' [''c@d''] [Chunk (''DATA'' @ CRLF @ ''x'' @ CRLF @ ''.'' @ CRLF)]"
  have "reader ?s = []" "store ?s = []" "sent ?s = []" by (simp_all add: demo_session_def smtp_NewSession_def)
  then show ?thesis
    using smtp_pipelined_data_lost [of demo_smtp ?s "''x'' @ CRLF @ ''.'' @ CRLF"]
    by (simp only: demo_smtp_contract demo_session_inv demo_session_fields append_Nil simp_thms)
qed

end
