(* ===== verification/Imap.thy ===== *)
theory Imap
  imports GoNet Fsm Ports Config
begin

text \<open>
  The IMAP session of \<^verbatim>\<open>internal/imap\<close>: the state machine and the read loop (\<^verbatim>\<open>session.go\<close>), the handlers
  (\<^verbatim>\<open>handler.go\<close>), the data types (\<^verbatim>\<open>types.go\<close>) and the password check (\<^verbatim>\<open>auth.go\<close>).

  As for SMTP, \<open>imap_session\<close> is the Go struct's mutable part with the lines sent so far and the
  state of the storage, and \<open>imap_env\<close> holds what is read only or outside of the repository: the
  four ports, \<^verbatim>\<open>FSM.Event\<close>, the TLS handshake, \<^verbatim>\<open>bcrypt.CompareHashAndPassword\<close> and the Unicode tables. The buffered writer of
  the Go struct is never used, and the idle deadline is one of the read errors of the connection.
\<close>

subsection \<open>Types\<close>

definition Capability :: "string list" where
  "Capability = [''IMAP4rev1'', ''LITERAL+'', ''SASL-IR'', ''LOGIN'', ''IDLE'', ''STARTTLS'']"

record SelectedMailbox =
  sel_ID :: uint64
  sel_Name :: string
  sel_UIDValidity :: uint32
  sel_UIDNext :: uint32
  sel_ReadOnly :: bool
  sel_SelectedAt :: time

datatype imap_State = StateNotAuthenticated | StateAuthenticated | StateSelected | StateLogout

datatype IMAPEvent = EventLogin | EventSelect | EventClose | EventLogout

definition imap_events :: "(imap_State, IMAPEvent) EventDesc list" where
  "imap_events =
     [\<lparr>Name = EventLogin, Src = [StateNotAuthenticated], Dst = StateAuthenticated\<rparr>,
      \<lparr>Name = EventSelect, Src = [StateAuthenticated], Dst = StateSelected\<rparr>,
      \<lparr>Name = EventClose, Src = [StateSelected], Dst = StateAuthenticated\<rparr>,
      \<lparr>Name = EventLogout, Src = [StateNotAuthenticated, StateAuthenticated, StateSelected], Dst = StateLogout\<rparr>]"

subsection \<open>The session\<close>

record 'w imap_session =
  im_conn :: stream
  im_reader :: bytes
  im_fsm :: "(imap_State, IMAPEvent) FSM"
  im_isTLS :: bool
  im_userID :: uint64
  im_username :: string
  im_selected :: "SelectedMailbox option"
  im_sent :: "string list"
  im_store :: 'w

record 'w imap_env =
  im_cfg :: Config
  im_tlsCfg :: "string tls_config option"
  im_mailboxReader :: "'w MailboxReader"
  im_messageReader :: "'w MessageReader"
  im_domainResolver :: "'w DomainResolver"
  im_userAuth :: "'w UserAuthenticator"
  im_Event :: "(imap_State, IMAPEvent) fsm_Event"
  im_Handshake :: "string tls_config \<Rightarrow> stream \<Rightarrow> nat \<times> stream option"
  im_bcrypt :: "string \<Rightarrow> string \<Rightarrow> go_error option"
  im_unicode :: unicode

definition imap_newSession :: "stream \<Rightarrow> bool \<Rightarrow> 'w \<Rightarrow> 'w imap_session" where
  "imap_newSession c overTLS w =
     \<lparr>im_conn = c, im_reader = [], im_fsm = \<lparr>Current = StateNotAuthenticated, Events = imap_events\<rparr>,
      im_isTLS = overTLS, im_userID = 0, im_username = [], im_selected = None, im_sent = [], im_store = w\<rparr>"

definition writeLine :: "string \<Rightarrow> 'w imap_session \<Rightarrow> 'w imap_session" where
  "writeLine line s = s\<lparr>im_sent := im_sent s @ [line @ CRLF]\<rparr>"

definition writeTagged :: "string \<Rightarrow> string \<Rightarrow> string \<Rightarrow> 'w imap_session \<Rightarrow> 'w imap_session" where
  "writeTagged tag status message = writeLine (tag @ '' '' @ status @ '' '' @ message)"

definition writeUntagged :: "string \<Rightarrow> string \<Rightarrow> 'w imap_session \<Rightarrow> 'w imap_session" where
  "writeUntagged status message = writeLine (''* '' @ status @ '' '' @ message)"

definition imap_state :: "'w imap_session \<Rightarrow> imap_State" where
  "imap_state s = Current (im_fsm s)"

definition imap_transition :: "'w imap_env \<Rightarrow> IMAPEvent \<Rightarrow> 'w imap_session \<Rightarrow> bool \<times> 'w imap_session" where
  "imap_transition E event s =
     (case im_Event E (im_fsm s) event of
        (Some err, f) \<Rightarrow> (False, s\<lparr>im_fsm := f\<rparr>)
      | (None, f) \<Rightarrow> (True, s\<lparr>im_fsm := f\<rparr>))"

definition transitionSelect :: "'w imap_env \<Rightarrow> 'w imap_session \<Rightarrow> bool \<times> 'w imap_session" where
  "transitionSelect E s =
     (if imap_state s = StateSelected then (True, s) else imap_transition E EventSelect s)"

subsection \<open>The handlers\<close>

definition handleCapability :: "'w imap_env \<Rightarrow> string \<Rightarrow> 'w imap_session \<Rightarrow> 'w imap_session" where
  "handleCapability E tag s =
     writeTagged tag ''OK'' ''CAPABILITY completed''
       (if im_tlsCfg E \<noteq> None \<and> \<not> im_isTLS s
        then writeUntagged ''CAPABILITY'' (Join (Capability @ [''STARTTLS'']) '' '') s
        else writeUntagged ''CAPABILITY'' (Join Capability '' '') s)"

definition imap_parseAddress :: "string \<Rightarrow> (string \<times> string) option" where
  "imap_parseAddress addr =
     (case SplitN2 CHR ''@'' addr of
        [a, b] \<Rightarrow> if a = [] \<or> b = [] then None else Some (a, b)
      | _ \<Rightarrow> None)"

definition imap_checkPassword :: "'w imap_env \<Rightarrow> string \<Rightarrow> string \<Rightarrow> bool" where
  "imap_checkPassword E password hash \<longleftrightarrow> im_bcrypt E hash password = None"

definition handleLogin :: "'w imap_env \<Rightarrow> string \<Rightarrow> string \<Rightarrow> 'w imap_session \<Rightarrow> 'w imap_session" where
  "handleLogin E tag args s =
     (case SplitN2 SPC args of
        [p0, p1] \<Rightarrow>
          (let username = Trim p0 [QUOT]; password = Trim p1 [QUOT]
           in case imap_parseAddress username of
                None \<Rightarrow> writeTagged tag ''NO'' ''Invalid username format, expected user@domain'' s
              | Some (localPart, domain) \<Rightarrow>
           (case FindDomain (im_domainResolver E) domain (im_store s) of
              (Inl err, w) \<Rightarrow> writeTagged tag ''NO'' ''Invalid credentials'' (s\<lparr>im_store := w\<rparr>)
            | (Inr d, w) \<Rightarrow>
           (case FindUser (im_userAuth E) localPart (Domain_ID d) w of
              (Inl err, w) \<Rightarrow> writeTagged tag ''NO'' ''Invalid credentials'' (s\<lparr>im_store := w\<rparr>)
            | (Inr user, w) \<Rightarrow>
                (let s = s\<lparr>im_store := w\<rparr>
                 in if \<not> imap_checkPassword E password (User_PasswordHash user)
                    then writeTagged tag ''NO'' ''Invalid credentials'' s
                    else (case imap_transition E EventLogin s of
                            (False, s) \<Rightarrow> writeTagged tag ''NO'' ''Login failed'' s
                          | (True, s) \<Rightarrow>
                              writeTagged tag ''OK'' ''LOGIN completed''
                                (s\<lparr>im_userID := User_ID user, im_username := username\<rparr>)))))
          )
      | _ \<Rightarrow> writeTagged tag ''BAD'' ''Syntax: LOGIN username password'' s)"

definition flag_list :: string where
  "flag_list = BSL # ''Seen '' @ BSL # ''Answered '' @ BSL # ''Flagged '' @ BSL # ''Deleted '' @ BSL # ''Draft''"

definition select_replies :: "Mailbox \<Rightarrow> nat \<Rightarrow> string list" where
  "select_replies mb n =
     [''* '' @ fmt_nat n @ '' EXISTS'',
      ''* 0 RECENT'',
      ''* OK [UNSEEN 0] No unseen messages'',
      ''* OK [UIDVALIDITY '' @ fmt_u (Mailbox_UIDValidity mb) @ ''] UIDs valid'',
      ''* OK [UIDNEXT '' @ fmt_u (Mailbox_UIDNext mb) @ ''] Predicted next UID'',
      ''* FLAGS ('' @ flag_list @ '')'',
      ''* OK [PERMANENTFLAGS ('' @ flag_list @ '' '' @ BSL # ''*)] Permanent flags'']"

definition handleSelect :: "'w imap_env \<Rightarrow> string \<Rightarrow> string \<Rightarrow> bool \<Rightarrow> 'w imap_session \<Rightarrow> 'w imap_session" where
  "handleSelect E tag args readOnly s =
     (let name = Trim (TrimSpace args) [QUOT]
      in if name = [] then writeTagged tag ''BAD'' ''Syntax: SELECT mailbox'' s
         else
        (case FindMailbox (im_mailboxReader E) (im_userID s) name (im_store s) of
           (Inl err, w) \<Rightarrow>
             writeTagged tag ''NO'' (''Mailbox '' @ fmt_q (im_unicode E) name @ '' does not exist'') (s\<lparr>im_store := w\<rparr>)
         | (Inr mb, w) \<Rightarrow>
        (case ListMessages (im_messageReader E) (Mailbox_ID mb) w of
           (Inl err, w) \<Rightarrow> writeTagged tag ''NO'' ''Error reading mailbox'' (s\<lparr>im_store := w\<rparr>)
         | (Inr messages, w) \<Rightarrow>
        (case transitionSelect E (s\<lparr>im_store := w\<rparr>) of
           (False, s) \<Rightarrow> writeTagged tag ''NO'' ''Cannot select mailbox'' s
         | (True, s) \<Rightarrow>
             (let s = s\<lparr>im_selected := Some \<lparr>sel_ID = Mailbox_ID mb, sel_Name = Mailbox_Name mb,
                         sel_UIDValidity = Mailbox_UIDValidity mb, sel_UIDNext = Mailbox_UIDNext mb,
                         sel_ReadOnly = readOnly, sel_SelectedAt = 0\<rparr>\<rparr>;
                  s = fold writeLine (select_replies mb (length messages)) s
              in if readOnly then writeTagged tag ''OK'' ''[READ-ONLY] EXAMINE completed'' s
                 else writeTagged tag ''OK'' ''[READ-WRITE] SELECT completed'' s)))))"

definition list_reply :: "unicode \<Rightarrow> Mailbox \<Rightarrow> string" where
  "list_reply U mb = ''* LIST ('' @ BSL # ''HasNoChildren) '' @ QUOT # ''/'' @ QUOT # '' '' @ fmt_q U (Mailbox_Name mb)"

definition list_matches :: "unicode \<Rightarrow> string \<Rightarrow> Mailbox \<Rightarrow> bool" where
  "list_matches U pattern mb \<longleftrightarrow> pattern = ''*'' \<or> pattern = ''%'' \<or> EqualFold U (Mailbox_Name mb) pattern"

definition handleList :: "'w imap_env \<Rightarrow> string \<Rightarrow> string \<Rightarrow> 'w imap_session \<Rightarrow> 'w imap_session" where
  "handleList E tag args s =
     (case SplitN2 SPC args of
        [p0, p1] \<Rightarrow>
          (case ListMailboxes (im_mailboxReader E) (im_userID s) (im_store s) of
             (Inl err, w) \<Rightarrow> writeTagged tag ''NO'' ''Error listing mailboxes'' (s\<lparr>im_store := w\<rparr>)
           | (Inr mailboxes, w) \<Rightarrow>
               writeTagged tag ''OK'' ''LIST completed''
                 (fold (\<lambda>mb. if list_matches (im_unicode E) (Trim p1 [QUOT]) mb then writeLine (list_reply (im_unicode E) mb) else id)
                    mailboxes (s\<lparr>im_store := w\<rparr>)))
      | _ \<Rightarrow> writeTagged tag ''BAD'' ''Syntax: LIST reference pattern'' s)"

subsubsection \<open>FETCH\<close>

definition no_body :: bytes where
  "no_body = ''(message body unavailable)''"

definition fetch_body :: "'w imap_env \<Rightarrow> Message \<Rightarrow> 'w \<Rightarrow> bytes \<times> 'w" where
  "fetch_body E msg w =
     (case GetMessageBody (im_messageReader E) (Message_ID msg) w of
        (Inr (Some body), w) \<Rightarrow> (body, w)
      | (_, w) \<Rightarrow> (no_body, w))"

definition fetch_head :: "string \<Rightarrow> nat \<Rightarrow> Message \<Rightarrow> string" where
  "fetch_head items seqNum msg =
     ''* '' @ fmt_nat seqNum @ '' FETCH (''
     @ (if Contains items ''FLAGS'' then ''FLAGS ('' @ Message_Flags msg @ '') '' else [])
     @ (if Contains items ''UID'' then ''UID '' @ fmt_u (Message_UID msg) @ '' '' else [])
     @ (if Contains items ''RFC822.SIZE'' then ''RFC822.SIZE '' @ fmt_d (Message_SizeBytes msg) @ '' '' else [])"

definition fetch_literal :: "bytes \<Rightarrow> string" where
  "fetch_literal body = ''BODY[] {'' @ fmt_nat (length body) @ ''}'' @ CRLF @ body @ '' ''"

definition fetch_line :: "'w imap_env \<Rightarrow> string \<Rightarrow> nat \<Rightarrow> Message \<Rightarrow> 'w \<Rightarrow> string \<times> 'w" where
  "fetch_line E items seqNum msg w =
     (let (part, w') =
            (if Contains items ''BODY[]'' \<or> Contains items ''RFC822''
             then (case fetch_body E msg w of (body, w') \<Rightarrow> (fetch_literal body, w'))
             else ([], w))
      in (TrimRight (fetch_head items seqNum msg @ part) '' '' @ '')'', w'))"

fun fetch_loop :: "'w imap_env \<Rightarrow> string \<Rightarrow> nat \<Rightarrow> Message list \<Rightarrow> 'w imap_session \<Rightarrow> 'w imap_session" where
  "fetch_loop E items i [] s = s"
| "fetch_loop E items i (msg # msgs) s =
     (case fetch_line E items (i + 1) msg (im_store s) of
        (line, w) \<Rightarrow> fetch_loop E items (i + 1) msgs (writeLine line (s\<lparr>im_store := w\<rparr>)))"

definition handleFetch :: "'w imap_env \<Rightarrow> string \<Rightarrow> string \<Rightarrow> 'w imap_session \<Rightarrow> 'w imap_session" where
  "handleFetch E tag args s =
     (case im_selected s of
        None \<Rightarrow> writeTagged tag ''BAD'' ''No mailbox selected'' s
      | Some sel \<Rightarrow>
     (case SplitN2 SPC args of
        [p0, p1] \<Rightarrow>
          (case ListMessages (im_messageReader E) (sel_ID sel) (im_store s) of
             (Inl err, w) \<Rightarrow> writeTagged tag ''NO'' ''Error fetching messages'' (s\<lparr>im_store := w\<rparr>)
           | (Inr messages, w) \<Rightarrow>
               writeTagged tag ''OK'' ''FETCH completed''
                 (fetch_loop E (ToUpper p1) 0 messages (s\<lparr>im_store := w\<rparr>)))
      | _ \<Rightarrow> writeTagged tag ''BAD'' ''Syntax: FETCH sequence data-items'' s))"

subsubsection \<open>The other commands\<close>

definition handleStore :: "string \<Rightarrow> string \<Rightarrow> 'w imap_session \<Rightarrow> 'w imap_session" where
  "handleStore tag args s =
     (case im_selected s of
        None \<Rightarrow> writeTagged tag ''BAD'' ''No mailbox selected'' s
      | Some sel \<Rightarrow>
          if sel_ReadOnly sel
          then writeTagged tag ''NO'' ''[READ-ONLY] Cannot store flags in read-only mailbox'' s
          else writeTagged tag ''OK'' ''STORE completed'' s)"

definition handleSearch :: "'w imap_env \<Rightarrow> string \<Rightarrow> string \<Rightarrow> 'w imap_session \<Rightarrow> 'w imap_session" where
  "handleSearch E tag args s =
     (case im_selected s of
        None \<Rightarrow> writeTagged tag ''BAD'' ''No mailbox selected'' s
      | Some sel \<Rightarrow>
          (case ListMessages (im_messageReader E) (sel_ID sel) (im_store s) of
             (Inl err, w) \<Rightarrow> writeTagged tag ''NO'' ''Error searching messages'' (s\<lparr>im_store := w\<rparr>)
           | (Inr messages, w) \<Rightarrow>
               writeTagged tag ''OK'' ''SEARCH completed''
                 (writeLine (''* SEARCH '' @ Join (map (\<lambda>i. fmt_nat (i + 1)) [0..<length messages]) '' '')
                    (s\<lparr>im_store := w\<rparr>))))"

definition handleExpunge :: "string \<Rightarrow> 'w imap_session \<Rightarrow> 'w imap_session" where
  "handleExpunge tag s =
     (case im_selected s of
        None \<Rightarrow> writeTagged tag ''BAD'' ''No mailbox selected'' s
      | Some sel \<Rightarrow>
          if sel_ReadOnly sel then writeTagged tag ''NO'' ''[READ-ONLY] Cannot expunge read-only mailbox'' s
          else writeTagged tag ''OK'' ''EXPUNGE completed'' s)"

definition handleClose :: "'w imap_env \<Rightarrow> string \<Rightarrow> 'w imap_session \<Rightarrow> 'w imap_session" where
  "handleClose E tag s =
     writeTagged tag ''OK'' ''CLOSE completed'' (snd (imap_transition E EventClose (s\<lparr>im_selected := None\<rparr>)))"

definition handleLogout :: "'w imap_env \<Rightarrow> string \<Rightarrow> 'w imap_session \<Rightarrow> 'w imap_session" where
  "handleLogout E tag s =
     writeTagged tag ''OK'' ''LOGOUT completed''
       (writeUntagged ''BYE'' ''gomail-core logging out'' (snd (imap_transition E EventLogout s)))"

definition imap_handleSTARTTLS :: "'w imap_env \<Rightarrow> string \<Rightarrow> 'w imap_session \<Rightarrow> 'w imap_session" where
  "imap_handleSTARTTLS E tag s =
     (if im_isTLS s then writeTagged tag ''NO'' ''Already using TLS'' s
      else case im_tlsCfg E of
        None \<Rightarrow> writeTagged tag ''NO'' ''TLS not available'' s
      | Some tc \<Rightarrow>
          (let s = writeTagged tag ''OK'' ''Begin TLS negotiation now'' s
           in case im_Handshake E tc (im_conn s) of
                (n, None) \<Rightarrow> s\<lparr>im_conn := drop n (im_conn s)\<rparr>
              | (n, Some tlsConn) \<Rightarrow> s\<lparr>im_conn := tlsConn, im_reader := [], im_isTLS := True\<rparr>))"

subsection \<open>The read loop\<close>

definition imap_dispatch ::
    "'w imap_env \<Rightarrow> string \<Rightarrow> string \<Rightarrow> string \<Rightarrow> 'w imap_session \<Rightarrow> 'w imap_session" where
  "imap_dispatch E tag cmd args s =
     (case imap_state s of
        StateNotAuthenticated \<Rightarrow>
          if cmd = ''LOGIN'' then handleLogin E tag args s
          else if cmd = ''STARTTLS'' then imap_handleSTARTTLS E tag s
          else if cmd = ''CAPABILITY'' then handleCapability E tag s
          else if cmd = ''LOGOUT'' then handleLogout E tag s
          else writeTagged tag ''NO'' ''Command not allowed before authentication'' s
      | StateAuthenticated \<Rightarrow>
          if cmd = ''SELECT'' then handleSelect E tag args False s
          else if cmd = ''EXAMINE'' then handleSelect E tag args True s
          else if cmd = ''LIST'' \<or> cmd = ''LSUB'' then handleList E tag args s
          else if cmd = ''CAPABILITY'' then handleCapability E tag s
          else if cmd = ''NOOP'' then writeTagged tag ''OK'' ''NOOP completed'' s
          else if cmd = ''LOGOUT'' then handleLogout E tag s
          else writeTagged tag ''NO'' ''Command not allowed without selected mailbox'' s
      | StateSelected \<Rightarrow>
          if cmd = ''FETCH'' then handleFetch E tag args s
          else if cmd = ''STORE'' then handleStore tag args s
          else if cmd = ''SEARCH'' then handleSearch E tag args s
          else if cmd = ''EXPUNGE'' then handleExpunge tag s
          else if cmd = ''CLOSE'' then handleClose E tag s
          else if cmd = ''SELECT'' then handleSelect E tag args False s
          else if cmd = ''EXAMINE'' then handleSelect E tag args True s
          else if cmd = ''LIST'' then handleList E tag args s
          else if cmd = ''CAPABILITY'' then handleCapability E tag s
          else if cmd = ''NOOP'' then writeTagged tag ''OK'' ''NOOP completed'' s
          else if cmd = ''LOGOUT'' then handleLogout E tag s
          else writeTagged tag ''BAD'' ''Unknown command'' s
      | StateLogout \<Rightarrow> s)"

text \<open>
  One line of input, after its line ending has been cut off; the flag says that the loop ends.
\<close>

definition imap_line :: "'w imap_env \<Rightarrow> string \<Rightarrow> 'w imap_session \<Rightarrow> 'w imap_session \<times> bool" where
  "imap_line E line s =
     (case Cut SPC line of
        (tag, rest, False) \<Rightarrow> (writeLine (line @ '' BAD Invalid command'') s, False)
      | (tag, rest, True) \<Rightarrow>
          (case Cut SPC rest of
             (cmd, args, _) \<Rightarrow>
               (let s = imap_dispatch E tag (ToUpper cmd) args s in (s, imap_state s = StateLogout))))"

lemma write_fields [simp]:
  "im_conn (writeLine l s) = im_conn s" "im_reader (writeLine l s) = im_reader s"
  "im_fsm (writeLine l s) = im_fsm s" "im_isTLS (writeLine l s) = im_isTLS s"
  "im_userID (writeLine l s) = im_userID s" "im_username (writeLine l s) = im_username s"
  "im_selected (writeLine l s) = im_selected s" "im_store (writeLine l s) = im_store s"
  "im_sent (writeLine l s) = im_sent s @ [l @ CRLF]" "imap_state (writeLine l s) = imap_state s"
  by (simp_all add: writeLine_def imap_state_def)

lemma writeTagged_fields [simp]:
  "im_conn (writeTagged t a b s) = im_conn s" "im_reader (writeTagged t a b s) = im_reader s"
  "im_fsm (writeTagged t a b s) = im_fsm s" "im_isTLS (writeTagged t a b s) = im_isTLS s"
  "im_userID (writeTagged t a b s) = im_userID s" "im_username (writeTagged t a b s) = im_username s"
  "im_selected (writeTagged t a b s) = im_selected s" "im_store (writeTagged t a b s) = im_store s"
  "imap_state (writeTagged t a b s) = imap_state s"
  "im_sent (writeTagged t a b s) = im_sent s @ [t @ '' '' @ a @ '' '' @ b @ CRLF]"
  by (simp_all add: writeTagged_def)

lemma writeUntagged_fields [simp]:
  "im_conn (writeUntagged a b s) = im_conn s" "im_reader (writeUntagged a b s) = im_reader s"
  "im_fsm (writeUntagged a b s) = im_fsm s" "im_isTLS (writeUntagged a b s) = im_isTLS s"
  "im_userID (writeUntagged a b s) = im_userID s" "im_username (writeUntagged a b s) = im_username s"
  "im_selected (writeUntagged a b s) = im_selected s" "im_store (writeUntagged a b s) = im_store s"
  "imap_state (writeUntagged a b s) = imap_state s"
  "im_sent (writeUntagged a b s) = im_sent s @ [''* '' @ a @ '' '' @ b @ CRLF]"
  by (simp_all add: writeUntagged_def)

text \<open>The part of the session that the input and the TLS upgrade live in.\<close>

definition io :: "'w imap_session \<Rightarrow> stream \<times> bytes \<times> bool" where
  "io s = (im_conn s, im_reader s, im_isTLS s)"

lemma io_write [simp]:
  "io (writeLine l s) = io s" "io (writeTagged t a b s) = io s" "io (writeUntagged a b s) = io s"
  by (simp_all add: io_def)

lemma io_update [simp]:
  "io (s\<lparr>im_store := w\<rparr>) = io s" "io (s\<lparr>im_selected := x\<rparr>) = io s"
  "io (s\<lparr>im_userID := u\<rparr>) = io s" "io (s\<lparr>im_username := n\<rparr>) = io s" "io (s\<lparr>im_fsm := f\<rparr>) = io s"
  by (simp_all add: io_def)

lemma io_transition [frame]: "imap_transition E ev s = (b, s') \<Longrightarrow> io s' = io s"
  by (auto simp: imap_transition_def split: prod.splits option.splits)

lemma io_snd_transition [simp]: "io (snd (imap_transition E ev s)) = io s"
  using io_transition by (metis prod.collapse)

lemma io_transitionSelect [frame]: "transitionSelect E s = (b, s') \<Longrightarrow> io s' = io s"
  by (auto simp: transitionSelect_def dest: io_transition split: if_splits)

lemma io_fold: "(\<And>x s. io (f x s) = io s) \<Longrightarrow> io (fold f xs s) = io s"
  by (induction xs arbitrary: s) simp_all

lemma io_fetch_loop [simp]: "io (fetch_loop E items i msgs s) = io s"
  by (induction msgs arbitrary: i s) (simp_all split: prod.split)

lemma io_handlers [simp]:
  "io (handleCapability E tag s) = io s" "io (handleLogin E tag args s) = io s"
  "io (handleSelect E tag args ro s) = io s" "io (handleList E tag args s) = io s"
  "io (handleFetch E tag args s) = io s" "io (handleStore tag args s) = io s"
  "io (handleSearch E tag args s) = io s" "io (handleExpunge tag s) = io s"
  "io (handleClose E tag s) = io s" "io (handleLogout E tag s) = io s"
proof -
  show "io (handleCapability E tag s) = io s" by (simp add: handleCapability_def)
  show "io (handleLogin E tag args s) = io s"
    by (auto simp: handleLogin_def Let_def dest: io_transition
        split: list.split option.split prod.split sum.split bool.split)
  show "io (handleSelect E tag args ro s) = io s"
    by (auto simp: handleSelect_def Let_def io_fold dest: io_transitionSelect
        split: prod.split sum.split bool.split)
  show "io (handleList E tag args s) = io s"
    by (auto simp: handleList_def io_fold split: list.split prod.split sum.split)
  show "io (handleFetch E tag args s) = io s"
    by (auto simp: handleFetch_def split: list.split prod.split sum.split option.split)
  show "io (handleStore tag args s) = io s" by (auto simp: handleStore_def split: option.split)
  show "io (handleSearch E tag args s) = io s"
    by (auto simp: handleSearch_def split: prod.split sum.split option.split)
  show "io (handleExpunge tag s) = io s" by (auto simp: handleExpunge_def split: option.split)
  show "io (handleClose E tag s) = io s" by (simp add: handleClose_def)
  show "io (handleLogout E tag s) = io s" by (simp add: handleLogout_def)
qed

lemma imap_handleSTARTTLS_size [size_laws]:
  "im_isTLS (imap_handleSTARTTLS E tag s) = im_isTLS s
     \<and> input_size (im_reader (imap_handleSTARTTLS E tag s)) (im_conn (imap_handleSTARTTLS E tag s))
         \<le> input_size (im_reader s) (im_conn s)
   \<or> \<not> im_isTLS s \<and> im_isTLS (imap_handleSTARTTLS E tag s)"
  by (auto simp: imap_handleSTARTTLS_def Let_def input_size_def stream_size_drop split: option.splits prod.splits)

lemma imap_dispatch_io:
  "imap_dispatch E tag cmd args s = imap_handleSTARTTLS E tag s \<or> io (imap_dispatch E tag cmd args s) = io s"
  by (cases "imap_state s") (simp_all add: imap_dispatch_def)

lemma imap_line_size:
  assumes "imap_line E line s = (s', q)"
  shows "im_isTLS s' = im_isTLS s \<and> input_size (im_reader s') (im_conn s') \<le> input_size (im_reader s) (im_conn s)
     \<or> \<not> im_isTLS s \<and> im_isTLS s'"
proof -
  have "io s' = io s \<or> (\<exists>tag. s' = imap_handleSTARTTLS E tag s)"
    using assms imap_dispatch_io [of E] by (fastforce simp: imap_line_def Let_def split: prod.splits bool.splits)
  then show ?thesis using imap_handleSTARTTLS_size [of E _ s] by (auto simp: io_def)
qed

function imap_loop :: "'w imap_env \<Rightarrow> 'w imap_session \<Rightarrow> 'w imap_session" where
  "imap_loop E s =
     (case ReadString (im_reader s) (im_conn s) of
        (None, buf, evs) \<Rightarrow> s\<lparr>im_reader := buf, im_conn := evs\<rparr>
      | (Some raw, buf, evs) \<Rightarrow>
          (let s = s\<lparr>im_reader := buf, im_conn := evs\<rparr>;
               line = TrimRight raw CRLF
           in if line = [] then imap_loop E s
              else (case imap_line E line s of
                      (s, True) \<Rightarrow> s
                    | (s, False) \<Rightarrow> imap_loop E s)))"
  by pat_completeness auto
termination
  by (relation "measures [\<lambda>(E, s). if im_isTLS s then 0 else 1,
                          \<lambda>(E, s). input_size (im_reader s) (im_conn s)]")
    (auto dest!: ReadString_smaller [OF sym] imap_line_size [OF sym])

declare imap_loop.simps [simp del]

definition imap_Handle :: "'w imap_env \<Rightarrow> 'w imap_session \<Rightarrow> 'w imap_session" where
  "imap_Handle E s =
     imap_loop E (writeUntagged ''OK'' (SMTP_Domain (cfg_SMTP (im_cfg E)) @ '' IMAP4rev1 gomail-core ready'') s)"

end
