(* ===== verification/Imap_Correct.thy ===== *)
theory Imap_Correct
  imports Imap
begin

text \<open>
  What the IMAP session guarantees: the state machine under the documented behaviour of
  \<^verbatim>\<open>looplab/fsm\<close>, who a session is logged in as, which mailbox it has selected, and what the replies
  contain. \<open>imap_reach\<close> is the set of sessions that any input can lead to, with the storage changed
  by others in between.
\<close>

subsection \<open>The state machine\<close>

fun imap_next :: "imap_State \<Rightarrow> IMAPEvent \<Rightarrow> imap_State option" where
  "imap_next StateNotAuthenticated EventLogin = Some StateAuthenticated"
| "imap_next StateAuthenticated EventSelect = Some StateSelected"
| "imap_next StateSelected EventClose = Some StateAuthenticated"
| "imap_next StateLogout e = None"
| "imap_next q EventLogout = Some StateLogout"
| "imap_next q e = None"

lemma fsm_next_imap: "Events f = imap_events \<Longrightarrow> fsm_next f e = imap_next (Current f) e"
  by (cases "Current f"; cases e) (simp_all add: fsm_next_def fsm_dst_def imap_events_def)

definition imap_wf :: "'w imap_session \<Rightarrow> bool" where
  "imap_wf s \<longleftrightarrow> Events (im_fsm s) = imap_events"

definition imap_goto :: "imap_State \<Rightarrow> 'w imap_session \<Rightarrow> 'w imap_session" where
  "imap_goto q s = s\<lparr>im_fsm := (im_fsm s)\<lparr>Current := q\<rparr>\<rparr>"

lemma imap_transition_spec:
  assumes "looplab_contract (im_Event E)" "imap_wf s"
  shows "imap_transition E ev s =
    (case imap_next (imap_state s) ev of None \<Rightarrow> (False, s) | Some q \<Rightarrow> (True, imap_goto q s))"
proof -
  have nxt: "fsm_next (im_fsm s) ev = imap_next (imap_state s) ev"
    using assms(2) by (simp add: imap_wf_def imap_state_def fsm_next_imap)
  show ?thesis
  proof (cases "imap_next (imap_state s) ev")
    case None
    with nxt obtain err where "im_Event E (im_fsm s) ev = (Some err, im_fsm s)"
      using contract_rejects [OF assms(1)] by metis
    with None show ?thesis by (simp add: imap_transition_def)
  next
    case (Some q)
    with nxt have "im_Event E (im_fsm s) ev = (None, (im_fsm s)\<lparr>Current := q\<rparr>)"
      using contract_moves [OF assms(1)] by metis
    with Some show ?thesis by (simp add: imap_transition_def imap_goto_def)
  qed
qed

subsection \<open>Who is logged in, and what is selected\<close>

text \<open>The part of the session that says who is logged in and what is selected.\<close>

definition core :: "'w imap_session \<Rightarrow> (imap_State, IMAPEvent) FSM \<times> uint64 \<times> string \<times> SelectedMailbox option" where
  "core s = (im_fsm s, im_userID s, im_username s, im_selected s)"

lemma core_write [simp]:
  "core (writeLine l s) = core s" "core (writeTagged t a b s) = core s" "core (writeUntagged a b s) = core s"
  by (simp_all add: core_def)

lemma core_update [simp]:
  "core (s\<lparr>im_store := w\<rparr>) = core s" "core (s\<lparr>im_reader := b\<rparr>) = core s" "core (s\<lparr>im_conn := c\<rparr>) = core s"
  "core (s\<lparr>im_isTLS := t\<rparr>) = core s"
  by (simp_all add: core_def)

lemma core_fold: "(\<And>x s. core (f x s) = core s) \<Longrightarrow> core (fold f xs s) = core s"
  by (induction xs arbitrary: s) simp_all

lemma core_fetch_loop [simp]: "core (fetch_loop E items i msgs s) = core s"
  by (induction msgs arbitrary: i s) (simp_all split: prod.split)

lemma core_handlers [simp]:
  "core (handleCapability E tag s) = core s" "core (handleList E tag args s) = core s"
  "core (handleFetch E tag args s) = core s" "core (handleStore tag args s) = core s"
  "core (handleSearch E tag args s) = core s" "core (handleExpunge tag s) = core s"
  "core (imap_handleSTARTTLS E tag s) = core s"
proof -
  show "core (handleCapability E tag s) = core s" by (simp add: handleCapability_def)
  show "core (handleList E tag args s) = core s"
    by (auto simp: handleList_def core_fold split: list.split prod.split sum.split)
  show "core (handleFetch E tag args s) = core s"
    by (auto simp: handleFetch_def split: list.split prod.split sum.split option.split)
  show "core (handleStore tag args s) = core s" by (auto simp: handleStore_def split: option.split)
  show "core (handleSearch E tag args s) = core s"
    by (auto simp: handleSearch_def split: prod.split sum.split option.split)
  show "core (handleExpunge tag s) = core s" by (auto simp: handleExpunge_def split: option.split)
  show "core (imap_handleSTARTTLS E tag s) = core s"
    by (auto simp: imap_handleSTARTTLS_def Let_def split: option.split prod.split)
qed

text \<open>A pair of name and password that the two ports and bcrypt accept, for the user \<open>u\<close>.\<close>

definition login_ok :: "'w imap_env \<Rightarrow> 'w \<Rightarrow> string \<Rightarrow> string \<Rightarrow> uint64 \<Rightarrow> bool" where
  "login_ok E w username password u \<longleftrightarrow>
     (\<exists>localPart domain d w1 user w2. imap_parseAddress username = Some (localPart, domain)
        \<and> FindDomain (im_domainResolver E) domain w = (Inr d, w1)
        \<and> FindUser (im_userAuth E) localPart (Domain_ID d) w1 = (Inr user, w2)
        \<and> imap_checkPassword E password (User_PasswordHash user) \<and> User_ID user = u)"

lemma handleLogin_accepts:
  assumes fsm: "looplab_contract (im_Event E)" and s: "imap_wf s" "imap_state s = StateNotAuthenticated"
    and args: "SplitN2 SPC args = [p0, p1]" "imap_parseAddress (Trim p0 [QUOT]) = Some (localPart, domain)"
    and ports: "FindDomain (im_domainResolver E) domain (im_store s) = (Inr d, w1)"
      "FindUser (im_userAuth E) localPart (Domain_ID d) w1 = (Inr user, w2)"
      "imap_checkPassword E (Trim p1 [QUOT]) (User_PasswordHash user)"
  shows "core (handleLogin E tag args s) = ((im_fsm s)\<lparr>Current := StateAuthenticated\<rparr>, User_ID user, Trim p0 [QUOT], im_selected s)
    \<and> im_store (handleLogin E tag args s) = w2"
proof -
  have "imap_transition E EventLogin (s\<lparr>im_store := w2\<rparr>) = (True, imap_goto StateAuthenticated (s\<lparr>im_store := w2\<rparr>))"
    using imap_transition_spec [OF fsm, of "s\<lparr>im_store := w2\<rparr>" EventLogin] s by (simp add: imap_wf_def imap_state_def)
  then show ?thesis using args ports by (simp add: handleLogin_def imap_goto_def core_def)
qed

lemma handleLogin_cases:
  assumes "looplab_contract (im_Event E)" "imap_wf s" "imap_state s = StateNotAuthenticated"
  obtains (refused) "core (handleLogin E tag args s) = core s"
  | (accepted) p0 p1 u where "SplitN2 SPC args = [p0, p1]"
      "login_ok E (im_store s) (Trim p0 [QUOT]) (Trim p1 [QUOT]) u"
      "core (handleLogin E tag args s) =
         ((im_fsm s)\<lparr>Current := StateAuthenticated\<rparr>, u, Trim p0 [QUOT], im_selected s)"
proof -
  let ?H = "handleLogin E tag args s"
  show ?thesis
  proof (cases "\<exists>p0 p1 lp dn. SplitN2 SPC args = [p0, p1] \<and> imap_parseAddress (Trim p0 [QUOT]) = Some (lp, dn)")
    case False
    then have "core ?H = core s"
      by (auto simp: handleLogin_def Let_def split: list.split option.split)
    then show ?thesis by (rule refused)
  next
    case True
    then obtain p0 p1 lp dn where sp: "SplitN2 SPC args = [p0, p1]"
      and pa: "imap_parseAddress (Trim p0 [QUOT]) = Some (lp, dn)" by blast
    obtain rd w1 where fd: "FindDomain (im_domainResolver E) dn (im_store s) = (rd, w1)" by fastforce
    show ?thesis
    proof (cases rd)
      case (Inl e)
      then have "core ?H = core s" using sp pa fd by (simp add: handleLogin_def)
      then show ?thesis by (rule refused)
    next
      case (Inr d)
      obtain ru w2 where fu: "FindUser (im_userAuth E) lp (Domain_ID d) w1 = (ru, w2)" by fastforce
      show ?thesis
      proof (cases "\<exists>user. ru = Inr user \<and> imap_checkPassword E (Trim p1 [QUOT]) (User_PasswordHash user)")
        case False
        then have "core ?H = core s"
          using sp pa fd Inr fu by (cases ru) (simp_all add: handleLogin_def)
        then show ?thesis by (rule refused)
      next
        case True
        then obtain user where u: "ru = Inr user" "imap_checkPassword E (Trim p1 [QUOT]) (User_PasswordHash user)"
          by blast
        have "core ?H = ((im_fsm s)\<lparr>Current := StateAuthenticated\<rparr>, User_ID user, Trim p0 [QUOT], im_selected s)"
          using handleLogin_accepts [OF assms sp pa] fd Inr fu u by blast
        moreover have "login_ok E (im_store s) (Trim p0 [QUOT]) (Trim p1 [QUOT]) (User_ID user)"
          using pa fd Inr fu u by (auto simp: login_ok_def)
        ultimately show ?thesis using sp by - (rule accepted)
      qed
    qed
  qed
qed

lemma store_fold_write [simp]: "im_store (fold writeLine ls t) = im_store t"
  by (induction ls arbitrary: t) simp_all

lemma handleSelect_accepts:
  assumes fsm: "looplab_contract (im_Event E)" and s: "imap_wf s" "imap_state s \<in> {StateAuthenticated, StateSelected}"
    and name: "Trim (TrimSpace args) [QUOT] = name" "name \<noteq> []"
    and ports: "FindMailbox (im_mailboxReader E) (im_userID s) name (im_store s) = (Inr mb, w1)"
      "ListMessages (im_messageReader E) (Mailbox_ID mb) w1 = (Inr xs, w2)"
  shows "core (handleSelect E tag args ro s) = ((im_fsm s)\<lparr>Current := StateSelected\<rparr>, im_userID s, im_username s,
       Some \<lparr>sel_ID = Mailbox_ID mb, sel_Name = Mailbox_Name mb, sel_UIDValidity = Mailbox_UIDValidity mb,
             sel_UIDNext = Mailbox_UIDNext mb, sel_ReadOnly = ro, sel_SelectedAt = 0\<rparr>)
    \<and> im_store (handleSelect E tag args ro s) = w2"
proof -
  have "transitionSelect E (s\<lparr>im_store := w2\<rparr>) = (True, imap_goto StateSelected (s\<lparr>im_store := w2\<rparr>))"
    using imap_transition_spec [OF fsm, of "s\<lparr>im_store := w2\<rparr>" EventSelect] s
    by (auto simp: transitionSelect_def imap_wf_def imap_state_def imap_goto_def)
  then show ?thesis using name ports by (simp add: handleSelect_def Let_def core_fold) (simp add: core_def imap_goto_def)
qed

lemma handleSelect_cases:
  assumes "looplab_contract (im_Event E)" "imap_wf s" "imap_state s \<in> {StateAuthenticated, StateSelected}"
  obtains (refused) "core (handleSelect E tag args ro s) = core s"
  | (accepted) mb w xs w' where
      "FindMailbox (im_mailboxReader E) (im_userID s) (Trim (TrimSpace args) [QUOT]) (im_store s) = (Inr mb, w)"
      "ListMessages (im_messageReader E) (Mailbox_ID mb) w = (Inr xs, w')"
      "im_store (handleSelect E tag args ro s) = w'"
      "core (handleSelect E tag args ro s) =
         ((im_fsm s)\<lparr>Current := StateSelected\<rparr>, im_userID s, im_username s,
          Some \<lparr>sel_ID = Mailbox_ID mb, sel_Name = Mailbox_Name mb, sel_UIDValidity = Mailbox_UIDValidity mb,
                sel_UIDNext = Mailbox_UIDNext mb, sel_ReadOnly = ro, sel_SelectedAt = 0\<rparr>)"
proof -
  let ?H = "handleSelect E tag args ro s" and ?name = "Trim (TrimSpace args) [QUOT]"
  obtain rf w where ff: "FindMailbox (im_mailboxReader E) (im_userID s) ?name (im_store s) = (rf, w)" by fastforce
  show ?thesis
  proof (cases "?name = [] \<or> (\<exists>e. rf = Inl e)")
    case True
    then have "core ?H = core s" using ff by (auto simp: handleSelect_def Let_def)
    then show ?thesis by (rule refused)
  next
    case False
    then obtain mb where mb: "rf = Inr mb" "?name \<noteq> []" by (cases rf) auto
    obtain rl w' where ll: "ListMessages (im_messageReader E) (Mailbox_ID mb) w = (rl, w')" by fastforce
    show ?thesis
    proof (cases rl)
      case (Inl e)
      then have "core ?H = core s" using ff mb ll by (simp add: handleSelect_def Let_def)
      then show ?thesis by (rule refused)
    next
      case (Inr xs)
      then show ?thesis
        using handleSelect_accepts [OF assms refl mb(2), of mb w xs w' tag ro] ff mb ll Inr
        by - (rule accepted, auto)
    qed
  qed
qed

text \<open>Two lines take a client with the right password to its mailbox.\<close>

lemma imap_login_select:
  assumes fsm: "looplab_contract (im_Event E)" and s: "imap_wf s" "imap_state s = StateNotAuthenticated"
    and tags: "SPC \<notin> set tag1" "SPC \<notin> set tag2"
    and args: "SPC \<notin> set p0" "imap_parseAddress (Trim p0 [QUOT]) = Some (localPart, domain)"
    and login: "FindDomain (im_domainResolver E) domain (im_store s) = (Inr d, w1)"
      "FindUser (im_userAuth E) localPart (Domain_ID d) w1 = (Inr user, w2)"
      "imap_checkPassword E (Trim p1 [QUOT]) (User_PasswordHash user)"
    and name: "Trim (TrimSpace args) [QUOT] = name" "name \<noteq> []"
    and select: "FindMailbox (im_mailboxReader E) (User_ID user) name w2 = (Inr mb, w3)"
      "ListMessages (im_messageReader E) (Mailbox_ID mb) w3 = (Inr xs, w4)"
    and t: "imap_line E (tag1 @ '' LOGIN '' @ p0 @ '' '' @ p1) s = (t, q)" "imap_line E (tag2 @ '' SELECT '' @ args) t = (t', q')"
  shows "imap_state t' = StateSelected \<and> im_userID t' = User_ID user \<and> im_store t' = w4
    \<and> (\<exists>sel. im_selected t' = Some sel \<and> sel_ID sel = Mailbox_ID mb)"
proof -
  have up: "ToUpper ''LOGIN'' = ''LOGIN''" "ToUpper ''SELECT'' = ''SELECT''" by code_simp+
  have cut: "Cut SPC (tag1 @ '' LOGIN '' @ p0 @ '' '' @ p1) = (tag1, ''LOGIN '' @ p0 @ '' '' @ p1, True)"
    "Cut SPC (''LOGIN '' @ p0 @ '' '' @ p1) = (''LOGIN'', p0 @ '' '' @ p1, True)"
    "Cut SPC (tag2 @ '' SELECT '' @ args) = (tag2, ''SELECT '' @ args, True)"
    "Cut SPC (''SELECT '' @ args) = (''SELECT'', args, True)"
    using Cut_found [OF tags(1), of "''LOGIN '' @ p0 @ '' '' @ p1"] Cut_found [OF tags(2), of "''SELECT '' @ args"]
      Cut_found [of SPC "''LOGIN''" "p0 @ '' '' @ p1"] Cut_found [of SPC "''SELECT''" args] by simp_all
  have two: "SplitN2 SPC (p0 @ '' '' @ p1) = [p0, p1]" using SplitN2_found [OF args(1)] by simp
  have "t = handleLogin E tag1 (p0 @ '' '' @ p1) s"
    using t(1) s(2) by (simp only: imap_line_def cut up Let_def imap_dispatch_def prod.case imap_State.case if_True bool.case prod.inject simp_thms)
  then have t1: "core t = ((im_fsm s)\<lparr>Current := StateAuthenticated\<rparr>, User_ID user, Trim p0 [QUOT], im_selected s)" "im_store t = w2"
    using handleLogin_accepts [OF fsm s two args(2) login] by simp_all
  then have t2: "imap_wf t" "imap_state t = StateAuthenticated" "im_userID t = User_ID user"
    using s(1) by (simp_all add: core_def imap_wf_def imap_state_def)
  have "t' = handleSelect E tag2 args False t"
    using t(2) t2(2) by (simp only: imap_line_def cut up Let_def imap_dispatch_def prod.case imap_State.case if_True bool.case prod.inject simp_thms)
  then show ?thesis
    using handleSelect_accepts [OF fsm t2(1) _ name, of mb w3 xs w4 tag2 False] t1(2) t2(2,3) select
    by (simp add: core_def imap_state_def)
qed

subsection \<open>The invariant of a session\<close>

definition imap_inv :: "'w imap_session \<Rightarrow> bool" where
  "imap_inv s \<longleftrightarrow> imap_wf s
     \<and> (imap_state s = StateSelected \<longrightarrow> im_selected s \<noteq> None)
     \<and> (imap_state s \<in> {StateNotAuthenticated, StateAuthenticated} \<longrightarrow> im_selected s = None)"

lemma imap_inv_core: "core s = core s' \<Longrightarrow> imap_inv s = imap_inv s'"
  by (simp add: imap_inv_def imap_wf_def imap_state_def core_def)

lemma imap_inv_newSession: "imap_inv (imap_newSession c t w)"
  by (simp add: imap_inv_def imap_wf_def imap_state_def imap_newSession_def)

lemma handleLogin_inv:
  assumes "looplab_contract (im_Event E)" "imap_inv s" "imap_state s = StateNotAuthenticated"
  shows "imap_inv (handleLogin E tag args s)"
proof -
  have wf: "imap_wf s" using assms(2) by (simp add: imap_inv_def)
  show ?thesis
  proof (rule handleLogin_cases [OF assms(1) wf assms(3), of tag args])
    assume "core (handleLogin E tag args s) = core s"
    then show ?thesis using assms(2) imap_inv_core by blast
  next
    fix p0 p1 u
    assume "login_ok E (im_store s) (Trim p0 [QUOT]) (Trim p1 [QUOT]) u"
      and "core (handleLogin E tag args s) = ((im_fsm s)\<lparr>Current := StateAuthenticated\<rparr>, u, Trim p0 [QUOT], im_selected s)"
    then show ?thesis
      using assms(2,3) by (auto simp: imap_inv_def imap_wf_def imap_state_def core_def)
  qed
qed

lemma handleSelect_inv:
  assumes "looplab_contract (im_Event E)" "imap_inv s" "imap_state s \<in> {StateAuthenticated, StateSelected}"
  shows "imap_inv (handleSelect E tag args ro s)"
proof -
  have wf: "imap_wf s" using assms(2) by (simp add: imap_inv_def)
  show ?thesis
  proof (rule handleSelect_cases [OF assms(1) wf assms(3), of tag args ro])
    assume "core (handleSelect E tag args ro s) = core s"
    then show ?thesis using assms(2) imap_inv_core by blast
  next
    fix mb
    assume "core (handleSelect E tag args ro s) =
         ((im_fsm s)\<lparr>Current := StateSelected\<rparr>, im_userID s, im_username s,
          Some \<lparr>sel_ID = Mailbox_ID mb, sel_Name = Mailbox_Name mb, sel_UIDValidity = Mailbox_UIDValidity mb,
                sel_UIDNext = Mailbox_UIDNext mb, sel_ReadOnly = ro, sel_SelectedAt = 0\<rparr>)"
    then show ?thesis
      using assms(2,3) by (auto simp: imap_inv_def imap_wf_def imap_state_def core_def)
  qed
qed

lemma handleClose_core:
  assumes "looplab_contract (im_Event E)" "imap_wf s" "imap_state s = StateSelected"
  shows "core (handleClose E tag s) = ((im_fsm s)\<lparr>Current := StateAuthenticated\<rparr>, im_userID s, im_username s, None)"
  using imap_transition_spec [OF assms(1), of "s\<lparr>im_selected := None\<rparr>" EventClose] assms(2,3)
  by (simp add: handleClose_def imap_wf_def imap_state_def imap_goto_def core_def)

lemma handleLogout_core:
  assumes "looplab_contract (im_Event E)" "imap_wf s" "imap_state s \<noteq> StateLogout"
  shows "core (handleLogout E tag s) = ((im_fsm s)\<lparr>Current := StateLogout\<rparr>, im_userID s, im_username s, im_selected s)"
  using imap_transition_spec [OF assms(1,2), of EventLogout] assms(3)
  by (cases "imap_state s") (simp_all add: handleLogout_def imap_goto_def core_def)

lemma imap_dispatch_inv:
  assumes fsm: "looplab_contract (im_Event E)" and inv: "imap_inv s"
  shows "imap_inv (imap_dispatch E tag cmd args s)"
proof -
  have wf: "imap_wf s" using inv by (simp add: imap_inv_def)
  have same: "imap_inv s'" if "core s' = core s" for s' :: "'a imap_session" using inv imap_inv_core [OF that] by simp
  have out: "imap_inv (handleLogout E tag s)" if "imap_state s \<noteq> StateLogout"
    using handleLogout_core [OF fsm wf that, of tag] wf by (simp add: imap_inv_def imap_wf_def imap_state_def core_def)
  have close: "imap_inv (handleClose E tag s)" if "imap_state s = StateSelected"
    using handleClose_core [OF fsm wf that, of tag] inv that
    by (simp add: imap_inv_def imap_wf_def imap_state_def core_def)
  show ?thesis
    using handleLogin_inv [OF fsm inv] handleSelect_inv [OF fsm inv] out close same inv
    by (cases "imap_state s") (simp_all add: imap_dispatch_def)
qed

text \<open>Only LOGIN changes who a session is, and no command but LOGIN leads past the login.\<close>

lemma imap_dispatch_identity:
  assumes "looplab_contract (im_Event E)" "imap_wf s"
    and "imap_state (imap_dispatch E tag cmd args s) \<in> {StateAuthenticated, StateSelected}"
    and "\<not> (imap_state s = StateNotAuthenticated \<and> cmd = ''LOGIN'')"
  shows "imap_state s \<in> {StateAuthenticated, StateSelected}
    \<and> im_userID (imap_dispatch E tag cmd args s) = im_userID s \<and> im_username (imap_dispatch E tag cmd args s) = im_username s"
proof -
  define ok where "ok t \<longleftrightarrow> (imap_state t \<in> {StateAuthenticated, StateSelected} \<longrightarrow>
    imap_state s \<in> {StateAuthenticated, StateSelected} \<and> im_userID t = im_userID s \<and> im_username t = im_username s)"
    for t :: "'a imap_session"
  have same: "ok t" if "core t = core s" for t
    using that by (simp add: core_def imap_state_def ok_def)
  have out: "ok (handleLogout E tag s)" if "imap_state s \<noteq> StateLogout"
    using handleLogout_core [OF assms(1,2) that, of tag] by (simp add: core_def imap_state_def ok_def)
  have close: "ok (handleClose E tag s)" if "imap_state s = StateSelected"
    using handleClose_core [OF assms(1,2) that, of tag] that by (simp add: core_def ok_def)
  have sel: "ok (handleSelect E tag args ro s)" if "imap_state s \<in> {StateAuthenticated, StateSelected}" for ro
    by (rule handleSelect_cases [OF assms(1,2) that, of tag args ro]) (use that in \<open>simp_all add: core_def ok_def imap_state_def\<close>)
  have "ok (imap_dispatch E tag cmd args s)"
    using assms(4) out close sel same by (cases "imap_state s") (simp_all add: imap_dispatch_def)
  then show ?thesis using assms(3) unfolding ok_def by blast
qed

lemma imap_line_inv:
  assumes "looplab_contract (im_Event E)" "imap_inv s" "imap_line E line s = (s', q)"
  shows "imap_inv s'"
  using assms(3) imap_dispatch_inv [OF assms(1,2)] imap_inv_core [of s "writeLine (line @ '' BAD Invalid command'') s"] assms(2)
  by (auto simp: imap_line_def Let_def split: prod.splits bool.splits)

subsection \<open>The sessions that input can lead to\<close>

inductive imap_reach :: "'w imap_env \<Rightarrow> ('w \<Rightarrow> 'w \<Rightarrow> bool) \<Rightarrow> string list \<Rightarrow> 'w imap_session \<Rightarrow> bool"
  for E :: "'w imap_env" and R :: "'w \<Rightarrow> 'w \<Rightarrow> bool" where
  greeted: "imap_reach E R [] (writeUntagged ''OK'' (SMTP_Domain (cfg_SMTP (im_cfg E)) @ '' IMAP4rev1 gomail-core ready'')
      (imap_newSession c t w))"
| received: "imap_reach E R ls s \<Longrightarrow> imap_reach E R ls (s\<lparr>im_reader := b, im_conn := c\<rparr>)"
| handled: "imap_reach E R ls s \<Longrightarrow> imap_line E line s = (s', q) \<Longrightarrow> imap_reach E R (ls @ [line]) s'"
| others: "imap_reach E R ls s \<Longrightarrow> R (im_store s) w \<Longrightarrow> imap_reach E R ls (s\<lparr>im_store := w\<rparr>)"

lemma imap_loop_reach: "imap_reach E R ls s \<Longrightarrow> \<exists>ls'. imap_reach E R ls' (imap_loop E s)"
proof (induction E s arbitrary: ls rule: imap_loop.induct)
  case (1 E s)
  obtain r buf evs where rd: "ReadString (im_reader s) (im_conn s) = (r, buf, evs)"
    by (metis prod_cases3)
  let ?s1 = "s\<lparr>im_reader := buf, im_conn := evs\<rparr>"
  have s1: "imap_reach E R ls ?s1" using "1.prems" by (rule imap_reach.received)
  show ?case
  proof (cases r)
    case None
    with rd s1 show ?thesis by (auto simp: imap_loop.simps [of E s])
  next
    case (Some raw)
    let ?line = "TrimRight raw CRLF"
    obtain s2 q where d: "imap_line E ?line ?s1 = (s2, q)" by fastforce
    have s2: "imap_reach E R (ls @ [?line]) s2" by (rule imap_reach.handled [OF s1 d])
    show ?thesis
    proof (cases "?line = []")
      case True
      then show ?thesis
        using "1.IH"(1) [OF rd [symmetric] Some refl refl refl True s1] rd Some
        by (simp add: imap_loop.simps [of E s])
    next
      case False
      then show ?thesis
        using "1.IH"(2) [OF rd [symmetric] Some refl refl refl False d [symmetric] _ s2] rd Some d s2
        by (cases q) (auto simp: imap_loop.simps [of E s])
    qed
  qed
qed

lemma imap_reach_inv:
  assumes "imap_reach E R ls s" "looplab_contract (im_Event E)"
  shows "imap_inv s"
  using assms(1)
proof induction
  case (greeted c t w)
  show ?case
    by (rule imap_inv_core [THEN iffD2, OF _ imap_inv_newSession]) (rule core_write)
next
  case (received ls s c b)
  then show ?case using imap_inv_core [of "s\<lparr>im_reader := b, im_conn := c\<rparr>" s] by simp
next
  case (handled ls s line s' q)
  then show ?case using imap_line_inv [OF assms(2)] by blast
next
  case (others ls s w)
  then show ?case using imap_inv_core [of "s\<lparr>im_store := w\<rparr>" s] by simp
qed

subsection \<open>The selected mailbox belongs to the user\<close>

definition sel_owned :: "('w \<Rightarrow> uint64 \<Rightarrow> uint64 \<Rightarrow> bool) \<Rightarrow> 'w imap_session \<Rightarrow> bool" where
  "sel_owned owner s \<longleftrightarrow> (\<forall>sel. im_selected s = Some sel \<longrightarrow> owner (im_store s) (sel_ID sel) (im_userID s))"

lemma sel_owned_core:
  "core s' = core s \<Longrightarrow> owner (im_store s') = owner (im_store s) \<Longrightarrow> sel_owned owner s' = sel_owned owner s"
  by (simp add: sel_owned_def core_def)

definition uses_ports ::
    "'w imap_env \<Rightarrow> 'w MailboxReader \<Rightarrow> 'w MessageReader \<Rightarrow> 'w DomainResolver \<Rightarrow> 'w UserAuthenticator \<Rightarrow> bool" where
  "uses_ports E mbx msg doms usrs \<longleftrightarrow> im_mailboxReader E = mbx \<and> im_messageReader E = msg
     \<and> im_domainResolver E = doms \<and> im_userAuth E = usrs"

lemma store_fold_list [simp]:
  "im_store (fold (\<lambda>mb. if f mb then writeLine (g mb) else id) ms t) = im_store t"
  by (induction ms arbitrary: t) simp_all

lemma store_transition [simp]: "im_store (snd (imap_transition E ev s)) = im_store s"
  by (simp add: imap_transition_def split: prod.split option.split)

lemma store_transitionD: "imap_transition E ev s = (b, s') \<Longrightarrow> im_store s' = im_store s"
  by (metis store_transition snd_conv)

lemma store_transitionSelectD: "transitionSelect E s = (b, s') \<Longrightarrow> im_store s' = im_store s"
  by (auto simp: transitionSelect_def dest: store_transitionD split: if_splits)

context quiet_ports
begin

lemmas keepsD = quiet_find quiet_list quiet_messages quiet_body quiet_domain quiet_user

lemma fetch_loop_keeps:
  assumes "im_messageReader E = msg"
  shows "view (im_store (fetch_loop E items i ms s)) = view (im_store s)"
proof (induction ms arbitrary: i s)
  case (Cons m ms)
  obtain l w where fl: "fetch_line E items (i + 1) m (im_store s) = (l, w)" by fastforce
  have "view w = view (im_store s)"
    using fl by (auto simp: fetch_line_def fetch_body_def Let_def assms dest!: keepsD(4)
        split: prod.splits if_splits sum.splits option.splits)
  then show ?case using Cons fl by simp
qed simp

lemma handlers_keep:
  assumes "uses_ports E mbx msg doms usrs"
  shows "view (im_store (handleCapability E tag s)) = view (im_store s)"
    "view (im_store (handleLogin E tag args s)) = view (im_store s)"
    "view (im_store (handleSelect E tag args ro s)) = view (im_store s)"
    "view (im_store (handleList E tag args s)) = view (im_store s)"
    "view (im_store (handleFetch E tag args s)) = view (im_store s)"
    "view (im_store (handleStore tag args s)) = view (im_store s)"
    "view (im_store (handleSearch E tag args s)) = view (im_store s)"
    "view (im_store (handleExpunge tag s)) = view (im_store s)"
    "view (im_store (handleClose E tag s)) = view (im_store s)"
    "view (im_store (handleLogout E tag s)) = view (im_store s)"
    "view (im_store (imap_handleSTARTTLS E tag s)) = view (im_store s)"
proof -
  have P: "im_mailboxReader E = mbx" "im_messageReader E = msg" "im_domainResolver E = doms" "im_userAuth E = usrs"
    using assms by (simp_all add: uses_ports_def)
  show "view (im_store (handleCapability E tag s)) = view (im_store s)" by (simp add: handleCapability_def)
  show "view (im_store (handleLogin E tag args s)) = view (im_store s)"
    by (auto simp: handleLogin_def Let_def P dest!: keepsD store_transitionD
        split: list.split option.split prod.split sum.split bool.split)
  show "view (im_store (handleSelect E tag args ro s)) = view (im_store s)"
    by (auto simp: handleSelect_def Let_def P dest!: keepsD store_transitionSelectD
        split: prod.split sum.split bool.split)
  show "view (im_store (handleList E tag args s)) = view (im_store s)"
    by (auto simp: handleList_def P dest!: keepsD split: list.split prod.split sum.split)
  show "view (im_store (handleFetch E tag args s)) = view (im_store s)"
    by (auto simp: handleFetch_def P fetch_loop_keeps dest!: keepsD
        split: list.split prod.split sum.split option.split)
  show "view (im_store (handleStore tag args s)) = view (im_store s)" by (auto simp: handleStore_def split: option.split)
  show "view (im_store (handleSearch E tag args s)) = view (im_store s)"
    by (auto simp: handleSearch_def P dest!: keepsD split: prod.split sum.split option.split)
  show "view (im_store (handleExpunge tag s)) = view (im_store s)" by (auto simp: handleExpunge_def split: option.split)
  show "view (im_store (handleClose E tag s)) = view (im_store s)" by (simp add: handleClose_def)
  show "view (im_store (handleLogout E tag s)) = view (im_store s)" by (simp add: handleLogout_def)
  show "view (im_store (imap_handleSTARTTLS E tag s)) = view (im_store s)"
    by (auto simp: imap_handleSTARTTLS_def Let_def split: option.split prod.split)
qed

lemma dispatch_keeps:
  assumes "uses_ports E mbx msg doms usrs"
  shows "view (im_store (imap_dispatch E tag cmd args s)) = view (im_store s)"
  using handlers_keep [OF assms] by (cases "imap_state s") (simp_all add: imap_dispatch_def)

end

text \<open>
  Among the lines that a session past the login has handled is the LOGIN that it owes its name to: the
  name is an account of the directory, and bcrypt accepted the password of that line for it.
\<close>

definition login_line :: "string \<Rightarrow> string \<Rightarrow> string \<Rightarrow> bool" where
  "login_line line username password \<longleftrightarrow>
     (\<exists>tag rest cmd args more p0 p1. Cut SPC line = (tag, rest, True) \<and> Cut SPC rest = (cmd, args, more)
        \<and> ToUpper cmd = ''LOGIN'' \<and> SplitN2 SPC args = [p0, p1] \<and> username = Trim p0 [QUOT] \<and> password = Trim p1 [QUOT])"

definition logged_in ::
    "('w \<Rightarrow> string \<Rightarrow> string \<Rightarrow> User \<Rightarrow> bool) \<Rightarrow> 'w imap_env \<Rightarrow> string list \<Rightarrow> 'w imap_session \<Rightarrow> bool" where
  "logged_in account E ls s \<longleftrightarrow> (imap_state s \<in> {StateAuthenticated, StateSelected} \<longrightarrow>
     (\<exists>line password n dn u. line \<in> set ls \<and> login_line line (im_username s) password
        \<and> imap_parseAddress (im_username s) = Some (n, dn) \<and> account (im_store s) n dn u
        \<and> imap_checkPassword E password (User_PasswordHash u) \<and> im_userID s = User_ID u))"

lemma logged_in_mono:
  assumes "logged_in account E ls s" "set ls \<subseteq> set ls'" "\<And>n dn u. account (im_store s) n dn u \<Longrightarrow> account (im_store s') n dn u"
    and "imap_state s' \<in> {StateAuthenticated, StateSelected} \<Longrightarrow> imap_state s \<in> {StateAuthenticated, StateSelected}
      \<and> im_userID s' = im_userID s \<and> im_username s' = im_username s"
  shows "logged_in account E ls' s'"
  using assms unfolding logged_in_def by (metis subsetD)

context account_reader
begin

lemma owner_kept:
  assumes "uses_ports E mbx msg doms usrs"
  shows "owner (im_store (imap_dispatch E tag cmd args s)) = owner (im_store s)"
    "account (im_store (imap_dispatch E tag cmd args s)) = account (im_store s)"
  using quiet.dispatch_keeps [OF assms, of tag cmd args s] by simp_all

lemma handleSelect_owned:
  assumes "uses_ports E mbx msg doms usrs" "looplab_contract (im_Event E)" "imap_inv s" "sel_owned owner s"
    and "imap_state s \<in> {StateAuthenticated, StateSelected}"
  shows "sel_owned owner (handleSelect E tag args ro s)"
proof -
  have wf: "imap_wf s" using assms(3) by (simp add: imap_inv_def)
  have keep: "owner (im_store (handleSelect E tag args ro s)) = owner (im_store s)"
    using quiet.handlers_keep(3) [OF assms(1), of tag args ro s] by simp
  show ?thesis
  proof (rule handleSelect_cases [OF assms(2) wf assms(5), of tag args ro])
    assume "core (handleSelect E tag args ro s) = core s"
    then show ?thesis using keep assms(4) sel_owned_core by blast
  next
    fix mb w xs w'
    assume f: "FindMailbox (im_mailboxReader E) (im_userID s) (Trim (TrimSpace args) [QUOT]) (im_store s) = (Inr mb, w)"
      and c: "core (handleSelect E tag args ro s) =
         ((im_fsm s)\<lparr>Current := StateSelected\<rparr>, im_userID s, im_username s,
          Some \<lparr>sel_ID = Mailbox_ID mb, sel_Name = Mailbox_Name mb, sel_UIDValidity = Mailbox_UIDValidity mb,
                sel_UIDNext = Mailbox_UIDNext mb, sel_ReadOnly = ro, sel_SelectedAt = 0\<rparr>)"
    have "owner (im_store s) (Mailbox_ID mb) (im_userID s)"
      using find_owned f assms(1) by (auto simp: uses_ports_def)
    then show ?thesis using c keep by (auto simp: sel_owned_def core_def)
  qed
qed

lemma dispatch_owned:
  assumes U: "uses_ports E mbx msg doms usrs" and fsm: "looplab_contract (im_Event E)"
    and inv: "imap_inv s" and own: "sel_owned owner s"
  shows "sel_owned owner (imap_dispatch E tag cmd args s)"
proof -
  have wf: "imap_wf s" using inv by (simp add: imap_inv_def)
  have same: "sel_owned owner s'" if "core s' = core s" "owner (im_store s') = owner (im_store s)" for s'
    using own sel_owned_core [OF that] by simp
  note kept = quiet.handlers_keep [OF U, unfolded prod.inject, THEN conjunct1]
  have login: "sel_owned owner (handleLogin E tag args s)" if "imap_state s = StateNotAuthenticated"
  proof (rule handleLogin_cases [OF fsm wf that, of tag args])
    assume "core (handleLogin E tag args s) = core s"
    then show ?thesis using same kept(2) by blast
  next
    fix p0 p1 u
    assume "core (handleLogin E tag args s) = ((im_fsm s)\<lparr>Current := StateAuthenticated\<rparr>, u, Trim p0 [QUOT], im_selected s)"
    then show ?thesis using inv that by (simp add: sel_owned_def core_def imap_inv_def)
  qed
  have out: "sel_owned owner (handleLogout E tag s)" if "imap_state s \<noteq> StateLogout"
    using handleLogout_core [OF fsm wf that, of tag] own kept(10) [of tag s]
    by (simp add: sel_owned_def core_def)
  have close: "sel_owned owner (handleClose E tag s)" if "imap_state s = StateSelected"
    using handleClose_core [OF fsm wf that, of tag] by (simp add: sel_owned_def core_def)
  show ?thesis
    using login out close own same handleSelect_owned [OF U fsm inv own] kept
    by (cases "imap_state s") (simp_all add: imap_dispatch_def)
qed

lemma imap_reach_owned:
  assumes "imap_reach E R ls s" and U: "uses_ports E mbx msg doms usrs" and fsm: "looplab_contract (im_Event E)"
    and R: "\<And>w w' b u. R w w' \<Longrightarrow> owner w b u \<Longrightarrow> owner w' b u"
  shows "sel_owned owner s"
  using assms(1)
proof induction
  case (greeted c t w)
  show ?case by (simp add: sel_owned_def imap_newSession_def)
next
  case (received ls s c b)
  then show ?case by (simp add: sel_owned_def)
next
  case (handled ls s line s' q)
  have "imap_inv s" using handled(1) fsm by (rule imap_reach_inv)
  then show ?case
    using handled(2,3) dispatch_owned [OF U fsm] sel_owned_core [of "writeLine _ s" s owner]
    by (auto simp: imap_line_def Let_def split: prod.splits bool.splits)
next
  case (others ls s w)
  then show ?case using R by (simp add: sel_owned_def)
qed

lemma handleLogin_logged_in:
  assumes U: "uses_ports E mbx msg doms usrs" and fsm: "looplab_contract (im_Event E)" and wf: "imap_wf s"
    and st: "imap_state s = StateNotAuthenticated"
    and line: "\<And>p0 p1. SplitN2 SPC args = [p0, p1] \<Longrightarrow> login_line line (Trim p0 [QUOT]) (Trim p1 [QUOT])"
  shows "logged_in account E (ls @ [line]) (handleLogin E tag args s)"
proof (rule handleLogin_cases [OF fsm wf st, of tag args])
  assume "core (handleLogin E tag args s) = core s"
  then show ?thesis using st by (simp add: core_def imap_state_def logged_in_def)
next
  fix p0 p1 u
  assume ok: "login_ok E (im_store s) (Trim p0 [QUOT]) (Trim p1 [QUOT]) u" and sp: "SplitN2 SPC args = [p0, p1]"
    and c: "core (handleLogin E tag args s) = ((im_fsm s)\<lparr>Current := StateAuthenticated\<rparr>, u, Trim p0 [QUOT], im_selected s)"
  from ok obtain n dn d w1 user w2 where h: "imap_parseAddress (Trim p0 [QUOT]) = Some (n, dn)"
    "FindDomain doms dn (im_store s) = (Inr d, w1)" "FindUser usrs n (Domain_ID d) w1 = (Inr user, w2)"
    "imap_checkPassword E (Trim p1 [QUOT]) (User_PasswordHash user)" "User_ID user = u"
    using U by (auto simp: login_ok_def uses_ports_def)
  have "account (im_store (handleLogin E tag args s)) n dn user"
    using resolved [OF h(2,3)] quiet.quiet_domain [OF h(2)] quiet.quiet_user [OF h(3)]
      quiet.handlers_keep(2) [OF U, of tag args s] by simp
  moreover have "im_username (handleLogin E tag args s) = Trim p0 [QUOT]" "im_userID (handleLogin E tag args s) = u"
    using c by (simp_all add: core_def)
  ultimately show ?thesis using line [OF sp] h(1,4,5) unfolding logged_in_def by (metis in_set_conv_decomp)
qed

lemma imap_line_logged_in:
  assumes U: "uses_ports E mbx msg doms usrs" and fsm: "looplab_contract (im_Event E)" and wf: "imap_wf s"
    and inv: "logged_in account E ls s" and l: "imap_line E line s = (s', q)"
  shows "logged_in account E (ls @ [line]) s'"
proof -
  obtain tag rest f where cut: "Cut SPC line = (tag, rest, f)" by (metis prod_cases3)
  obtain cmd args more where cut2: "Cut SPC rest = (cmd, args, more)" by (metis prod_cases3)
  show ?thesis
  proof (cases f)
    case False
    then have "s' = writeLine (line @ '' BAD Invalid command'') s" using l cut by (simp add: imap_line_def)
    then show ?thesis by (intro logged_in_mono [OF inv]) auto
  next
    case True
    then have s': "s' = imap_dispatch E tag (ToUpper cmd) args s" using l cut cut2 by (simp add: imap_line_def Let_def)
    show ?thesis
    proof (cases "imap_state s = StateNotAuthenticated \<and> ToUpper cmd = ''LOGIN''")
      case login: True
      have "login_line line (Trim p0 [QUOT]) (Trim p1 [QUOT])" if "SplitN2 SPC args = [p0, p1]" for p0 p1
        using that cut cut2 True login unfolding login_line_def by auto
      then show ?thesis
        using handleLogin_logged_in [OF U fsm wf] login s' by (simp add: imap_dispatch_def)
    next
      case False
      show ?thesis
        using imap_dispatch_identity [OF fsm wf, of tag "ToUpper cmd" args] False owner_kept(2) [OF U, of tag "ToUpper cmd" args s]
        unfolding s' by (intro logged_in_mono [OF inv]) auto
    qed
  qed
qed

lemma imap_reach_logged_in:
  assumes "imap_reach E R ls s" and U: "uses_ports E mbx msg doms usrs" and fsm: "looplab_contract (im_Event E)"
    and R: "\<And>w w' n dn u. R w w' \<Longrightarrow> account w n dn u \<Longrightarrow> account w' n dn u"
  shows "logged_in account E ls s"
  using assms(1)
proof induction
  case (greeted c t w)
  show ?case by (simp add: logged_in_def imap_newSession_def imap_state_def)
next
  case (received ls s c b)
  then show ?case by (simp add: logged_in_def imap_state_def)
next
  case (handled ls s line s' q)
  have "imap_wf s" using imap_reach_inv [OF handled(1) fsm] by (simp add: imap_inv_def)
  then show ?case using imap_line_logged_in [OF U fsm] handled by blast
next
  case (others ls s w)
  then show ?case using R by (intro logged_in_mono [OF others.IH]) (auto simp: imap_state_def)
qed

lemma fetched_owned:
  assumes "imap_reach E R ls s" "uses_ports E mbx msg doms usrs" "looplab_contract (im_Event E)"
    and "\<And>w w' b u. R w w' \<Longrightarrow> owner w b u \<Longrightarrow> owner w' b u"
    and "im_selected s = Some sel" "ListMessages (im_messageReader E) (sel_ID sel) (im_store s) = (Inr xs, w)"
    and "x \<in> set xs"
  shows "owner (im_store s) (Message_MailboxID x) (im_userID s)"
proof -
  have "owner (im_store s) (sel_ID sel) (im_userID s)"
    using imap_reach_owned [OF assms(1,2,3,4)] assms(5) by (auto simp: sel_owned_def)
  then show ?thesis using messages_inside assms(2,6,7) by (auto simp: uses_ports_def)
qed

end

subsection \<open>The replies\<close>

text \<open>Some untagged lines, as they go to the client.\<close>

definition untagged_ext :: "'w imap_session \<Rightarrow> 'w imap_session \<Rightarrow> bool" where
  "untagged_ext s t \<longleftrightarrow> (\<exists>mid. im_sent t = im_sent s @ mid \<and> (\<forall>l \<in> set mid. HasPrefix l ''* ''))"

text \<open>Untagged lines, then one line with the tag of the command and a status (RFC 3501, section 7).\<close>

definition replied :: "string \<Rightarrow> 'w imap_session \<Rightarrow> 'w imap_session \<Rightarrow> bool" where
  "replied tag s t \<longleftrightarrow>
     (\<exists>mid status text_of. im_sent t = im_sent s @ mid @ [tag @ '' '' @ status @ '' '' @ text_of @ CRLF]
        \<and> status \<in> {''OK'', ''NO'', ''BAD''} \<and> (\<forall>l \<in> set mid. HasPrefix l ''* ''))"

lemma untagged_refl [simp]: "untagged_ext s s"
  by (simp add: untagged_ext_def)

lemma untagged_same: "im_sent t = im_sent u \<Longrightarrow> untagged_ext s t = untagged_ext s u"
  by (simp add: untagged_ext_def)

lemma untagged_fields [simp]:
  "untagged_ext s (t\<lparr>im_store := w\<rparr>) = untagged_ext s t" "untagged_ext s (t\<lparr>im_selected := x\<rparr>) = untagged_ext s t"
  "untagged_ext s (t\<lparr>im_userID := u\<rparr>) = untagged_ext s t" "untagged_ext s (t\<lparr>im_username := n\<rparr>) = untagged_ext s t"
  "untagged_ext (s\<lparr>im_store := w\<rparr>) t = untagged_ext s t" "untagged_ext (s\<lparr>im_selected := x\<rparr>) t = untagged_ext s t"
  by (simp_all add: untagged_ext_def)

lemma untagged_trans: "untagged_ext s t \<Longrightarrow> untagged_ext t u \<Longrightarrow> untagged_ext s u"
proof -
  assume "untagged_ext s t" "untagged_ext t u"
  then obtain a b where "im_sent t = im_sent s @ a" "\<forall>l \<in> set a. HasPrefix l ''* ''"
    "im_sent u = im_sent t @ b" "\<forall>l \<in> set b. HasPrefix l ''* ''"
    unfolding untagged_ext_def by blast
  then show ?thesis unfolding untagged_ext_def by (intro exI [of _ "a @ b"]) auto
qed

lemma HasPrefix_more: "HasPrefix l p \<Longrightarrow> HasPrefix (l @ r) p"
  by (auto elim!: HasPrefixE)

lemma untagged_writeLine: "HasPrefix l ''* '' \<Longrightarrow> untagged_ext t (writeLine l t)"
  unfolding untagged_ext_def by (intro exI [of _ "[l @ CRLF]"]) (simp add: HasPrefix_more del: HasPrefix_Cons)

lemma untagged_writeUntagged: "untagged_ext s t \<Longrightarrow> untagged_ext s (writeUntagged a b t)"
  unfolding writeUntagged_def
  by (erule untagged_trans) (rule untagged_writeLine, simp)

lemma untagged_fold:
  assumes "\<And>x t. x \<in> set xs \<Longrightarrow> untagged_ext t (f x t)"
  shows "untagged_ext s t \<Longrightarrow> untagged_ext s (fold f xs t)"
  using assms
proof (induction xs arbitrary: t)
  case (Cons a xs)
  have "untagged_ext s (f a t)" using Cons.prems by (auto intro: untagged_trans)
  then show ?case using Cons by simp
qed simp

lemma replied_writeTagged:
  assumes "untagged_ext s t" "status \<in> {''OK'', ''NO'', ''BAD''}"
  shows "replied tag s (writeTagged tag status text_of t)"
proof -
  obtain mid where "im_sent t = im_sent s @ mid" "\<forall>l \<in> set mid. HasPrefix l ''* ''"
    using assms(1) unfolding untagged_ext_def by blast
  then show ?thesis
    using assms(2) unfolding replied_def by (intro exI [of _ mid] exI [of _ status] exI [of _ text_of]) simp
qed

lemma untagged_transition: "imap_transition E ev s = (b, t) \<Longrightarrow> untagged_ext s t"
  by (auto simp: imap_transition_def untagged_ext_def split: prod.splits option.splits)

lemma untagged_snd_transition: "untagged_ext s (snd (imap_transition E ev s))"
  by (rule untagged_transition [of E ev s "fst (imap_transition E ev s)"]) simp

lemma untagged_transitionSelect: "transitionSelect E s = (b, t) \<Longrightarrow> untagged_ext s t"
  by (auto simp: transitionSelect_def dest: untagged_transition split: if_splits)

lemma TrimRight_keep: "last a \<notin> set cs \<Longrightarrow> a \<noteq> [] \<Longrightarrow> TrimRight (a @ b) cs = a @ TrimRight b cs"
proof -
  assume a: "last a \<notin> set cs" "a \<noteq> []"
  then obtain a' c where ac: "a = a' @ [c]" "c \<notin> set cs" by (metis append_butlast_last_id)
  then show ?thesis
    by (cases "\<forall>x \<in> set b. x \<in> set cs") (auto simp: TrimRight_def TrimLeft_def dropWhile_append dropWhile_eq_Nil_conv)
qed

definition fetch_tail :: "'w imap_env \<Rightarrow> string \<Rightarrow> Message \<Rightarrow> 'w \<Rightarrow> string" where
  "fetch_tail E items msg w =
     (if Contains items ''FLAGS'' then ''FLAGS ('' @ Message_Flags msg @ '') '' else [])
     @ (if Contains items ''UID'' then ''UID '' @ fmt_u (Message_UID msg) @ '' '' else [])
     @ (if Contains items ''RFC822.SIZE'' then ''RFC822.SIZE '' @ fmt_d (Message_SizeBytes msg) @ '' '' else [])
     @ (if Contains items ''BODY[]'' \<or> Contains items ''RFC822''
        then fetch_literal (fst (fetch_body E msg w)) else [])"

lemma fetch_line_shape:
  "fst (fetch_line E items n msg w) =
     ''* '' @ fmt_nat n @ '' FETCH ('' @ TrimRight (fetch_tail E items msg w) '' '' @ '')''"
proof -
  have "fst (fetch_line E items n msg w) =
      TrimRight ((''* '' @ fmt_nat n @ '' FETCH ('') @ fetch_tail E items msg w) '' '' @ '')''"
    by (simp add: fetch_line_def fetch_head_def fetch_tail_def Let_def split: prod.split)
  also have "\<dots> = (''* '' @ fmt_nat n @ '' FETCH ('') @ TrimRight (fetch_tail E items msg w) '' '' @ '')''"
    by (subst TrimRight_keep) simp_all
  finally show ?thesis by simp
qed

lemma untagged_fetch_loop: "untagged_ext s (fetch_loop E items i msgs s)"
proof (induction msgs arbitrary: i s)
  case (Cons m ms)
  obtain l w where fl: "fetch_line E items (i + 1) m (im_store s) = (l, w)" by fastforce
  have "HasPrefix l ''* ''" using fetch_line_shape [of E items "i + 1" m "im_store s"] fl by simp
  then have "untagged_ext s (writeLine l (s\<lparr>im_store := w\<rparr>))"
    using untagged_writeLine [of l "s\<lparr>im_store := w\<rparr>"] by (simp add: untagged_ext_def)
  then show ?case using Cons.IH fl by (auto intro: untagged_trans)
qed simp

lemma select_replies_untagged: "l \<in> set (select_replies mb n) \<Longrightarrow> HasPrefix l ''* ''"
  by (auto simp: select_replies_def)

lemma list_reply_untagged: "HasPrefix (list_reply U mb) ''* ''"
  by (simp add: list_reply_def)

text \<open>The two handlers that write their tagged line and nothing else, on every path.\<close>

definition tagged_once :: "string \<Rightarrow> 'w imap_session \<Rightarrow> 'w imap_session \<Rightarrow> bool" where
  "tagged_once tag s t \<longleftrightarrow>
     (\<exists>status m. status \<in> {''OK'', ''NO'', ''BAD''} \<and> LF \<notin> set m \<and> im_sent t = im_sent (writeTagged tag status m s))"

lemma tagged_onceI:
  "im_sent t = im_sent s \<Longrightarrow> status \<in> {''OK'', ''NO'', ''BAD''} \<Longrightarrow> LF \<notin> set m \<Longrightarrow>
     tagged_once tag s (writeTagged tag status m t)"
  unfolding tagged_once_def by (intro exI [of _ status] exI [of _ m]) simp

lemma tagged_once_fields [simp]:
  "tagged_once tag s (t\<lparr>im_conn := c\<rparr>) = tagged_once tag s t" "tagged_once tag s (t\<lparr>im_reader := b\<rparr>) = tagged_once tag s t"
  "tagged_once tag s (t\<lparr>im_isTLS := x\<rparr>) = tagged_once tag s t"
  by (simp_all add: tagged_once_def)

lemma sent_transition: "imap_transition E ev s = (b, t) \<Longrightarrow> im_sent t = im_sent s"
  by (auto simp: imap_transition_def split: prod.splits option.splits)

lemma STARTTLS_tagged: "tagged_once tag s (imap_handleSTARTTLS E tag s)"
  by (auto simp: imap_handleSTARTTLS_def Let_def intro!: tagged_onceI split: option.split prod.split)

lemma Login_tagged: "tagged_once tag s (handleLogin E tag args s)"
  by (auto simp: handleLogin_def Let_def intro!: tagged_onceI dest!: sent_transition
      split: list.split option.split prod.split sum.split bool.split)

lemma tagged_once_replied: "tagged_once tag s t \<Longrightarrow> replied tag s t"
proof -
  assume "tagged_once tag s t"
  then obtain status m where "status \<in> {''OK'', ''NO'', ''BAD''}" "im_sent t = im_sent (writeTagged tag status m s)"
    unfolding tagged_once_def by blast
  then show ?thesis
    unfolding replied_def by (intro exI [of _ "[]"] exI [of _ status] exI [of _ m]) simp
qed

lemmas replied_intros = replied_writeTagged untagged_writeUntagged untagged_snd_transition

lemma handlers_replied:
  "replied tag s (handleCapability E tag s)" "replied tag s (handleLogin E tag args s)"
  "replied tag s (handleSelect E tag args ro s)" "replied tag s (handleList E tag args s)"
  "replied tag s (handleFetch E tag args s)" "replied tag s (handleStore tag args s)"
  "replied tag s (handleSearch E tag args s)" "replied tag s (handleExpunge tag s)"
  "replied tag s (handleClose E tag s)" "replied tag s (handleLogout E tag s)"
  "replied tag s (imap_handleSTARTTLS E tag s)"
proof -
  show "replied tag s (handleCapability E tag s)"
    by (simp add: handleCapability_def replied_intros)
  show "replied tag s (handleLogin E tag args s)"
    by (rule tagged_once_replied [OF Login_tagged])
  have sel: "untagged_ext t (fold writeLine (select_replies mb n) t)" for mb n and t :: "'a imap_session"
    by (rule untagged_fold) (auto dest: select_replies_untagged intro: untagged_writeLine)
  show "replied tag s (handleSelect E tag args ro s)"
    by (auto simp: handleSelect_def Let_def intro!: replied_intros dest!: untagged_transitionSelect
        split: prod.split sum.split bool.split intro: untagged_trans [OF _ sel])
  have lst: "untagged_ext t (fold (\<lambda>mb. if list_matches U p mb then writeLine (list_reply U mb) else id) ms t)"
    for U p ms and t :: "'a imap_session"
    by (rule untagged_fold) (auto intro: untagged_writeLine list_reply_untagged)
  show "replied tag s (handleList E tag args s)"
    by (auto simp: handleList_def intro!: replied_intros split: list.split prod.split sum.split
        intro: untagged_trans [OF _ lst])
  show "replied tag s (handleFetch E tag args s)"
    by (auto simp: handleFetch_def intro!: replied_intros split: list.split prod.split sum.split option.split
        intro: untagged_trans [OF _ untagged_fetch_loop])
  show "replied tag s (handleStore tag args s)"
    by (auto simp: handleStore_def intro!: replied_intros split: option.split)
  have srch: "untagged_ext s (writeLine (CHR ''*'' # CHR '' '' # x) (s\<lparr>im_store := w\<rparr>))" for x w
    using untagged_writeLine [of "CHR ''*'' # CHR '' '' # x" "s\<lparr>im_store := w\<rparr>"] by simp
  show "replied tag s (handleSearch E tag args s)"
    by (auto simp: handleSearch_def intro!: replied_intros srch split: prod.split sum.split option.split)
  show "replied tag s (handleExpunge tag s)"
    by (auto simp: handleExpunge_def intro!: replied_intros split: option.split)
  show "replied tag s (handleClose E tag s)"
    using untagged_snd_transition [of "s\<lparr>im_selected := None\<rparr>" E EventClose]
    by (auto simp: handleClose_def intro!: replied_writeTagged)
  show "replied tag s (handleLogout E tag s)"
    by (simp add: handleLogout_def replied_intros)
  show "replied tag s (imap_handleSTARTTLS E tag s)"
    by (rule tagged_once_replied [OF STARTTLS_tagged])
qed

lemma imap_dispatch_replied:
  "imap_state s \<noteq> StateLogout \<Longrightarrow> replied tag s (imap_dispatch E tag cmd args s)"
  using handlers_replied [of tag s] by (cases "imap_state s") (simp_all add: imap_dispatch_def replied_writeTagged)

subsubsection \<open>The body literal of FETCH\<close>

text \<open>
  The literal announces as many bytes as follow it, unless the body ends in a space: the trailing
  spaces of the whole reply are cut.
\<close>

lemma fetch_line_body:
  assumes "Contains items ''BODY[]'' \<or> Contains items ''RFC822''"
    and "fst (fetch_body E msg w) = body" "body = [] \<or> last body \<noteq> SPC"
  shows "fst (fetch_line E items n msg w) =
    fetch_head items n msg @ ''BODY[] {'' @ fmt_nat (length body) @ ''}'' @ CRLF @ body @ '')''"
proof -
  let ?x = "fetch_head items n msg @ ''BODY[] {'' @ fmt_nat (length body) @ ''}'' @ CRLF @ body"
  have "last ?x \<noteq> SPC" using assms(3) by (cases "body = []") (auto simp: CRLF_def)
  then have "TrimRight ?x '' '' = ?x" by (intro TrimRight_id) simp
  then have "TrimRight (?x @ '' '') '' '' = ?x" by (subst TrimRight_append_cut) simp_all
  then show ?thesis
    using assms(1,2) by (auto simp: fetch_line_def fetch_literal_def Let_def split: prod.split)
qed

lemma fetch_loop_append:
  "fetch_loop E items i (xs @ ys) s = fetch_loop E items (i + length xs) ys (fetch_loop E items i xs s)"
  by (induction xs arbitrary: i s) (simp_all split: prod.split)

text \<open>
  A reply that shows nothing but the message \<open>msg\<close>: its number, the items asked for, and at most the body that
  the storage gave, in a state that \<open>at\<close> allows, for the identifier of that message, or the placeholder.
\<close>

definition shows_message :: "'w imap_env \<Rightarrow> ('w \<Rightarrow> bool) \<Rightarrow> string \<Rightarrow> nat \<times> Message \<Rightarrow> string \<Rightarrow> bool" where
  "shows_message E at items = (\<lambda>(n, msg) reply. \<exists>body w. at w
     \<and> (body = no_body \<or> fst (GetMessageBody (im_messageReader E) (Message_ID msg) w) = Inr (Some body))
     \<and> (reply = TrimRight (fetch_head items n msg) '' '' @ '')'' @ CRLF
        \<or> reply = TrimRight (fetch_head items n msg @ ''BODY[] {'' @ fmt_nat (length body) @ ''}'' @ CRLF @ body @ '' '') '' '' @ '')'' @ CRLF))"

lemma fetch_line_shows:
  assumes "fetch_line E items n msg w = (l, w')" "at w"
  shows "shows_message E at items (n, msg) (l @ CRLF)"
proof -
  obtain x w1 where g: "GetMessageBody (im_messageReader E) (Message_ID msg) w = (x, w1)" by fastforce
  define body where "body = (case x of Inr (Some b) \<Rightarrow> b | _ \<Rightarrow> no_body)"
  have "fst (fetch_body E msg w) = body"
    using g by (auto simp: fetch_body_def body_def split: sum.splits option.splits)
  then have "l = TrimRight (fetch_head items n msg) '' '' @ '')'' \<or> l = TrimRight (fetch_head items n msg @ fetch_literal body) '' '' @ '')''"
    using assms(1) by (auto simp: fetch_line_def Let_def split: if_splits prod.splits)
  moreover have "body = no_body \<or> fst (GetMessageBody (im_messageReader E) (Message_ID msg) w) = Inr (Some body)"
    using g by (auto simp: body_def split: sum.splits option.splits)
  ultimately show ?thesis
    unfolding shows_message_def prod.case using assms(2)
    by (intro exI [of _ body] exI [of _ w] conjI) (auto simp: fetch_literal_def)
qed

text \<open>A relation on the storage that every read of a body keeps holds over the loop.\<close>

definition body_reads :: "'w imap_env \<Rightarrow> ('w \<Rightarrow> 'w \<Rightarrow> bool) \<Rightarrow> bool" where
  "body_reads E P \<longleftrightarrow> reflp P \<and> transp P \<and> (\<forall>i w. P w (snd (GetMessageBody (im_messageReader E) i w)))"

lemma fetch_line_store: "body_reads E P \<Longrightarrow> fetch_line E items n msg w = (l, w') \<Longrightarrow> P w w'"
  unfolding body_reads_def
  by (auto simp: fetch_line_def fetch_body_def Let_def reflp_def split: prod.splits if_splits sum.splits option.splits) (metis snd_conv)+

lemma fetch_loop_store:
  assumes "body_reads E P"
  shows "P (im_store s) (im_store (fetch_loop E items i xs s))"
proof (induction xs arbitrary: i s)
  case (Cons x xs)
  obtain l w where fl: "fetch_line E items (i + 1) x (im_store s) = (l, w)" by fastforce
  show ?case
    using Cons.IH [of "writeLine l (s\<lparr>im_store := w\<rparr>)" "i + 1"] fl fetch_line_store [OF assms fl] assms
    by (auto simp: body_reads_def dest: transpD)
qed (use assms in \<open>simp add: body_reads_def reflp_def\<close>)

lemma fetch_loop_shows:
  assumes P: "body_reads E P"
  shows "P w0 (im_store s) \<Longrightarrow> \<exists>rs. im_sent (fetch_loop E items i xs s) = im_sent s @ rs
    \<and> list_all2 (shows_message E (P w0) items) (enumerate (i + 1) xs) rs"
proof (induction xs arbitrary: i s)
  case (Cons x xs)
  obtain l w where fl: "fetch_line E items (i + 1) x (im_store s) = (l, w)" by fastforce
  have "P w0 w" using fetch_line_store [OF P fl] Cons.prems P by (auto simp: body_reads_def dest: transpD)
  then obtain rs where "im_sent (fetch_loop E items (i + 1) xs (writeLine l (s\<lparr>im_store := w\<rparr>))) =
      im_sent (writeLine l (s\<lparr>im_store := w\<rparr>)) @ rs \<and> list_all2 (shows_message E (P w0) items) (enumerate (i + 1 + 1) xs) rs"
    using Cons.IH [of "writeLine l (s\<lparr>im_store := w\<rparr>)" "i + 1"] by auto
  then show ?case using fl fetch_line_shows [OF fl, of "P w0"] Cons.prems by (intro exI [of _ "(l @ CRLF) # rs"]) simp
qed simp

lemma handleFetch_shows:
  assumes P: "body_reads E P" "\<And>b w. P w (snd (ListMessages (im_messageReader E) b w))"
  shows "\<exists>items xs replies tail. im_sent (handleFetch E tag args s) = im_sent s @ replies @ [tag @ '' '' @ tail @ CRLF]
     \<and> list_all2 (shows_message E (P (im_store s)) items) (enumerate 1 xs) replies
     \<and> (xs = [] \<or> (\<exists>sel w. im_selected s = Some sel \<and> ListMessages (im_messageReader E) (sel_ID sel) (im_store s) = (Inr xs, w)
          \<and> P w (im_store (handleFetch E tag args s))))"
proof -
  have bad: ?thesis if "im_sent (handleFetch E tag args s) = im_sent s @ [tag @ '' '' @ tail @ CRLF]" for tail
    using that by (intro exI [of _ "[]"] exI [of _ "[]"] exI [of _ tail]) simp
  show ?thesis
  proof (cases "\<exists>sel p0 p1 xs w. im_selected s = Some sel \<and> SplitN2 SPC args = [p0, p1]
      \<and> ListMessages (im_messageReader E) (sel_ID sel) (im_store s) = (Inr xs, w)")
    case True
    then obtain sel p0 p1 xs w where h: "im_selected s = Some sel" "SplitN2 SPC args = [p0, p1]"
      "ListMessages (im_messageReader E) (sel_ID sel) (im_store s) = (Inr xs, w)" by blast
    let ?l = "fetch_loop E (ToUpper p1) 0 xs (s\<lparr>im_store := w\<rparr>)"
    have "P (im_store s) w" using P(2) [of "im_store s" "sel_ID sel"] h(3) by simp
    then obtain rs where rs: "im_sent ?l = im_sent s @ rs" "list_all2 (shows_message E (P (im_store s)) (ToUpper p1)) (enumerate 1 xs) rs"
      using fetch_loop_shows [OF P(1), of "im_store s" "s\<lparr>im_store := w\<rparr>" "ToUpper p1" 0 xs] by auto
    have "P w (im_store ?l)" using fetch_loop_store [OF P(1), of "s\<lparr>im_store := w\<rparr>"] by simp
    moreover have "handleFetch E tag args s = writeTagged tag ''OK'' ''FETCH completed'' ?l"
      using h by (simp add: handleFetch_def)
    ultimately show ?thesis
      using rs h by (intro exI [of _ "ToUpper p1"] exI [of _ xs] exI [of _ rs] exI [of _ "''OK FETCH completed''"] conjI disjI2) auto
  next
    case False
    then have "\<exists>tail. im_sent (handleFetch E tag args s) = im_sent s @ [tag @ '' '' @ tail @ CRLF]"
      unfolding handleFetch_def by (auto split: option.splits list.splits prod.splits sum.splits)
    then show ?thesis using bad by blast
  qed
qed

lemma handleFetch_last:
  assumes "im_selected s = Some sel" "SplitN2 SPC args = [seqs, items]"
    and "ListMessages (im_messageReader E) (sel_ID sel) (im_store s) = (Inr (xs @ [msg]), w)"
  defines "t \<equiv> fetch_loop E (ToUpper items) 0 xs (s\<lparr>im_store := w\<rparr>)"
  shows "\<exists>replies. length replies = length xs \<and> im_sent (handleFetch E tag args s) = im_sent s @ replies @
      [fst (fetch_line E (ToUpper items) (length xs + 1) msg (im_store t)) @ CRLF, tag @ '' OK FETCH completed'' @ CRLF]"
proof -
  obtain replies where "im_sent t = im_sent s @ replies" "length replies = length xs"
    using fetch_loop_shows [of E "\<lambda>_ _. True" w "s\<lparr>im_store := w\<rparr>" "ToUpper items" 0 xs] unfolding t_def
    by (auto simp: body_reads_def reflp_def transp_def dest: list_all2_lengthD)
  then show ?thesis
    using assms(1-3) by (simp add: handleFetch_def fetch_loop_append t_def split: prod.split)
qed

subsubsection \<open>No reply line is broken by a name\<close>

definition one_line :: "string \<Rightarrow> bool" where
  "one_line l \<longleftrightarrow> (\<exists>m. l = m @ CRLF \<and> LF \<notin> set m)"

lemma one_lineI: "LF \<notin> set m \<Longrightarrow> one_line (m @ CRLF)"
  by (auto simp: one_line_def)

definition adds_lines :: "'w imap_session \<Rightarrow> 'w imap_session \<Rightarrow> bool" where
  "adds_lines s t \<longleftrightarrow> (\<exists>mid. im_sent t = im_sent s @ mid \<and> list_all one_line mid)"

lemma adds_lines_refl [simp]: "adds_lines s s"
  by (simp add: adds_lines_def)

lemma adds_lines_fields [simp]:
  "adds_lines s (t\<lparr>im_store := w\<rparr>) = adds_lines s t" "adds_lines s (t\<lparr>im_selected := x\<rparr>) = adds_lines s t"
  by (simp_all add: adds_lines_def)

lemma adds_lines_writeLine: "adds_lines s t \<Longrightarrow> LF \<notin> set l \<Longrightarrow> adds_lines s (writeLine l t)"
  unfolding adds_lines_def by (auto simp: one_lineI)

lemma adds_lines_writeTagged:
  "adds_lines s t \<Longrightarrow> LF \<notin> set tag \<Longrightarrow> LF \<notin> set a \<Longrightarrow> LF \<notin> set b \<Longrightarrow> adds_lines s (writeTagged tag a b t)"
  unfolding writeTagged_def by (rule adds_lines_writeLine) auto

lemma list_reply_one_line: "LF \<notin> set (list_reply U mb)"
  using fmt_q_no_newline(2) by (simp add: list_reply_def)

lemma select_replies_one_line: "l \<in> set (select_replies mb n) \<Longrightarrow> LF \<notin> set l"
  by (auto simp: select_replies_def flag_list_def fmt_u_def dest: fmt_nat_plain)

lemma adds_lines_fold:
  assumes "\<And>x t. x \<in> set xs \<Longrightarrow> adds_lines s t \<Longrightarrow> adds_lines s (f x t)"
  shows "adds_lines s t \<Longrightarrow> adds_lines s (fold f xs t)"
  using assms by (induction xs arbitrary: t) simp_all

lemma sent_snd_transition [simp]: "im_sent (snd (imap_transition E ev s)) = im_sent s"
  using sent_transition by (metis prod.collapse)

lemma sent_transitionSelect: "transitionSelect E s = (b, t) \<Longrightarrow> im_sent t = im_sent s"
  by (auto simp: transitionSelect_def dest: sent_transition split: if_splits)

lemma Join_no_LF: "\<forall>x \<in> set xs. LF \<notin> set x \<Longrightarrow> LF \<notin> set sep \<Longrightarrow> LF \<notin> set (Join xs sep)"
  by (induction xs sep rule: Join.induct) auto

lemma tagged_once_lines:
  assumes "tagged_once tag s t" "LF \<notin> set tag"
  shows "adds_lines s t"
proof -
  obtain status m where "status \<in> {''OK'', ''NO'', ''BAD''}" "LF \<notin> set m"
    and t: "im_sent t = im_sent (writeTagged tag status m s)"
    using assms(1) unfolding tagged_once_def by blast
  then have "adds_lines s (writeTagged tag status m s)"
    using assms(2) by (intro adds_lines_writeTagged) auto
  then show ?thesis using t by (simp add: adds_lines_def)
qed

lemma fixed_lines:
  assumes "LF \<notin> set tag"
  shows "adds_lines s (handleCapability E tag s)" "adds_lines s (handleStore tag args s)"
    "adds_lines s (handleExpunge tag s)" "adds_lines s (handleClose E tag s)"
    "adds_lines s (handleLogout E tag s)" "adds_lines s (imap_handleSTARTTLS E tag s)"
proof -
  note intros = adds_lines_writeTagged adds_lines_writeLine
  have moved: "im_sent t = im_sent s \<Longrightarrow> adds_lines s (snd (imap_transition E ev t))" for ev t
    by (simp add: adds_lines_def)
  show "adds_lines s (handleCapability E tag s)"
    using assms by (auto simp: handleCapability_def writeUntagged_def Capability_def intro!: intros)
  show "adds_lines s (handleStore tag args s)"
    using assms by (auto simp: handleStore_def intro!: intros split: option.split)
  show "adds_lines s (handleExpunge tag s)"
    using assms by (auto simp: handleExpunge_def intro!: intros split: option.split)
  show "adds_lines s (handleClose E tag s)"
    using assms moved [of "s\<lparr>im_selected := None\<rparr>" EventClose] by (auto simp: handleClose_def intro!: intros)
  show "adds_lines s (handleLogout E tag s)"
    using assms moved [of s EventLogout] by (auto simp: handleLogout_def writeUntagged_def intro!: intros)
  show "adds_lines s (imap_handleSTARTTLS E tag s)"
    by (rule tagged_once_lines [OF STARTTLS_tagged assms])
qed

lemma handleSelect_lines:
  assumes "LF \<notin> set tag"
  shows "adds_lines s (handleSelect E tag args ro s)"
proof -
  have sel: "adds_lines s (fold writeLine (select_replies mb n) t)" if "adds_lines s t" for mb n t
    using that by (intro adds_lines_fold) (auto intro: adds_lines_writeLine dest: select_replies_one_line)
  have ts: "adds_lines s t" if "transitionSelect E (s\<lparr>im_store := w\<rparr>) = (b, t)" for w b t
    using sent_transitionSelect [OF that] by (simp add: adds_lines_def)
  show ?thesis
    using assms fmt_q_no_newline(2)
    by (auto simp: handleSelect_def Let_def intro!: adds_lines_writeTagged sel dest!: ts
        split: prod.split sum.split bool.split)
qed

lemma handleList_lines:
  assumes "LF \<notin> set tag"
  shows "adds_lines s (handleList E tag args s)"
proof -
  have "adds_lines s (fold (\<lambda>mb. if list_matches U p mb then writeLine (list_reply U mb) else id) ms t)"
    if "adds_lines s t" for U p ms t
    using that by (intro adds_lines_fold) (auto intro: adds_lines_writeLine simp: list_reply_one_line)
  then show ?thesis
    using assms by (auto simp: handleList_def intro!: adds_lines_writeTagged split: list.split prod.split sum.split)
qed

lemma handleSearch_lines:
  assumes "LF \<notin> set tag"
  shows "adds_lines s (handleSearch E tag args s)"
proof -
  have "LF \<notin> set (Join (map (\<lambda>i. fmt_nat (i + 1)) [0..<n]) '' '')" for n
    by (rule Join_no_LF) (auto dest: fmt_nat_plain)
  then show ?thesis
    using assms by (auto simp: handleSearch_def intro!: adds_lines_writeTagged adds_lines_writeLine
        split: prod.split sum.split option.split)
qed

lemma imap_dispatch_lines:
  assumes "LF \<notin> set tag" "cmd \<noteq> ''FETCH''"
  shows "adds_lines s (imap_dispatch E tag cmd args s)"
proof -
  note all = fixed_lines [OF assms(1)] tagged_once_lines [OF Login_tagged assms(1)] handleSelect_lines [OF assms(1)]
    handleList_lines [OF assms(1)] handleSearch_lines [OF assms(1)]
  show ?thesis
    using assms by (cases "imap_state s") (simp_all add: imap_dispatch_def all adds_lines_writeTagged)
qed

end
