(* ===== verification/Imap_Lines.thy ===== *)
theory Imap_Lines
  imports Imap_Correct
begin

text \<open>
  The IMAP read loop against a reference that knows no network: \<open>lines_of\<close> cuts the bytes of a client
  into lines, \<open>run_lines\<close> handles one after the other. A session that cannot upgrade to TLS is the run
  over the lines of its bytes, however the network has cut them: no handler looks at the connection
  or at the reader, so each commutes with \<open>at_input\<close>, which sets both.
\<close>

function lines_of :: "bytes \<Rightarrow> string list" where
  "lines_of b = (case cut_line b of None \<Rightarrow> [] | Some (l, r) \<Rightarrow> l # lines_of r)"
  by pat_completeness auto
termination
  by (relation "measure length") (auto simp: cut_line_Some_iff)

declare lines_of.simps [simp del]

fun run_lines :: "'w imap_env \<Rightarrow> string list \<Rightarrow> 'w imap_session \<Rightarrow> 'w imap_session" where
  "run_lines E [] s = s"
| "run_lines E (l # ls) s =
     (if TrimRight l CRLF = [] then run_lines E ls s
      else (case imap_line E (TrimRight l CRLF) s of
              (s, True) \<Rightarrow> s
            | (s, False) \<Rightarrow> run_lines E ls s))"

definition at_input :: "bytes \<Rightarrow> stream \<Rightarrow> 'w imap_session \<Rightarrow> 'w imap_session" where
  "at_input b c s = s\<lparr>im_reader := b, im_conn := c\<rparr>"

lemma at_input_fields [simp]:
  "im_reader (at_input b c s) = b" "im_conn (at_input b c s) = c" "im_fsm (at_input b c s) = im_fsm s"
  "im_isTLS (at_input b c s) = im_isTLS s" "im_userID (at_input b c s) = im_userID s"
  "im_username (at_input b c s) = im_username s" "im_selected (at_input b c s) = im_selected s"
  "im_sent (at_input b c s) = im_sent s" "im_store (at_input b c s) = im_store s"
  "imap_state (at_input b c s) = imap_state s" "at_input b c (at_input b' c' s) = at_input b c s"
  by (simp_all add: at_input_def imap_state_def)

lemma at_input_updates:
  "(at_input b c s)\<lparr>im_fsm := f\<rparr> = at_input b c (s\<lparr>im_fsm := f\<rparr>)" "(at_input b c s)\<lparr>im_userID := u\<rparr> = at_input b c (s\<lparr>im_userID := u\<rparr>)"
  "(at_input b c s)\<lparr>im_username := n\<rparr> = at_input b c (s\<lparr>im_username := n\<rparr>)"
  "(at_input b c s)\<lparr>im_selected := x\<rparr> = at_input b c (s\<lparr>im_selected := x\<rparr>)" "(at_input b c s)\<lparr>im_store := w\<rparr> = at_input b c (s\<lparr>im_store := w\<rparr>)"
  "(at_input b c s)\<lparr>im_sent := l\<rparr> = at_input b c (s\<lparr>im_sent := l\<rparr>)"
  by (simp_all add: at_input_def)

lemma at_input_write:
  "writeLine l (at_input b c s) = at_input b c (writeLine l s)"
  "writeTagged t x y (at_input b c s) = at_input b c (writeTagged t x y s)"
  "writeUntagged x y (at_input b c s) = at_input b c (writeUntagged x y s)"
  by (simp_all add: writeTagged_def writeUntagged_def writeLine_def at_input_updates)

lemma at_input_transition: "imap_transition E ev (at_input b c s) = map_prod id (at_input b c) (imap_transition E ev s)"
  by (simp add: imap_transition_def at_input_updates split: prod.split option.split)

lemma at_input_transitionSelect: "transitionSelect E (at_input b c s) = map_prod id (at_input b c) (transitionSelect E s)"
  by (simp add: transitionSelect_def at_input_transition)

lemma at_input_fold: "(\<And>x s. f x (at_input b c s) = at_input b c (f x s)) \<Longrightarrow> fold f xs (at_input b c s) = at_input b c (fold f xs s)"
  by (induction xs arbitrary: s) simp_all

lemma at_input_fetch_loop: "fetch_loop E items i ms (at_input b c s) = at_input b c (fetch_loop E items i ms s)"
  by (induction ms arbitrary: i s) (simp_all add: at_input_updates at_input_write split: prod.split)

lemmas at_input_simps = at_input_updates at_input_write at_input_transition at_input_transitionSelect at_input_fetch_loop

lemma at_input_handlers:
  "handleCapability E tag (at_input b c s) = at_input b c (handleCapability E tag s)"
  "handleLogin E tag args (at_input b c s) = at_input b c (handleLogin E tag args s)"
  "handleSelect E tag args ro (at_input b c s) = at_input b c (handleSelect E tag args ro s)"
  "handleList E tag args (at_input b c s) = at_input b c (handleList E tag args s)"
  "handleFetch E tag args (at_input b c s) = at_input b c (handleFetch E tag args s)"
  "handleStore tag args (at_input b c s) = at_input b c (handleStore tag args s)"
  "handleSearch E tag args (at_input b c s) = at_input b c (handleSearch E tag args s)"
  "handleExpunge tag (at_input b c s) = at_input b c (handleExpunge tag s)"
  "handleClose E tag (at_input b c s) = at_input b c (handleClose E tag s)"
  "handleLogout E tag (at_input b c s) = at_input b c (handleLogout E tag s)"
proof -
  show "handleCapability E tag (at_input b c s) = at_input b c (handleCapability E tag s)"
    by (simp add: handleCapability_def at_input_simps)
  show "handleLogin E tag args (at_input b c s) = at_input b c (handleLogin E tag args s)"
    by (simp add: handleLogin_def Let_def at_input_simps split: list.split option.split prod.split sum.split bool.split)
  show "handleSelect E tag args ro (at_input b c s) = at_input b c (handleSelect E tag args ro s)"
    by (simp add: handleSelect_def Let_def at_input_simps at_input_fold split: prod.split sum.split bool.split)
  show "handleList E tag args (at_input b c s) = at_input b c (handleList E tag args s)"
    by (simp add: handleList_def at_input_simps at_input_fold split: list.split prod.split sum.split)
  show "handleFetch E tag args (at_input b c s) = at_input b c (handleFetch E tag args s)"
    by (simp add: handleFetch_def at_input_simps split: list.split option.split prod.split sum.split)
  show "handleStore tag args (at_input b c s) = at_input b c (handleStore tag args s)"
    by (simp add: handleStore_def at_input_simps split: option.split)
  show "handleSearch E tag args (at_input b c s) = at_input b c (handleSearch E tag args s)"
    by (simp add: handleSearch_def at_input_simps split: option.split prod.split sum.split)
  show "handleExpunge tag (at_input b c s) = at_input b c (handleExpunge tag s)"
    by (simp add: handleExpunge_def at_input_simps split: option.split)
  show "handleClose E tag (at_input b c s) = at_input b c (handleClose E tag s)"
    by (simp add: handleClose_def at_input_simps)
  show "handleLogout E tag (at_input b c s) = at_input b c (handleLogout E tag s)"
    by (simp add: handleLogout_def at_input_simps)
qed

text \<open>Where STARTTLS is refused it does not touch the connection either.\<close>

definition no_upgrade :: "'w imap_env \<Rightarrow> 'w imap_session \<Rightarrow> bool" where
  "no_upgrade E s \<longleftrightarrow> im_tlsCfg E = None \<or> im_isTLS s"

lemma at_input_STARTTLS:
  "no_upgrade E s \<Longrightarrow> imap_handleSTARTTLS E tag (at_input b c s) = at_input b c (imap_handleSTARTTLS E tag s)"
  by (auto simp: imap_handleSTARTTLS_def no_upgrade_def at_input_simps)

lemma at_input_dispatch:
  "no_upgrade E s \<Longrightarrow> imap_dispatch E tag cmd args (at_input b c s) = at_input b c (imap_dispatch E tag cmd args s)"
  by (cases "imap_state s") (simp_all add: imap_dispatch_def at_input_handlers at_input_STARTTLS at_input_write)

lemma at_input_line:
  "no_upgrade E s \<Longrightarrow> imap_line E line (at_input b c s) = map_prod (at_input b c) id (imap_line E line s)"
  by (simp add: imap_line_def Let_def at_input_dispatch at_input_write split: prod.split bool.split)

lemma imap_line_no_upgrade:
  assumes "no_upgrade E s" "imap_line E line s = (s', q)"
  shows "no_upgrade E s' \<and> im_reader s' = im_reader s \<and> im_conn s' = im_conn s"
proof -
  have "io (imap_handleSTARTTLS E tag s) = io s" for tag
    using assms(1) by (auto simp: imap_handleSTARTTLS_def no_upgrade_def)
  then have "io (imap_dispatch E tag cmd args s) = io s" for tag cmd args
    using imap_dispatch_io by metis
  then have "io s' = io s"
    using assms(2) by (auto simp: imap_line_def Let_def split: prod.splits bool.splits)
  then show ?thesis using assms(1) by (simp add: io_def no_upgrade_def)
qed

lemma imap_loop_lines:
  assumes "no_upgrade E s"
  shows "at_input [] [] (imap_loop E (at_input buf (map Chunk cs) s)) = at_input [] [] (run_lines E (lines_of (buf @ concat cs)) s)"
  using assms
proof (induction "length (buf @ concat cs)" arbitrary: buf cs s rule: less_induct)
  case less
  let ?s = "at_input buf (map Chunk cs) s"
  show ?case
  proof (cases "cut_line (buf @ concat cs)")
    case None
    then have "ReadString buf (map Chunk cs) = (None, [], [])" by (rule ReadString_chunks_end)
    then show ?thesis
      using None by (simp add: imap_loop.simps [of E ?s] lines_of.simps [of "buf @ concat cs"])
  next
    case (Some lr)
    then obtain l r where lr: "cut_line (buf @ concat cs) = Some (l, r)" by (cases lr) auto
    then obtain buf' cs' where rd: "ReadString buf (map Chunk cs) = (Some l, buf', map Chunk cs')" "buf' @ concat cs' = r"
      using ReadString_chunks [OF lr, of "[]"] by auto
    have shorter: "length (buf' @ concat cs') < length (buf @ concat cs)"
    proof -
      have "buf @ concat cs = l @ r" "l \<noteq> []" using lr by (auto simp: cut_line_Some_iff)
      then show ?thesis unfolding rd(2) by simp
    qed
    have IH: "at_input [] [] (imap_loop E (at_input buf' (map Chunk cs') t)) = at_input [] [] (run_lines E (lines_of r) t)"
      if "no_upgrade E t" for t
      using less.hyps [OF shorter that] rd(2) by simp
    have at: "(at_input buf (map Chunk cs) s)\<lparr>im_reader := buf', im_conn := map Chunk cs'\<rparr> = at_input buf' (map Chunk cs') s"
      by (simp add: at_input_def)
    obtain t q where t: "imap_line E (TrimRight l CRLF) s = (t, q)" by fastforce
    have "no_upgrade E t" using imap_line_no_upgrade [OF less.prems t] by simp
    moreover have "imap_line E (TrimRight l CRLF) (at_input buf' (map Chunk cs') s) = (at_input buf' (map Chunk cs') t, q)"
      using at_input_line [OF less.prems] t by simp
    ultimately show ?thesis
      using IH less.prems t lr rd(1)
      by (cases q) (auto simp: imap_loop.simps [of E ?s] at Let_def lines_of.simps [of "buf @ concat cs"])
  qed
qed

lemma run_lines_input:
  "no_upgrade E s \<Longrightarrow> im_reader (run_lines E ls s) = im_reader s \<and> im_conn (run_lines E ls s) = im_conn s"
proof (induction E ls s rule: run_lines.induct)
  case (2 E l ls s)
  obtain t q where t: "imap_line E (TrimRight l CRLF) s = (t, q)" by fastforce
  then show ?case using 2 imap_line_no_upgrade [OF "2.prems" t] by (cases q) auto
qed simp

lemma at_input_same: "im_reader s = b \<Longrightarrow> im_conn s = c \<Longrightarrow> at_input b c s = s"
  by (simp add: at_input_def)

subsection \<open>The end of a session\<close>

lemma at_input_eqD: "at_input b c s = t \<Longrightarrow> imap_state s = imap_state t \<and> im_store s = im_store t \<and> im_sent s = im_sent t"
  by auto

lemma lines_of_Cons: "LF \<notin> set l \<Longrightarrow> lines_of (l @ LF # b) = (l @ [LF]) # lines_of b"
  by (subst lines_of.simps) (simp add: cut_line_append)

lemma lines_of_append: "a = [] \<or> last a = LF \<Longrightarrow> lines_of (a @ b) = lines_of a @ lines_of b"
proof (induction a rule: lines_of.induct)
  case (1 a)
  show ?case
  proof (cases "cut_line a")
    case None
    then have "LF \<notin> set a" by (simp add: cut_line_None_iff)
    then have "a = []" using "1.prems" by (metis last_in_set)
    then show ?thesis by (simp add: lines_of.simps [of "[]"] cut_line_None_iff)
  next
    case (Some lr)
    then obtain m r where a: "a = m @ LF # r" "LF \<notin> set m" "lr = (m @ [LF], r)"
      by (cases lr) (auto simp: cut_line_Some_iff)
    have "r = [] \<or> last r = LF" using "1.prems" a(1) by (cases r) auto
    then have "lines_of (r @ b) = lines_of r @ lines_of b" using "1.IH" [OF Some, of "m @ [LF]" r] a(3) by simp
    then show ?thesis using a by (simp add: lines_of_Cons)
  qed
qed

lemma run_lines_append:
  "imap_state s \<noteq> StateLogout \<Longrightarrow> run_lines E (ls @ ms) s =
     (if imap_state (run_lines E ls s) = StateLogout then run_lines E ls s else run_lines E ms (run_lines E ls s))"
proof (induction ls arbitrary: s)
  case (Cons l ls)
  obtain t q where t: "imap_line E (TrimRight l CRLF) s = (t, q)" by fastforce
  have "q \<longleftrightarrow> imap_state t = StateLogout"
    using t Cons.prems by (auto simp: imap_line_def Let_def split: prod.splits bool.splits)
  then show ?case using Cons t by (cases q) auto
qed simp

lemma run_lines_inv: "looplab_contract (im_Event E) \<Longrightarrow> imap_inv s \<Longrightarrow> imap_inv (run_lines E ls s)"
proof (induction ls arbitrary: s)
  case (Cons l ls)
  obtain t q where t: "imap_line E (TrimRight l CRLF) s = (t, q)" by fastforce
  have "imap_inv t" using imap_line_inv [OF Cons.prems t] .
  then show ?case using Cons t by (cases q) auto
qed simp

text \<open>LOGOUT says goodbye and ends the session, in whatever state it is.\<close>

lemma imap_line_logout:
  assumes "looplab_contract (im_Event E)" "imap_inv s" "imap_state s \<noteq> StateLogout" "SPC \<notin> set tag"
  shows "\<exists>t. imap_line E (tag @ '' LOGOUT'') s = (t, True) \<and> imap_state t = StateLogout \<and> im_store t = im_store s
    \<and> im_sent t = im_sent s @ [''* BYE gomail-core logging out'' @ CRLF, tag @ '' OK LOGOUT completed'' @ CRLF]"
proof -
  have "imap_next (imap_state s) EventLogout = Some StateLogout" using assms(3) by (cases "imap_state s") simp_all
  then have tr: "snd (imap_transition E EventLogout s) = imap_goto StateLogout s"
    using imap_transition_spec [OF assms(1), of s EventLogout] assms(2) by (simp add: imap_inv_def)
  have cut: "Cut SPC (tag @ '' LOGOUT'') = (tag, ''LOGOUT'', True)" using Cut_found [OF assms(4), of "''LOGOUT''"] by simp
  have "Cut SPC ''LOGOUT'' = (''LOGOUT'', [], False)" "ToUpper ''LOGOUT'' = ''LOGOUT''" by code_simp+
  moreover have "imap_dispatch E tag ''LOGOUT'' [] s = handleLogout E tag s"
    using assms(3) by (cases "imap_state s") (simp_all add: imap_dispatch_def)
  ultimately have "imap_line E (tag @ '' LOGOUT'') s = (handleLogout E tag s, imap_state (handleLogout E tag s) = StateLogout)"
    using cut by (simp add: imap_line_def Let_def)
  then show ?thesis by (simp add: handleLogout_def tr imap_goto_def imap_state_def)
qed

end
