(* ===== verification/Mysql.thy ===== *)
theory Mysql
  imports GoLib Ports "HOL-Library.Multiset"
begin

text \<open>
  The MySQL store of \<^verbatim>\<open>internal/storage/mysql\<close>. The SQL statements of the Go code are translated over
  the tables of \<^verbatim>\<open>migrations/001_init.sql\<close>: a table is the list of its rows, a \<^verbatim>\<open>SELECT\<close> a filter, and
  the constraints the migration declares (the foreign key of a message, the range of the columns
  \<^verbatim>\<open>uid_next\<close> and \<^verbatim>\<open>id\<close>) are checked by the statement that could violate them. A server that refuses a
  row for another reason (a text longer than its column or not in its character set, a size beyond
  the range of \<^verbatim>\<open>size_bytes\<close>) is a fault of that statement.

  What the server and the network decide is a parameter (\<open>mysql_server\<close>): the collation by which
  strings are compared, and for each statement, by its number, whether it is lost before it runs
  or its answer is lost after it ran (with the Unicode tables for the names in error texts). A transaction that does not commit leaves the tables as they
  were when it began.

  \<open>uid_inv d pend\<close> is the invariant of the message table: UIDs are unique per mailbox and below the
  mailbox's \<^verbatim>\<open>uid_next\<close>, where \<open>pend\<close> lists the UIDs that have been allocated and not used yet.
\<close>

subsection \<open>The tables\<close>

record mysql_Domain =
  dom_id :: uint64
  dom_name :: string

record domain_row = mysql_Domain +
  dom_active :: bool

record mysql_User =
  usr_id :: uint64
  usr_domain_id :: uint64
  usr_username :: string
  usr_password_hash :: string
  usr_quota_bytes :: int

record user_row = mysql_User +
  usr_active :: bool

record mysql_Mailbox =
  mbx_id :: uint64
  mbx_user_id :: uint64
  mbx_name :: string
  mbx_uid_validity :: uint32
  mbx_uid_next :: uint32

record mysql_Message =
  msg_id :: uint64
  msg_mailbox_id :: uint64
  msg_uid :: uint32
  msg_flags :: string
  msg_size_bytes :: int
  msg_raw_key :: string
  msg_envelope_from :: string
  msg_envelope_to :: string
  msg_subject :: string
  msg_internal_date :: time

text \<open>\<open>next_id\<close> is the auto-increment counter of the message table, \<open>stmts\<close> counts statements.\<close>

record db =
  domains :: "domain_row list"
  users :: "user_row list"
  mailboxes :: "mysql_Mailbox list"
  messages :: "mysql_Message list"
  next_id :: nat
  stmts :: nat

datatype fault = NoFault | FailBefore string | FailAfter string

record mysql_server =
  collate :: "string \<Rightarrow> string \<Rightarrow> bool"
  faults :: "nat \<Rightarrow> fault"
  sql_unicode :: unicode

type_synonym 'a stmt = "db \<Rightarrow> ('a \<times> db) result"

definition exec_sql :: "mysql_server \<Rightarrow> 'a stmt \<Rightarrow> (db, 'a) op" where
  "exec_sql S q d =
     (let d1 = d\<lparr>stmts := Suc (stmts d)\<rparr>
      in case faults S (stmts d) of
           FailBefore m \<Rightarrow> (Inl (ErrExternal m), d1)
         | NoFault \<Rightarrow> (case q d1 of Inl e \<Rightarrow> (Inl e, d1) | Inr (a, d2) \<Rightarrow> (Inr a, d2))
         | FailAfter m \<Rightarrow>
             (case q d1 of Inl e \<Rightarrow> (Inl e, d1) | Inr (a, d2) \<Rightarrow> (Inl (ErrExternal m), d2)))"

text \<open>\<^verbatim>\<open>GetContext\<close> takes the first row of the answer and is \<^verbatim>\<open>sql.ErrNoRows\<close> when there is none.\<close>

definition get_row :: "'a list \<Rightarrow> db \<Rightarrow> ('a \<times> db) result" where
  "get_row rows d = (case rows of [] \<Rightarrow> Inl ErrNoRows | r # _ \<Rightarrow> Inr (r, d))"

subsection \<open>Domains and users\<close>

definition mysql_FindDomain :: "mysql_server \<Rightarrow> string \<Rightarrow> (db, mysql_Domain) op" where
  "mysql_FindDomain S name d =
     (case exec_sql S (\<lambda>d. get_row (map mysql_Domain.truncate
             (filter (\<lambda>r. collate S (dom_name r) name \<and> dom_active r) (domains d))) d) d of
        (Inr r, d) \<Rightarrow> (Inr r, d)
      | (Inl err, d) \<Rightarrow>
          if errors_Is err ErrNoRows then (Inl (Errorf (''domain '' @ fmt_q (sql_unicode S) name @ '' not found'')), d)
          else (Inl (Wrapf ''find domain'' err), d))"

definition mysql_FindUser :: "mysql_server \<Rightarrow> string \<Rightarrow> uint64 \<Rightarrow> (db, mysql_User) op" where
  "mysql_FindUser S username domainID d =
     (case exec_sql S (\<lambda>d. get_row (map mysql_User.truncate
             (filter (\<lambda>r. collate S (usr_username r) username \<and> usr_domain_id r = domainID \<and> usr_active r)
               (users d))) d) d of
        (Inr r, d) \<Rightarrow> (Inr r, d)
      | (Inl err, d) \<Rightarrow>
          if errors_Is err ErrNoRows then (Inl (Errorf (''user '' @ fmt_q (sql_unicode S) username @ '' not found'')), d)
          else (Inl (Wrapf ''find user'' err), d))"

subsection \<open>Mailboxes\<close>

definition mysql_FindMailbox :: "mysql_server \<Rightarrow> uint64 \<Rightarrow> string \<Rightarrow> (db, mysql_Mailbox) op" where
  "mysql_FindMailbox S userID name d =
     (case exec_sql S (\<lambda>d. get_row
             (filter (\<lambda>r. mbx_user_id r = userID \<and> collate S (mbx_name r) name) (mailboxes d)) d) d of
        (Inr r, d) \<Rightarrow> (Inr r, d)
      | (Inl err, d) \<Rightarrow>
          if errors_Is err ErrNoRows
          then (Inl (Errorf (''mailbox '' @ fmt_q (sql_unicode S) name @ '' not found for user '' @ fmt_u userID)), d)
          else (Inl (Wrapf ''find mailbox'' err), d))"

definition mysql_ListMailboxes :: "mysql_server \<Rightarrow> uint64 \<Rightarrow> (db, mysql_Mailbox list) op" where
  "mysql_ListMailboxes S userID d =
     (case exec_sql S (\<lambda>d. Inr (filter (\<lambda>r. mbx_user_id r = userID) (mailboxes d), d)) d of
        (Inr rs, d) \<Rightarrow> (Inr rs, d)
      | (Inl err, d) \<Rightarrow> (Inl (Wrapf ''list mailboxes'' err), d))"

text \<open>
  \<^verbatim>\<open>AllocateUID\<close>: a transaction of a \<^verbatim>\<open>SELECT ... FOR UPDATE\<close> and an \<^verbatim>\<open>UPDATE\<close>. The column is a 32-bit
  unsigned integer; the server refuses an assignment that does not fit (error 1264).
\<close>

definition select_uid_next :: "uint64 \<Rightarrow> uint32 stmt" where
  "select_uid_next mailboxID d =
     get_row (map mbx_uid_next (filter (\<lambda>r. mbx_id r = mailboxID) (mailboxes d))) d"

definition update_uid_next :: "uint64 \<Rightarrow> unit stmt" where
  "update_uid_next mailboxID d =
     (if \<exists>r \<in> set (mailboxes d). mbx_id r = mailboxID \<and> mbx_uid_next r = - 1
      then Inl (ErrExternal ''Out of range value for column uid_next'')
      else Inr ((), d\<lparr>mailboxes := map (\<lambda>r. if mbx_id r = mailboxID
             then r\<lparr>mbx_uid_next := mbx_uid_next r + 1\<rparr> else r) (mailboxes d)\<rparr>))"

definition rollback :: "db \<Rightarrow> db \<Rightarrow> db" where
  "rollback d0 d = d0\<lparr>stmts := stmts d\<rparr>"

definition commit :: "db \<Rightarrow> unit stmt" where
  "commit pending d = Inr ((), pending\<lparr>stmts := stmts d\<rparr>)"

definition mysql_AllocateUID :: "mysql_server \<Rightarrow> uint64 \<Rightarrow> (db, uint32) op" where
  "mysql_AllocateUID S mailboxID d =
     (case exec_sql S (\<lambda>d. Inr ((), d)) d of
        (Inl err, d) \<Rightarrow> (Inl (Wrapf ''allocate uid begin tx'' err), d)
      | (Inr _, d0) \<Rightarrow>
          (case exec_sql S (select_uid_next mailboxID) d0 of
             (Inl err, d) \<Rightarrow> (Inl (Wrapf ''allocate uid select'' err), rollback d0 d)
           | (Inr current, d) \<Rightarrow>
               (case exec_sql S (update_uid_next mailboxID) d of
                  (Inl err, d) \<Rightarrow> (Inl (Wrapf ''allocate uid update'' err), rollback d0 d)
                | (Inr _, d) \<Rightarrow>
                    (case exec_sql S (commit d) (rollback d0 d) of
                       (Inl err, d) \<Rightarrow> (Inl (Wrapf ''allocate uid commit'' err), d)
                     | (Inr _, d) \<Rightarrow> (Inr current, d)))))"

definition mysql_FindInboxByUserID :: "mysql_server \<Rightarrow> uint64 \<Rightarrow> (db, mysql_Mailbox) op" where
  "mysql_FindInboxByUserID S userID d =
     (case mysql_FindMailbox S userID ''INBOX'' d of
        (Inl err, d) \<Rightarrow> (Inl (Wrapf ''find inbox'' err), d)
      | (Inr mb, d) \<Rightarrow> (Inr mb, d))"

definition mysql_GetMailboxByID :: "mysql_server \<Rightarrow> uint64 \<Rightarrow> (db, mysql_Mailbox) op" where
  "mysql_GetMailboxByID S i d =
     (case exec_sql S (\<lambda>d. get_row (filter (\<lambda>r. mbx_id r = i) (mailboxes d)) d) d of
        (Inr r, d) \<Rightarrow> (Inr r, d)
      | (Inl err, d) \<Rightarrow>
          if errors_Is err ErrNoRows then (Inl (Errorf (''mailbox '' @ fmt_u i @ '' not found'')), d)
          else (Inl (Wrapf ''get mailbox by id'' err), d))"

subsection \<open>Messages\<close>

text \<open>
  The inserted row takes its id from the counter, whatever the field of the argument is. The
  foreign key wants an existing mailbox, and the id is a 64-bit unsigned integer.
\<close>

definition insert_message :: "mysql_Message \<Rightarrow> uint64 stmt" where
  "insert_message m d =
     (if \<not> (\<exists>r \<in> set (mailboxes d). mbx_id r = msg_mailbox_id m)
      then Inl (ErrExternal ''a foreign key constraint fails'')
      else if next_id d \<ge> 2 ^ 64 then Inl (ErrExternal ''Failed to read auto-increment value'')
      else Inr (of_nat (next_id d),
             d\<lparr>messages := messages d @ [m\<lparr>msg_id := of_nat (next_id d)\<rparr>], next_id := Suc (next_id d)\<rparr>))"

definition mysql_InsertMessage :: "mysql_server \<Rightarrow> mysql_Message \<Rightarrow> (db, uint64) op" where
  "mysql_InsertMessage S m d =
     (case exec_sql S (insert_message m) d of
        (Inl err, d) \<Rightarrow> (Inl (Wrapf ''insert message'' err), d)
      | (Inr i, d) \<Rightarrow> (Inr i, d))"

definition mysql_ListMessages :: "mysql_server \<Rightarrow> uint64 \<Rightarrow> (db, mysql_Message list) op" where
  "mysql_ListMessages S mailboxID d =
     (case exec_sql S (\<lambda>d. Inr (sort_key msg_uid (filter (\<lambda>m. msg_mailbox_id m = mailboxID) (messages d)), d)) d of
        (Inl err, d) \<Rightarrow> (Inl (Wrapf ''list messages'' err), d)
      | (Inr ms, d) \<Rightarrow> (Inr ms, d))"

definition mysql_GetMessageByUID :: "mysql_server \<Rightarrow> uint64 \<Rightarrow> uint32 \<Rightarrow> (db, mysql_Message) op" where
  "mysql_GetMessageByUID S mailboxID uid d =
     (case exec_sql S (\<lambda>d. get_row
             (filter (\<lambda>m. msg_mailbox_id m = mailboxID \<and> msg_uid m = uid) (messages d)) d) d of
        (Inl err, d) \<Rightarrow> (Inl (Wrapf ''get message by uid'' err), d)
      | (Inr m, d) \<Rightarrow> (Inr m, d))"

subsection \<open>Opening the store, and the data source name in the log\<close>

text \<open>\<^verbatim>\<open>sqlx.Connect\<close> opens a connection and pings it: a parameter that gives an error or none.\<close>

definition mysql_New :: "(string \<Rightarrow> go_error option) \<Rightarrow> string \<Rightarrow> go_error option" where
  "mysql_New connect dsn = map_option (Wrapf ''mysql connect'') (connect dsn)"

text \<open>The two loops of \<^verbatim>\<open>maskDSN\<close>: the outer one runs over the colons, the inner one looks for an at sign.\<close>

fun mask_scan :: "string \<Rightarrow> string \<Rightarrow> string" where
  "mask_scan pre [] = pre"
| "mask_scan pre (c # cs) =
     (if c = CHR '':'' then
        (case dropWhile (\<lambda>x. x \<noteq> CHR ''@'') cs of
           [] \<Rightarrow> mask_scan (pre @ [c]) cs
         | rest \<Rightarrow> pre @ [c] @ ''***'' @ rest)
      else mask_scan (pre @ [c]) cs)"

definition maskDSN :: "string \<Rightarrow> string" where
  "maskDSN dsn = mask_scan [] dsn"

subsection \<open>What the statements do\<close>

text \<open>Two databases with the same tables, whatever the number of statements run on them.\<close>

definition same_tables :: "db \<Rightarrow> db \<Rightarrow> bool" where
  "same_tables d d' \<longleftrightarrow> d'\<lparr>stmts := stmts d\<rparr> = d"

lemma same_tables_iff:
  "same_tables d d' \<longleftrightarrow> domains d' = domains d \<and> users d' = users d \<and> mailboxes d' = mailboxes d
     \<and> messages d' = messages d \<and> next_id d' = next_id d"
  unfolding same_tables_def by (cases d; cases d') auto

lemma same_tables_refl [simp]: "same_tables d d"
  by (simp add: same_tables_iff)

lemma same_tables_trans: "same_tables a b \<Longrightarrow> same_tables b c \<Longrightarrow> same_tables a c"
  by (simp add: same_tables_iff)

lemma same_tables_stmts [simp]: "same_tables d (d\<lparr>stmts := n\<rparr>)"
  by (simp add: same_tables_iff)

lemma exec_sql_cases:
  assumes "exec_sql S q d = (r, d')"
  obtains (lost) m where "r = Inl (ErrExternal m)" "d' = d\<lparr>stmts := Suc (stmts d)\<rparr>"
  | (failed) e where "q (d\<lparr>stmts := Suc (stmts d)\<rparr>) = Inl e" "r = Inl e" "d' = d\<lparr>stmts := Suc (stmts d)\<rparr>"
  | (ran) a where "q (d\<lparr>stmts := Suc (stmts d)\<rparr>) = Inr (a, d')" "r = Inr a"
  | (unanswered) a m where "q (d\<lparr>stmts := Suc (stmts d)\<rparr>) = Inr (a, d')" "r = Inl (ErrExternal m)"
proof (cases "faults S (stmts d)")
  case NoFault
  with assms ran failed show ?thesis
    by (cases "q (d\<lparr>stmts := Suc (stmts d)\<rparr>)") (fastforce simp: exec_sql_def Let_def)+
next
  case (FailBefore m)
  with assms have "r = Inl (ErrExternal m)" "d' = d\<lparr>stmts := Suc (stmts d)\<rparr>"
    by (simp_all add: exec_sql_def Let_def)
  then show ?thesis by (rule lost)
next
  case (FailAfter m)
  with assms unanswered failed show ?thesis
    by (cases "q (d\<lparr>stmts := Suc (stmts d)\<rparr>)") (fastforce simp: exec_sql_def Let_def)+
qed

text \<open>A \<^verbatim>\<open>SELECT\<close> changes no table, and an answer it gives is an answer about these tables.\<close>

lemma exec_sql_select:
  assumes "exec_sql S (\<lambda>d. get_row (f d) d) d = (r, d')" "\<And>d n. f (d\<lparr>stmts := n\<rparr>) = f d"
  shows "same_tables d d' \<and> (\<forall>a. r = Inr a \<longrightarrow> a \<in> set (f d))"
  using assms(1)
  by (cases rule: exec_sql_cases) (auto simp: get_row_def assms(2) split: list.splits)

lemma exec_sql_select_all:
  assumes "exec_sql S (\<lambda>d. Inr (f d, d)) d = (r, d')" "\<And>d n. f (d\<lparr>stmts := n\<rparr>) = f d"
  shows "same_tables d d' \<and> (\<forall>a. r = Inr a \<longrightarrow> a = f d)"
  using assms(1) by (cases rule: exec_sql_cases) (auto simp: assms(2))

lemma mysql_FindDomain_spec:
  assumes "mysql_FindDomain S name d = (r, d')"
  shows "same_tables d d'"
    and "r = Inr m \<Longrightarrow> \<exists>x \<in> set (domains d). m = mysql_Domain.truncate x \<and> collate S (dom_name x) name \<and> dom_active x"
proof -
  let ?f = "\<lambda>d. map mysql_Domain.truncate (filter (\<lambda>r. collate S (dom_name r) name \<and> dom_active r) (domains d))"
  obtain r0 d0 where ex: "exec_sql S (\<lambda>d. get_row (?f d) d) d = (r0, d0)" by fastforce
  have sel: "same_tables d d0 \<and> (\<forall>a. r0 = Inr a \<longrightarrow> a \<in> set (?f d))"
    using exec_sql_select [OF ex] by simp
  show "same_tables d d'"
    using assms ex sel by (auto simp: mysql_FindDomain_def split: sum.splits if_splits)
  show "r = Inr m \<Longrightarrow> \<exists>x \<in> set (domains d). m = mysql_Domain.truncate x \<and> collate S (dom_name x) name \<and> dom_active x"
    using assms ex sel by (auto simp: mysql_FindDomain_def split: sum.splits if_splits)
qed

lemma mysql_FindUser_spec:
  assumes "mysql_FindUser S u did d = (r, d')"
  shows "same_tables d d'"
    and "r = Inr m \<Longrightarrow> \<exists>x \<in> set (users d). m = mysql_User.truncate x \<and> collate S (usr_username x) u
           \<and> usr_domain_id x = did \<and> usr_active x"
proof -
  let ?f = "\<lambda>d. map mysql_User.truncate
    (filter (\<lambda>r. collate S (usr_username r) u \<and> usr_domain_id r = did \<and> usr_active r) (users d))"
  obtain r0 d0 where ex: "exec_sql S (\<lambda>d. get_row (?f d) d) d = (r0, d0)" by fastforce
  have sel: "same_tables d d0 \<and> (\<forall>a. r0 = Inr a \<longrightarrow> a \<in> set (?f d))"
    using exec_sql_select [OF ex] by simp
  show "same_tables d d'"
    using assms ex sel by (auto simp: mysql_FindUser_def split: sum.splits if_splits)
  show "r = Inr m \<Longrightarrow> \<exists>x \<in> set (users d). m = mysql_User.truncate x \<and> collate S (usr_username x) u
           \<and> usr_domain_id x = did \<and> usr_active x"
    using assms ex sel by (auto simp: mysql_FindUser_def split: sum.splits if_splits)
qed

lemma mysql_FindMailbox_spec:
  assumes "mysql_FindMailbox S uid name d = (r, d')"
  shows "same_tables d d'"
    and "r = Inr m \<Longrightarrow> m \<in> set (mailboxes d) \<and> mbx_user_id m = uid \<and> collate S (mbx_name m) name"
proof -
  let ?f = "\<lambda>d. filter (\<lambda>r. mbx_user_id r = uid \<and> collate S (mbx_name r) name) (mailboxes d)"
  obtain r0 d0 where ex: "exec_sql S (\<lambda>d. get_row (?f d) d) d = (r0, d0)" by fastforce
  have sel: "same_tables d d0 \<and> (\<forall>a. r0 = Inr a \<longrightarrow> a \<in> set (?f d))"
    using exec_sql_select [OF ex] by simp
  show "same_tables d d'"
    using assms ex sel by (auto simp: mysql_FindMailbox_def split: sum.splits if_splits)
  show "r = Inr m \<Longrightarrow> m \<in> set (mailboxes d) \<and> mbx_user_id m = uid \<and> collate S (mbx_name m) name"
    using assms ex sel by (auto simp: mysql_FindMailbox_def split: sum.splits if_splits)
qed

lemma mysql_FindInbox_spec:
  assumes "mysql_FindInboxByUserID S uid d = (r, d')"
  shows "same_tables d d'"
    and "r = Inr m \<Longrightarrow> m \<in> set (mailboxes d) \<and> mbx_user_id m = uid \<and> collate S (mbx_name m) ''INBOX''"
proof -
  obtain r0 d0 where f: "mysql_FindMailbox S uid ''INBOX'' d = (r0, d0)" by fastforce
  show "same_tables d d'"
    using assms f mysql_FindMailbox_spec(1) [OF f]
    by (auto simp: mysql_FindInboxByUserID_def split: sum.splits)
  show "r = Inr m \<Longrightarrow> m \<in> set (mailboxes d) \<and> mbx_user_id m = uid \<and> collate S (mbx_name m) ''INBOX''"
    using assms f mysql_FindMailbox_spec(2) [OF f]
    by (auto simp: mysql_FindInboxByUserID_def split: sum.splits)
qed

lemma mysql_ListMailboxes_spec:
  assumes "mysql_ListMailboxes S uid d = (r, d')"
  shows "same_tables d d'"
    and "r = Inr ms \<Longrightarrow> ms = filter (\<lambda>r. mbx_user_id r = uid) (mailboxes d)"
  using assms exec_sql_select_all [of S "\<lambda>d. filter (\<lambda>r. mbx_user_id r = uid) (mailboxes d)" d]
  by (auto simp: mysql_ListMailboxes_def split: prod.splits sum.splits)

lemma mysql_GetMailboxByID_spec:
  assumes "mysql_GetMailboxByID S i d = (r, d')"
  shows "same_tables d d'"
    and "r = Inr m \<Longrightarrow> m \<in> set (mailboxes d) \<and> mbx_id m = i"
proof -
  let ?f = "\<lambda>d. filter (\<lambda>r. mbx_id r = i) (mailboxes d)"
  obtain r0 d0 where ex: "exec_sql S (\<lambda>d. get_row (?f d) d) d = (r0, d0)" by fastforce
  have sel: "same_tables d d0 \<and> (\<forall>a. r0 = Inr a \<longrightarrow> a \<in> set (?f d))"
    using exec_sql_select [OF ex] by simp
  show "same_tables d d'"
    using assms ex sel by (auto simp: mysql_GetMailboxByID_def split: sum.splits if_splits)
  show "r = Inr m \<Longrightarrow> m \<in> set (mailboxes d) \<and> mbx_id m = i"
    using assms ex sel by (auto simp: mysql_GetMailboxByID_def split: sum.splits if_splits)
qed

lemma mysql_ListMessages_spec:
  assumes "mysql_ListMessages S b d = (r, d')"
  shows "same_tables d d'"
    and "r = Inr ms \<Longrightarrow> ms = sort_key msg_uid (filter (\<lambda>m. msg_mailbox_id m = b) (messages d))"
  using assms exec_sql_select_all
    [of S "\<lambda>d. sort_key msg_uid (filter (\<lambda>m. msg_mailbox_id m = b) (messages d))" d]
  by (auto simp: mysql_ListMessages_def split: prod.splits sum.splits)

lemma mysql_GetMessageByUID_spec:
  assumes "mysql_GetMessageByUID S b u d = (r, d')"
  shows "same_tables d d'"
    and "r = Inr m \<Longrightarrow> m \<in> set (messages d) \<and> msg_mailbox_id m = b \<and> msg_uid m = u"
proof -
  let ?f = "\<lambda>d. filter (\<lambda>m. msg_mailbox_id m = b \<and> msg_uid m = u) (messages d)"
  obtain r0 d0 where ex: "exec_sql S (\<lambda>d. get_row (?f d) d) d = (r0, d0)" by fastforce
  have sel: "same_tables d d0 \<and> (\<forall>a. r0 = Inr a \<longrightarrow> a \<in> set (?f d))"
    using exec_sql_select [OF ex] by simp
  show "same_tables d d'"
    using assms ex sel by (auto simp: mysql_GetMessageByUID_def split: sum.splits)
  show "r = Inr m \<Longrightarrow> m \<in> set (messages d) \<and> msg_mailbox_id m = b \<and> msg_uid m = u"
    using assms ex sel by (auto simp: mysql_GetMessageByUID_def split: sum.splits)
qed

subsection \<open>Allocating a UID\<close>

lemma update_uid_next_stmts:
  "update_uid_next b (d\<lparr>stmts := n\<rparr>) = map_sum id (map_prod id (\<lambda>t. t\<lparr>stmts := n\<rparr>)) (update_uid_next b d)"
  by (simp add: update_uid_next_def)

text \<open>
  The four statements of \<^verbatim>\<open>AllocateUID\<close> together: nothing has happened, or the counter has been
  incremented once; a returned UID is the counter's old value.
\<close>

lemma AllocateUID_cases:
  assumes "mysql_AllocateUID S b d = (r, d')"
  obtains (nothing) e where "r = Inl e" "same_tables d d'"
  | (counted) u t where "select_uid_next b d = Inr (u, d)" "update_uid_next b d = Inr ((), t)"
      "same_tables t d'" "r = Inr u \<or> (\<exists>e. r = Inl e)"
proof -
  obtain r0 d0 where e0: "exec_sql S (\<lambda>d. Inr ((), d)) d = (r0, d0)" by fastforce
  then have st0: "same_tables d d0" using exec_sql_select_all [of S "\<lambda>_. ()"] by blast
  obtain r1 d1 where e1: "exec_sql S (select_uid_next b) d0 = (r1, d1)" by fastforce
  let ?rows = "\<lambda>d. map mbx_uid_next (filter (\<lambda>r. mbx_id r = b) (mailboxes d))"
  have sel: "select_uid_next b = (\<lambda>d. get_row (?rows d) d)"
    by (rule ext) (simp add: select_uid_next_def)
  have st1: "same_tables d0 d1"
    using e1 exec_sql_select [of S ?rows d0 r1 d1] unfolding sel by simp
  obtain r2 d2 where e2: "exec_sql S (update_uid_next b) d1 = (r2, d2)" by fastforce
  obtain r3 d3 where e3: "exec_sql S (commit d2) (rollback d0 d2) = (r3, d3)" by fastforce
  have undone: "same_tables d (rollback d0 x)" for x
    using st0 by (simp add: same_tables_iff rollback_def)
  show ?thesis
  proof (cases r0)
    case (Inl e)
    with assms e0 st0 show ?thesis by - (rule nothing, auto simp: mysql_AllocateUID_def)
  next
    case r0: (Inr x)
    show ?thesis
    proof (cases r1)
      case (Inl e)
      with assms e0 e1 r0 undone show ?thesis by - (rule nothing, auto simp: mysql_AllocateUID_def)
    next
      case r1: (Inr u)
      show ?thesis
      proof (cases r2)
        case (Inl e)
        with assms e0 e1 e2 r0 r1 undone show ?thesis
          by - (rule nothing, auto simp: mysql_AllocateUID_def)
      next
        case r2: (Inr y)
        have u: "select_uid_next b d = Inr (u, d)"
          using e1 r1 st0 by (cases rule: exec_sql_cases)
            (auto simp: select_uid_next_def get_row_def same_tables_iff split: list.splits)
        from e2 have "\<exists>t. update_uid_next b d = Inr ((), t) \<and> same_tables t d2"
          using r2 st0 st1 by (cases rule: exec_sql_cases)
            (auto simp: update_uid_next_def same_tables_iff split: if_splits)
        then obtain t where t: "update_uid_next b d = Inr ((), t)" "same_tables t d2" by blast
        have d': "d' = d3" and r: "r = (case r3 of Inl e \<Rightarrow> Inl (Wrapf ''allocate uid commit'' e) | Inr _ \<Rightarrow> Inr u)"
          using assms e0 e1 e2 e3 r0 r1 r2 by (auto simp: mysql_AllocateUID_def split: sum.splits)
        show ?thesis
          using e3
        proof (cases rule: exec_sql_cases)
          case lost
          with d' r undone [of d2] show ?thesis
            by - (rule nothing, auto simp: same_tables_iff)
        next
          case failed
          then show ?thesis by (simp add: commit_def)
        next
          case ran
          with d' r t show ?thesis
            by - (rule counted [OF u t(1)], auto simp: commit_def same_tables_iff)
        next
          case unanswered
          with d' r t show ?thesis
            by - (rule counted [OF u t(1)], auto simp: commit_def same_tables_iff)
        qed
      qed
    qed
  qed
qed

subsection \<open>The invariant of the message table\<close>

definition used_uids :: "db \<Rightarrow> (uint64 \<times> uint32) list" where
  "used_uids d = map (\<lambda>m. (msg_mailbox_id m, msg_uid m)) (messages d)"

definition below_next :: "db \<Rightarrow> uint64 \<times> uint32 \<Rightarrow> bool" where
  "below_next d p \<longleftrightarrow> (\<exists>r \<in> set (mailboxes d). mbx_id r = fst p \<and> snd p < mbx_uid_next r)"

definition uid_inv :: "db \<Rightarrow> (uint64 \<times> uint32) list \<Rightarrow> bool" where
  "uid_inv d pend \<longleftrightarrow>
     distinct (map mbx_id (mailboxes d))
     \<and> distinct (used_uids d @ pend)
     \<and> (\<forall>p \<in> set (used_uids d @ pend). below_next d p)
     \<and> distinct (map msg_id (messages d))
     \<and> (\<forall>m \<in> set (messages d). unat (msg_id m) < next_id d)"

lemma uid_inv_same_tables: "same_tables d d' \<Longrightarrow> uid_inv d' pend = uid_inv d pend"
  by (simp add: same_tables_iff uid_inv_def used_uids_def below_next_def)

lemma uid_inv_mset: "mset pend = mset pend' \<Longrightarrow> uid_inv d pend = uid_inv d pend'"
  unfolding uid_inv_def using mset_eq_setD [of pend pend'] mset_eq_imp_distinct_iff [of pend pend']
  by auto

lemma uid_inv_drop: "uid_inv d (p # pend) \<Longrightarrow> uid_inv d pend"
  by (auto simp: uid_inv_def)

lemma word_less_succ: "(u :: 32 word) \<noteq> - 1 \<Longrightarrow> u < u + 1"
proof -
  assume "u \<noteq> - 1"
  moreover have "unat (- 1 :: 32 word) = 2 ^ 32 - 1" by (simp add: unsigned_minus_1_eq_mask mask_eq_exp_minus_1)
  ultimately have "unat u \<noteq> 2 ^ 32 - 1" by (metis word_unat_eq_iff)
  moreover have "unat u < 2 ^ LENGTH(32)" by (rule unsigned_less)
  ultimately have "unat u + 1 < 2 ^ 32" by simp
  then show ?thesis by (simp add: word_less_nat_alt unat_word_ariths)
qed

lemma select_uid_nextD:
  assumes "select_uid_next b d = Inr (u, d')"
  shows "\<exists>r \<in> set (mailboxes d). mbx_id r = b \<and> mbx_uid_next r = u"
proof -
  obtain r rs where "filter (\<lambda>r. mbx_id r = b) (mailboxes d) = r # rs" "u = mbx_uid_next r"
    using assms by (auto simp: select_uid_next_def get_row_def split: list.splits)
  moreover from this(1) have "r \<in> set (filter (\<lambda>r. mbx_id r = b) (mailboxes d))" by simp
  then have "r \<in> set (mailboxes d)" "mbx_id r = b" by simp_all
  ultimately show ?thesis by blast
qed

lemma update_uid_next_row:
  assumes "update_uid_next b d = Inr ((), t)" "r \<in> set (mailboxes d)" "mbx_id r = b"
  shows "r\<lparr>mbx_uid_next := mbx_uid_next r + 1\<rparr> \<in> set (mailboxes t)"
  using assms by (force simp: update_uid_next_def split: if_splits)

lemma update_uid_next_below:
  assumes "update_uid_next b d = Inr ((), t)" "below_next d p"
  shows "below_next t p"
proof -
  from assms(2) obtain r where r: "r \<in> set (mailboxes d)" "mbx_id r = fst p" "snd p < mbx_uid_next r"
    by (auto simp: below_next_def)
  show ?thesis
  proof (cases "mbx_id r = b")
    case True
    with assms(1) r have "mbx_uid_next r \<noteq> - 1"
      by (auto simp: update_uid_next_def split: if_splits)
    then have "snd p < mbx_uid_next r + 1"
      using r(3) word_less_succ less_trans by blast
    moreover have "r\<lparr>mbx_uid_next := mbx_uid_next r + 1\<rparr> \<in> set (mailboxes t)"
      using update_uid_next_row [OF assms(1) r(1) True] .
    ultimately show ?thesis using r(2) unfolding below_next_def
      by (intro bexI [of _ "r\<lparr>mbx_uid_next := mbx_uid_next r + 1\<rparr>"]) simp_all
  next
    case False
    with r assms(1) show ?thesis
      by (auto simp: update_uid_next_def below_next_def split: if_splits)
  qed
qed

lemma uid_inv_allocate:
  assumes inv: "uid_inv d pend"
    and sel: "select_uid_next b d = Inr (u, d)" and upd: "update_uid_next b d = Inr ((), t)"
  shows "uid_inv t ((b, u) # pend)"
proof -
  obtain r where r: "r \<in> set (mailboxes d)" "mbx_id r = b" "mbx_uid_next r = u"
    using select_uid_nextD [OF sel] by blast
  have only: "mbx_uid_next x = u" if "x \<in> set (mailboxes d)" "mbx_id x = b" for x
    using inv r that by (metis uid_inv_def distinct_map inj_onD)
  have fresh: "(b, u) \<notin> set (used_uids d @ pend)"
  proof
    assume "(b, u) \<in> set (used_uids d @ pend)"
    then have "below_next d (b, u)" using inv by (simp add: uid_inv_def)
    then show False using only by (auto simp: below_next_def)
  qed
  have nomax: "u \<noteq> - 1" using upd r by (auto simp: update_uid_next_def split: if_splits)
  have new: "below_next t (b, u)"
    using update_uid_next_row [OF upd r(1,2)] r nomax word_less_succ [of u] unfolding below_next_def
    by (intro bexI [of _ "r\<lparr>mbx_uid_next := mbx_uid_next r + 1\<rparr>"]) simp_all
  have old: "\<forall>p \<in> set (used_uids d @ pend). below_next t p"
    using inv update_uid_next_below [OF upd] by (simp add: uid_inv_def)
  have "map mbx_id (mailboxes t) = map mbx_id (mailboxes d)" and "messages t = messages d"
    and "next_id t = next_id d"
    using upd by (auto simp: update_uid_next_def split: if_splits)
  then show ?thesis
    using inv fresh new old by (auto simp: uid_inv_def used_uids_def)
qed

lemma AllocateUID_inv:
  assumes "uid_inv d pend" "mysql_AllocateUID S b d = (r, d')"
  shows "uid_inv d' (case r of Inl _ \<Rightarrow> pend | Inr u \<Rightarrow> (b, u) # pend)"
  using assms(2)
proof (cases rule: AllocateUID_cases)
  case (nothing e)
  with assms(1) show ?thesis by (simp add: uid_inv_same_tables)
next
  case (counted u t)
  then have "uid_inv d' ((b, u) # pend)"
    using uid_inv_allocate [OF assms(1)] by (simp add: uid_inv_same_tables)
  with counted show ?thesis by (auto dest: uid_inv_drop)
qed

lemma insert_message_inv:
  assumes "uid_inv d ((msg_mailbox_id m, msg_uid m) # pend)" "insert_message m d = Inr (i, t)"
  shows "uid_inv t pend"
proof -
  have t: "t = d\<lparr>messages := messages d @ [m\<lparr>msg_id := of_nat (next_id d)\<rparr>], next_id := Suc (next_id d)\<rparr>"
    and small: "next_id d < 2 ^ 64"
    using assms(2) by (auto simp: insert_message_def split: if_splits)
  have un: "unat (of_nat (next_id d) :: uint64) = next_id d"
    using small by (simp add: unat_of_nat)
  have "of_nat (next_id d) \<notin> msg_id ` set (messages d)"
    using assms(1) un by (auto simp: uid_inv_def)
  then show ?thesis
    using assms(1) un unfolding t uid_inv_def used_uids_def below_next_def
    by (auto simp: less_SucI)
qed

lemma InsertMessage_inv:
  assumes "uid_inv d ((msg_mailbox_id m, msg_uid m) # pend)" "mysql_InsertMessage S m d = (r, d')"
  shows "uid_inv d' pend"
proof -
  obtain r0 where ex: "exec_sql S (insert_message m) d = (r0, d')"
    using assms(2) by (auto simp: mysql_InsertMessage_def split: prod.splits sum.splits)
  have inv1: "uid_inv (d\<lparr>stmts := n\<rparr>) ((msg_mailbox_id m, msg_uid m) # pend)" for n
    using assms(1) uid_inv_same_tables [OF same_tables_stmts] by blast
  from ex show ?thesis
    by (cases rule: exec_sql_cases)
      (use inv1 in \<open>auto intro: insert_message_inv uid_inv_drop\<close>)
qed

lemma uid_inv_read:
  "uid_inv d pend \<Longrightarrow> same_tables d d' \<Longrightarrow> uid_inv d' pend"
  by (simp add: uid_inv_same_tables)

end
