(* ===== verification/Redis.thy ===== *)
theory Redis
  imports GoLib Ports
begin

text \<open>
  The Redis store of \<^verbatim>\<open>internal/storage/redis/store.go\<close>. The client library and the server behind it are
  a parameter: a record of the commands the code issues, over a state \<open>'r\<close>. What the code relies on
  is \<open>redis_contract\<close>, stated with a view of the server's string keys: a \<^verbatim>\<open>SET\<close> binds its key and no
  other, a \<^verbatim>\<open>GET\<close> answers with the binding, and keys may vanish at any time (expiry, eviction). A
  command that reports an error may or may not have run. \<open>map_redis\<close> is a concrete client that
  satisfies the contract.
\<close>

datatype redis_cmd = Incr string | Expire string int

record 'r redis_client =
  rds_Set :: "string \<Rightarrow> bytes \<Rightarrow> int \<Rightarrow> 'r \<Rightarrow> go_error option \<times> 'r"
  rds_Get :: "string \<Rightarrow> ('r, bytes) op"
  rds_Exec :: "redis_cmd list \<Rightarrow> ('r, int list) op"

text \<open>A \<^verbatim>\<open>time.Duration\<close> counts nanoseconds.\<close>

definition bodyTTL :: int where
  "bodyTTL = 24 * 3600 * 1000000000"

definition messageBodyKey :: "uint64 \<Rightarrow> string" where
  "messageBodyKey messageID = ''msg:body:'' @ fmt_u messageID"

definition SetMessageBody :: "'r redis_client \<Rightarrow> uint64 \<Rightarrow> bytes \<Rightarrow> 'r \<Rightarrow> go_error option \<times> 'r" where
  "SetMessageBody C messageID body r =
     (case rds_Set C (messageBodyKey messageID) body bodyTTL r of
        (Some err, r) \<Rightarrow> (Some (Wrapf ''redis set message body'' err), r)
      | (None, r) \<Rightarrow> (None, r))"

text \<open>A miss is \<^verbatim>\<open>nil, nil\<close>: no error and no body.\<close>

definition redis_GetMessageBody :: "'r redis_client \<Rightarrow> uint64 \<Rightarrow> ('r, bytes option) op" where
  "redis_GetMessageBody C messageID r =
     (case rds_Get C (messageBodyKey messageID) r of
        (Inl err, r) \<Rightarrow>
          if err = ErrRedisNil then (Inr None, r)
          else (Inl (Wrapf ''redis get message body'' err), r)
      | (Inr data, r) \<Rightarrow> (Inr (Some data), r))"

text \<open>
  The pipeline sends \<^verbatim>\<open>INCR\<close> and \<^verbatim>\<open>EXPIRE\<close> together; \<^verbatim>\<open>incr.Val()\<close> is the answer to the first command,
  zero where there is none.
\<close>

definition SetRateLimit :: "'r redis_client \<Rightarrow> string \<Rightarrow> int \<Rightarrow> ('r, int) op" where
  "SetRateLimit C key window r =
     (case rds_Exec C [Incr (''ratelimit:'' @ key), Expire (''ratelimit:'' @ key) window] r of
        (Inl err, r) \<Rightarrow> (Inl (Wrapf ''redis rate limit'' err), r)
      | (Inr vals, r) \<Rightarrow> (Inr (case vals of [] \<Rightarrow> 0 | v # _ \<Rightarrow> v), r))"

text \<open>The \<^verbatim>\<open>PING\<close> of a client with these options is a parameter that gives an error or none.\<close>

definition redis_New :: "(string \<Rightarrow> string \<Rightarrow> int \<Rightarrow> go_error option) \<Rightarrow> string \<Rightarrow> string \<Rightarrow> int \<Rightarrow> go_error option" where
  "redis_New ping addr password db = map_option (Wrapf ''redis ping'') (ping addr password db)"

subsection \<open>What the code relies on\<close>

definition redis_writes :: "'r redis_client \<Rightarrow> ('r \<Rightarrow> string \<rightharpoonup> bytes) \<Rightarrow> bool" where
  "redis_writes C view \<longleftrightarrow>
     (\<forall>k b t r r'. rds_Set C k b t r = (None, r') \<longrightarrow> view r' \<subseteq>\<^sub>m (view r)(k \<mapsto> b))
     \<and> (\<forall>k b t r r' e. rds_Set C k b t r = (Some e, r') \<longrightarrow>
          view r' \<subseteq>\<^sub>m view r \<or> view r' \<subseteq>\<^sub>m (view r)(k \<mapsto> b))"

definition redis_reads :: "'r redis_client \<Rightarrow> ('r \<Rightarrow> string \<rightharpoonup> bytes) \<Rightarrow> bool" where
  "redis_reads C view \<longleftrightarrow>
     (\<forall>k r x r'. rds_Get C k r = (x, r') \<longrightarrow>
        view r' \<subseteq>\<^sub>m view r \<and> (\<forall>b. x = Inr b \<longrightarrow> view r k = Some b))"

definition redis_contract :: "'r redis_client \<Rightarrow> ('r \<Rightarrow> string \<rightharpoonup> bytes) \<Rightarrow> bool" where
  "redis_contract C view \<longleftrightarrow> redis_writes C view \<and> redis_reads C view"

lemma redis_writes_nothing: "redis_writes C (\<lambda>_. Map.empty)"
  by (simp add: redis_writes_def)

definition map_redis :: "(string \<rightharpoonup> bytes) redis_client" where
  "map_redis = \<lparr>rds_Set = (\<lambda>k b t r. (None, r(k \<mapsto> b))),
     rds_Get = (\<lambda>k r. (case r k of None \<Rightarrow> Inl ErrRedisNil | Some b \<Rightarrow> Inr b, r)),
     rds_Exec = (\<lambda>cs r. (Inr (map (\<lambda>_. 1) cs), r))\<rparr>"

lemma map_redis_contract: "redis_contract map_redis (\<lambda>r. r)"
  by (auto simp: redis_contract_def redis_writes_def redis_reads_def map_redis_def split: option.splits)

text \<open>
  A server that answers, while no entry has reached the end of its lifetime: every \<^verbatim>\<open>SET\<close> is done, every
  \<^verbatim>\<open>GET\<close> gives the binding or reports that there is none, and nothing is evicted.
\<close>

definition redis_keeps :: "'r redis_client \<Rightarrow> ('r \<Rightarrow> string \<rightharpoonup> bytes) \<Rightarrow> bool" where
  "redis_keeps C view \<longleftrightarrow>
     (\<forall>k b t r. \<exists>r'. rds_Set C k b t r = (None, r') \<and> view r' = (view r)(k \<mapsto> b))
     \<and> (\<forall>k r. \<exists>r'. rds_Get C k r = (case view r k of None \<Rightarrow> Inl ErrRedisNil | Some b \<Rightarrow> Inr b, r') \<and> view r' = view r)"

lemma map_redis_keeps: "redis_keeps map_redis (\<lambda>r. r)"
  by (simp add: redis_keeps_def map_redis_def)

subsection \<open>The bodies in the cache\<close>

text \<open>Different messages have different keys.\<close>

lemma messageBodyKey_inject [simp]: "messageBodyKey i = messageBodyKey j \<longleftrightarrow> i = j"
  by (simp add: messageBodyKey_def fmt_u_inject)

lemma SetMessageBody_view:
  assumes "redis_writes C view" "SetMessageBody C i body r = (x, r')"
    and "view r' (messageBodyKey j) = Some b"
  shows "view r (messageBodyKey j) = Some b \<or> j = i \<and> b = body"
proof -
  obtain x0 where x0: "rds_Set C (messageBodyKey i) body bodyTTL r = (x0, r')"
    using assms(2) by (auto simp: SetMessageBody_def split: prod.splits option.splits)
  then have "view r' \<subseteq>\<^sub>m view r \<or> view r' \<subseteq>\<^sub>m (view r)(messageBodyKey i \<mapsto> body)"
    using assms(1) unfolding redis_writes_def by (cases x0) blast+
  then have "Some b = view r (messageBodyKey j) \<or> Some b = ((view r)(messageBodyKey i \<mapsto> body)) (messageBodyKey j)"
    using assms(3) by (metis map_le_def domI)
  then show ?thesis by (auto split: if_splits)
qed

lemma redis_GetMessageBody_view:
  assumes "redis_reads C view" "redis_GetMessageBody C i r = (x, r')"
  shows "view r' \<subseteq>\<^sub>m view r" and "x = Inr (Some b) \<Longrightarrow> view r (messageBodyKey i) = Some b"
proof -
  obtain x0 where x0: "rds_Get C (messageBodyKey i) r = (x0, r')"
    using assms(2) by (auto simp: redis_GetMessageBody_def split: prod.splits sum.splits if_splits)
  then show "view r' \<subseteq>\<^sub>m view r" using assms(1) by (auto simp: redis_reads_def)
  have "x0 = Inr b" if "x = Inr (Some b)"
    using assms(2) x0 that by (auto simp: redis_GetMessageBody_def split: sum.splits if_splits)
  then show "x = Inr (Some b) \<Longrightarrow> view r (messageBodyKey i) = Some b"
    using assms(1) x0 by (auto simp: redis_reads_def)
qed

lemma SetMessageBody_keeps:
  assumes "redis_keeps C view" "SetMessageBody C i body r = (x, r')"
  shows "view r' = (view r)(messageBodyKey i \<mapsto> body)"
proof -
  obtain r1 where "rds_Set C (messageBodyKey i) body bodyTTL r = (None, r1)" "view r1 = (view r)(messageBodyKey i \<mapsto> body)"
    using assms(1) unfolding redis_keeps_def by blast
  then show ?thesis using assms(2) by (simp add: SetMessageBody_def)
qed

lemma GetMessageBody_keeps:
  assumes "redis_keeps C view" "redis_GetMessageBody C i r = (x, r')"
  shows "x = Inr (view r (messageBodyKey i)) \<and> view r' = view r"
proof -
  obtain r1 where "rds_Get C (messageBodyKey i) r = (case view r (messageBodyKey i) of None \<Rightarrow> Inl ErrRedisNil | Some b \<Rightarrow> Inr b, r1)"
    "view r1 = view r"
    using assms(1) unfolding redis_keeps_def by blast
  then show ?thesis using assms(2) by (simp add: redis_GetMessageBody_def split: option.splits)
qed

end
