(* ===== verification/Storage.thy ===== *)
theory Storage
  imports Mysql Redis
begin

text \<open>
  The message store of \<^verbatim>\<open>internal/storage/message_store.go\<close>, which stands behind all the ports: delivery to
  the INBOX of each recipient, and the readers of the IMAP and JMAP servers. Its state is the
  database, the cache and the number of clock readings; the two servers behind it and the clock
  are the record \<open>backend\<close>.

  \<open>deliverTo\<close> is the Go function. The same function cut at its calls to the backends is the step
  function \<open>dlv_step\<close> (\<open>deliverTo_steps\<close> proves the two equal); with it, sessions that deliver at the
  same time are the inductive relation \<open>concurrent\<close>, and the invariant \<open>store_inv\<close> is proved for every
  interleaving.
\<close>

record 'r backend =
  be_mysql :: mysql_server
  be_redis :: "'r redis_client"
  be_Now :: "nat \<Rightarrow> time"

record 'r MessageStore =
  ms_sql :: db
  ms_redis :: 'r
  ms_ticks :: nat

type_synonym ('r, 'a) store_op = "('r MessageStore, 'a) op"

definition on_sql :: "(db, 'a) op \<Rightarrow> ('r, 'a) store_op" where
  "on_sql f s = (case f (ms_sql s) of (x, d) \<Rightarrow> (x, s\<lparr>ms_sql := d\<rparr>))"

definition on_redis :: "('r \<Rightarrow> 'a \<times> 'r) \<Rightarrow> 'r MessageStore \<Rightarrow> 'a \<times> 'r MessageStore" where
  "on_redis f s = (case f (ms_redis s) of (x, r) \<Rightarrow> (x, s\<lparr>ms_redis := r\<rparr>))"

subsection \<open>Delivery\<close>

definition storage_parseAddress :: "string \<Rightarrow> (string \<times> string) option" where
  "storage_parseAddress addr =
     (case SplitN2 CHR ''@'' addr of
        [a, b] \<Rightarrow> if a = [] \<or> b = [] then None else Some (a, b)
      | _ \<Rightarrow> None)"

fun subject_scan :: "string list \<Rightarrow> string" where
  "subject_scan [] = []"
| "subject_scan (line # lines) =
     (if HasPrefix (ToUpper line) ''SUBJECT:'' then TrimSpace (drop 8 line)
      else if TrimSpace line = [] then []
      else subject_scan lines)"

definition extractSubject :: "bytes \<Rightarrow> string" where
  "extractSubject body = subject_scan (Split LF body)"

definition new_message :: "uint64 \<Rightarrow> uint32 \<Rightarrow> string \<Rightarrow> string \<Rightarrow> bytes \<Rightarrow> time \<Rightarrow> mysql_Message" where
  "new_message inboxID uid sender rcpt body t =
     \<lparr>msg_id = 0, msg_mailbox_id = inboxID, msg_uid = uid, msg_flags = [],
      msg_size_bytes = int (length body), msg_raw_key = [], msg_envelope_from = sender,
      msg_envelope_to = rcpt, msg_subject = extractSubject body, msg_internal_date = t\<rparr>"

definition deliverTo ::
    "'r backend \<Rightarrow> string \<Rightarrow> string \<Rightarrow> bytes \<Rightarrow> 'r MessageStore \<Rightarrow> go_error option \<times> 'r MessageStore" where
  "deliverTo B sender rcpt body s =
     (case storage_parseAddress rcpt of
        None \<Rightarrow> (Some (Errorf (''invalid recipient address: '' @ rcpt)), s)
      | Some (username, domain) \<Rightarrow>
     (case on_sql (mysql_FindDomain (be_mysql B) domain) s of
        (Inl err, s) \<Rightarrow> (Some (Wrapf ''resolve domain'' err), s)
      | (Inr d, s) \<Rightarrow>
     (case on_sql (mysql_FindUser (be_mysql B) username (dom_id d)) s of
        (Inl err, s) \<Rightarrow> (Some (Wrapf ''resolve user'' err), s)
      | (Inr user, s) \<Rightarrow>
     (case on_sql (mysql_FindInboxByUserID (be_mysql B) (usr_id user)) s of
        (Inl err, s) \<Rightarrow> (Some (Wrapf ''find inbox'' err), s)
      | (Inr inbox, s) \<Rightarrow>
     (case on_sql (mysql_AllocateUID (be_mysql B) (mbx_id inbox)) s of
        (Inl err, s) \<Rightarrow> (Some (Wrapf ''allocate uid'' err), s)
      | (Inr uid, s) \<Rightarrow>
     (let msg = new_message (mbx_id inbox) uid sender rcpt body (be_Now B (ms_ticks s));
          s = s\<lparr>ms_ticks := Suc (ms_ticks s)\<rparr>
      in case on_sql (mysql_InsertMessage (be_mysql B) msg) s of
        (Inl err, s) \<Rightarrow> (Some (Wrapf ''insert message'' err), s)
      | (Inr msgID, s) \<Rightarrow>
          (case on_redis (SetMessageBody (be_redis B) msgID body) s of (_, s) \<Rightarrow> (None, s))))))))"

text \<open>The error of a recipient is logged and the loop goes on.\<close>

fun deliver_loop ::
    "'r backend \<Rightarrow> string \<Rightarrow> bytes \<Rightarrow> string list \<Rightarrow> 'r MessageStore \<Rightarrow> 'r MessageStore" where
  "deliver_loop B sender body [] s = s"
| "deliver_loop B sender body (rcpt # rcpts) s =
     deliver_loop B sender body rcpts (snd (deliverTo B sender rcpt body s))"

definition storage_Deliver ::
    "'r backend \<Rightarrow> MessageReceived \<Rightarrow> 'r MessageStore \<Rightarrow> go_error option \<times> 'r MessageStore" where
  "storage_Deliver B event s =
     (None, deliver_loop B (Received_From event) (Received_Body event) (Received_To event) s)"

subsection \<open>The readers\<close>

definition to_Domain :: "mysql_Domain \<Rightarrow> Domain" where
  "to_Domain d = \<lparr>Domain_ID = dom_id d, Domain_Name = dom_name d\<rparr>"

definition to_User :: "mysql_User \<Rightarrow> User" where
  "to_User u = \<lparr>User_ID = usr_id u, User_DomainID = usr_domain_id u, User_Username = usr_username u,
     User_PasswordHash = usr_password_hash u, User_QuotaBytes = usr_quota_bytes u\<rparr>"

definition to_Mailbox :: "mysql_Mailbox \<Rightarrow> Mailbox" where
  "to_Mailbox mb = \<lparr>Mailbox_ID = mbx_id mb, Mailbox_UserID = mbx_user_id mb, Mailbox_Name = mbx_name mb,
     Mailbox_UIDValidity = mbx_uid_validity mb, Mailbox_UIDNext = mbx_uid_next mb\<rparr>"

definition to_Message :: "mysql_Message \<Rightarrow> Message" where
  "to_Message m = \<lparr>Message_ID = msg_id m, Message_MailboxID = msg_mailbox_id m, Message_UID = msg_uid m,
     Message_Flags = msg_flags m, Message_SizeBytes = msg_size_bytes m, Message_RawKey = msg_raw_key m,
     Message_EnvelopeFrom = msg_envelope_from m, Message_EnvelopeTo = msg_envelope_to m,
     Message_Subject = msg_subject m\<rparr>"

definition map_result :: "('a \<Rightarrow> 'b) \<Rightarrow> ('w, 'a) op \<Rightarrow> ('w, 'b) op" where
  "map_result f g w = (case g w of (x, w) \<Rightarrow> (map_sum id f x, w))"

definition storage_FindDomain :: "'r backend \<Rightarrow> string \<Rightarrow> ('r, Domain) store_op" where
  "storage_FindDomain B name = map_result to_Domain (on_sql (mysql_FindDomain (be_mysql B) name))"

definition storage_FindUser :: "'r backend \<Rightarrow> string \<Rightarrow> uint64 \<Rightarrow> ('r, User) store_op" where
  "storage_FindUser B username domainID =
     map_result to_User (on_sql (mysql_FindUser (be_mysql B) username domainID))"

definition storage_FindMailbox :: "'r backend \<Rightarrow> uint64 \<Rightarrow> string \<Rightarrow> ('r, Mailbox) store_op" where
  "storage_FindMailbox B userID name =
     map_result to_Mailbox (on_sql (mysql_FindMailbox (be_mysql B) userID name))"

definition storage_ListMailboxes :: "'r backend \<Rightarrow> uint64 \<Rightarrow> ('r, Mailbox list) store_op" where
  "storage_ListMailboxes B userID =
     map_result (map to_Mailbox) (on_sql (mysql_ListMailboxes (be_mysql B) userID))"

definition storage_GetMailboxByID :: "'r backend \<Rightarrow> uint64 \<Rightarrow> ('r, Mailbox) store_op" where
  "storage_GetMailboxByID B i = map_result to_Mailbox (on_sql (mysql_GetMailboxByID (be_mysql B) i))"

definition storage_ListMessages :: "'r backend \<Rightarrow> uint64 \<Rightarrow> ('r, Message list) store_op" where
  "storage_ListMessages B mailboxID =
     map_result (map to_Message) (on_sql (mysql_ListMessages (be_mysql B) mailboxID))"

definition storage_GetMessageByUID :: "'r backend \<Rightarrow> uint64 \<Rightarrow> uint32 \<Rightarrow> ('r, Message) store_op" where
  "storage_GetMessageByUID B mailboxID uid =
     map_result to_Message (on_sql (mysql_GetMessageByUID (be_mysql B) mailboxID uid))"

definition storage_GetMessageBody :: "'r backend \<Rightarrow> uint64 \<Rightarrow> ('r, bytes option) store_op" where
  "storage_GetMessageBody B messageID = on_redis (redis_GetMessageBody (be_redis B) messageID)"

text \<open>The store as the value of each port.\<close>

definition store_delivery :: "'r backend \<Rightarrow> 'r MessageStore DeliveryPipeline" where
  "store_delivery B = \<lparr>Deliver = storage_Deliver B\<rparr>"

definition store_mailboxes :: "'r backend \<Rightarrow> 'r MessageStore MailboxReader" where
  "store_mailboxes B = \<lparr>FindMailbox = storage_FindMailbox B, ListMailboxes = storage_ListMailboxes B,
     GetMailboxByID = storage_GetMailboxByID B\<rparr>"

definition store_messages :: "'r backend \<Rightarrow> 'r MessageStore MessageReader" where
  "store_messages B = \<lparr>GetMessageBody = storage_GetMessageBody B, ListMessages = storage_ListMessages B,
     GetMessageByUID = storage_GetMessageByUID B\<rparr>"

definition store_domains :: "'r backend \<Rightarrow> 'r MessageStore DomainResolver" where
  "store_domains B = \<lparr>FindDomain = storage_FindDomain B\<rparr>"

definition store_users :: "'r backend \<Rightarrow> 'r MessageStore UserAuthenticator" where
  "store_users B = \<lparr>FindUser = storage_FindUser B\<rparr>"

subsection \<open>Delivery, step by step\<close>

datatype dlv =
    AtDomain string string bytes
  | AtUser string string bytes string uint64
  | AtInbox string string bytes uint64
  | AtUID string string bytes uint64
  | AtInsert string string bytes uint64 uint32
  | AtCache uint64 bytes
  | Finished "go_error option"

fun dlv_step :: "'r backend \<Rightarrow> dlv \<times> 'r MessageStore \<Rightarrow> dlv \<times> 'r MessageStore" where
  "dlv_step B (AtDomain sender rcpt body, s) =
     (case storage_parseAddress rcpt of
        None \<Rightarrow> (Finished (Some (Errorf (''invalid recipient address: '' @ rcpt))), s)
      | Some (username, domain) \<Rightarrow>
          (case on_sql (mysql_FindDomain (be_mysql B) domain) s of
             (Inl err, s) \<Rightarrow> (Finished (Some (Wrapf ''resolve domain'' err)), s)
           | (Inr d, s) \<Rightarrow> (AtUser sender rcpt body username (dom_id d), s)))"
| "dlv_step B (AtUser sender rcpt body username domainID, s) =
     (case on_sql (mysql_FindUser (be_mysql B) username domainID) s of
        (Inl err, s) \<Rightarrow> (Finished (Some (Wrapf ''resolve user'' err)), s)
      | (Inr user, s) \<Rightarrow> (AtInbox sender rcpt body (usr_id user), s))"
| "dlv_step B (AtInbox sender rcpt body userID, s) =
     (case on_sql (mysql_FindInboxByUserID (be_mysql B) userID) s of
        (Inl err, s) \<Rightarrow> (Finished (Some (Wrapf ''find inbox'' err)), s)
      | (Inr inbox, s) \<Rightarrow> (AtUID sender rcpt body (mbx_id inbox), s))"
| "dlv_step B (AtUID sender rcpt body inboxID, s) =
     (case on_sql (mysql_AllocateUID (be_mysql B) inboxID) s of
        (Inl err, s) \<Rightarrow> (Finished (Some (Wrapf ''allocate uid'' err)), s)
      | (Inr uid, s) \<Rightarrow> (AtInsert sender rcpt body inboxID uid, s))"
| "dlv_step B (AtInsert sender rcpt body inboxID uid, s) =
     (case on_sql (mysql_InsertMessage (be_mysql B)
             (new_message inboxID uid sender rcpt body (be_Now B (ms_ticks s))))
             (s\<lparr>ms_ticks := Suc (ms_ticks s)\<rparr>) of
        (Inl err, s) \<Rightarrow> (Finished (Some (Wrapf ''insert message'' err)), s)
      | (Inr msgID, s) \<Rightarrow> (AtCache msgID body, s))"
| "dlv_step B (AtCache msgID body, s) =
     (case on_redis (SetMessageBody (be_redis B) msgID body) s of (_, s) \<Rightarrow> (Finished None, s))"
| "dlv_step B (Finished err, s) = (Finished err, s)"

text \<open>Six steps are the Go function.\<close>

lemma deliverTo_steps:
  "(dlv_step B ^^ 6) (AtDomain sender rcpt body, s) =
     (case deliverTo B sender rcpt body s of (err, s') \<Rightarrow> (Finished err, s'))"
  by (simp add: deliverTo_def Let_def eval_nat_numeral split: option.split prod.split sum.split)

text \<open>
  Any number of deliveries in progress over one store: a new one may begin, and any of them may
  make its next step. A transaction is one step, for its rows are locked until it ends.
\<close>

inductive concurrent :: "'r backend \<Rightarrow> dlv list \<times> 'r MessageStore \<Rightarrow> dlv list \<times> 'r MessageStore \<Rightarrow> bool"
  for B :: "'r backend" where
  begins: "concurrent B (ths, s) (ths @ [AtDomain sender rcpt body], s)"
| steps: "i < length ths \<Longrightarrow> dlv_step B (ths ! i, s) = (th, s') \<Longrightarrow> concurrent B (ths, s) (ths[i := th], s')"

inductive_cases concurrentE: "concurrent B (ths, s) (ths', s')"

end
