(* ===== verification/Storage_Correct.thy ===== *)
theory Storage_Correct
  imports Storage "HOL-Library.Sublist"
begin

text \<open>
  What the message store guarantees: addresses and subjects are parsed as meant, a delivery files
  at most one row, in the INBOX of the user that the address names, deliveries keep the invariant
  of the message table and the cache coherent with it under every interleaving, and the readers
  return rows of the mailbox they are asked for.
\<close>

subsection \<open>Addresses and subjects\<close>

lemma storage_parseAddress_iff:
  "storage_parseAddress addr = Some (u, d) \<longleftrightarrow>
     addr = u @ CHR ''@'' # d \<and> CHR ''@'' \<notin> set u \<and> u \<noteq> [] \<and> d \<noteq> []"
  (is "?l \<longleftrightarrow> ?r")
proof
  assume ?l
  then have "SplitN2 CHR ''@'' addr = [u, d]" "u \<noteq> []" "d \<noteq> []"
    by (auto simp: storage_parseAddress_def split: list.splits if_splits)
  then show ?r using SplitN2_two by blast
qed (auto simp: storage_parseAddress_def SplitN2_found)

lemma subject_line_long: "HasPrefix (ToUpper line) ''SUBJECT:'' \<Longrightarrow> 8 \<le> length line"
  using HasPrefix_length [of "ToUpper line" "''SUBJECT:''"] ToUpper_length [of line] by simp

definition header_line :: "string \<Rightarrow> bool" where
  "header_line l \<longleftrightarrow> LF \<notin> set l \<and> TrimSpace l \<noteq> [] \<and> \<not> HasPrefix (ToUpper l) ''SUBJECT:''"

lemma extractSubject_skip:
  assumes "header_line l"
  shows "extractSubject (l @ LF # rest) = extractSubject rest"
  using assms by (simp add: extractSubject_def header_line_def Split_append)

lemma extractSubject_headers:
  "list_all header_line ls \<Longrightarrow>
     extractSubject (concat (map (\<lambda>l. l @ [LF]) ls) @ rest) = extractSubject rest"
  by (induction ls) (simp_all add: extractSubject_skip)

lemma extractSubject_field:
  assumes "HasPrefix (ToUpper l) ''SUBJECT:''" "LF \<notin> set l"
  shows "extractSubject (l @ LF # rest) = TrimSpace (drop 8 l)"
  using assms by (simp add: extractSubject_def Split_append)

lemma extractSubject_stops:
  assumes "TrimSpace l = []" "LF \<notin> set l" "\<not> HasPrefix (ToUpper l) ''SUBJECT:''"
  shows "extractSubject (l @ LF # rest) = []"
  using assms by (simp add: extractSubject_def Split_append)

subsection \<open>The invariant of the store\<close>

definition has_row :: "db \<Rightarrow> uint64 \<Rightarrow> bytes \<Rightarrow> bool" where
  "has_row d i body \<longleftrightarrow> (\<exists>m \<in> set (messages d). msg_id m = i \<and> msg_size_bytes m = int (length body)
     \<and> msg_subject m = extractSubject body)"

definition cache_ok :: "('r \<Rightarrow> string \<rightharpoonup> bytes) \<Rightarrow> 'r MessageStore \<Rightarrow> bool" where
  "cache_ok view s \<longleftrightarrow>
     (\<forall>i b. view (ms_redis s) (messageBodyKey i) = Some b \<longrightarrow> has_row (ms_sql s) i b)"

text \<open>The mailbox that an address names: the INBOX of an active user of an active domain.\<close>

definition domain_of :: "mysql_server \<Rightarrow> db \<Rightarrow> string \<Rightarrow> uint64 \<Rightarrow> bool" where
  "domain_of S d name i \<longleftrightarrow>
     (\<exists>x \<in> set (domains d). dom_id x = i \<and> collate S (dom_name x) name \<and> dom_active x)"

definition user_of :: "mysql_server \<Rightarrow> db \<Rightarrow> string \<Rightarrow> uint64 \<Rightarrow> uint64 \<Rightarrow> bool" where
  "user_of S d name did i \<longleftrightarrow>
     (\<exists>x \<in> set (users d). usr_id x = i \<and> collate S (usr_username x) name \<and> usr_domain_id x = did \<and> usr_active x)"

definition mailbox_keys :: "db \<Rightarrow> (uint64 \<times> uint64 \<times> string) list" where
  "mailbox_keys d = map (\<lambda>r. (mbx_id r, mbx_user_id r, mbx_name r)) (mailboxes d)"

definition account_of :: "mysql_server \<Rightarrow> db \<Rightarrow> string \<Rightarrow> uint64 \<Rightarrow> bool" where
  "account_of S d addr i \<longleftrightarrow>
     (\<exists>u dom did. storage_parseAddress addr = Some (u, dom) \<and> domain_of S d dom did \<and> user_of S d u did i)"

definition inbox_of :: "mysql_server \<Rightarrow> db \<Rightarrow> string \<Rightarrow> uint64 \<Rightarrow> bool" where
  "inbox_of S d addr b \<longleftrightarrow>
     (\<exists>i n. account_of S d addr i \<and> (b, i, n) \<in> set (mailbox_keys d) \<and> collate S n ''INBOX'')"

fun dlv_pending :: "dlv \<Rightarrow> (uint64 \<times> uint32) list" where
  "dlv_pending (AtInsert sender rcpt body b u) = [(b, u)]"
| "dlv_pending _ = []"

fun dlv_ok :: "mysql_server \<Rightarrow> db \<Rightarrow> dlv \<Rightarrow> bool" where
  "dlv_ok S d (AtDomain sender rcpt body) \<longleftrightarrow> True"
| "dlv_ok S d (AtUser sender rcpt body u did) \<longleftrightarrow>
     (\<exists>dom. storage_parseAddress rcpt = Some (u, dom) \<and> domain_of S d dom did)"
| "dlv_ok S d (AtInbox sender rcpt body i) \<longleftrightarrow> account_of S d rcpt i"
| "dlv_ok S d (AtUID sender rcpt body b) \<longleftrightarrow> inbox_of S d rcpt b"
| "dlv_ok S d (AtInsert sender rcpt body b u) \<longleftrightarrow> inbox_of S d rcpt b"
| "dlv_ok S d (AtCache i body) \<longleftrightarrow> has_row d i body"
| "dlv_ok S d (Finished e) \<longleftrightarrow> True"

text \<open>Every message of the table lies in the INBOX that its envelope names.\<close>

definition routed :: "mysql_server \<Rightarrow> db \<Rightarrow> bool" where
  "routed S d \<longleftrightarrow> (\<forall>m \<in> set (messages d). inbox_of S d (msg_envelope_to m) (msg_mailbox_id m))"

definition store_inv ::
    "mysql_server \<Rightarrow> ('r \<Rightarrow> string \<rightharpoonup> bytes) \<Rightarrow> dlv list \<times> 'r MessageStore \<Rightarrow> bool" where
  "store_inv S view c \<longleftrightarrow>
     uid_inv (ms_sql (snd c)) (concat (map dlv_pending (fst c)))
     \<and> routed S (ms_sql (snd c))
     \<and> cache_ok view (snd c)
     \<and> list_all (dlv_ok S (ms_sql (snd c))) (fst c)"

text \<open>The accounts stay and the message table only grows.\<close>

definition grows :: "db \<Rightarrow> db \<Rightarrow> bool" where
  "grows d d' \<longleftrightarrow> domains d' = domains d \<and> users d' = users d \<and> mailbox_keys d' = mailbox_keys d
     \<and> prefix (messages d) (messages d')"

lemma grows_refl [simp]: "grows d d"
  by (simp add: grows_def)

lemma grows_trans: "grows a b \<Longrightarrow> grows b c \<Longrightarrow> grows a c"
  by (auto simp: grows_def)

lemma same_tables_grows: "same_tables d d' \<Longrightarrow> grows d d'"
  by (simp add: same_tables_iff grows_def mailbox_keys_def)

lemma accounts_grow:
  assumes "grows d d'"
  shows "domain_of S d' = domain_of S d" "user_of S d' = user_of S d"
    "account_of S d' = account_of S d" "inbox_of S d' = inbox_of S d"
  using assms by (auto simp: grows_def domain_of_def user_of_def account_of_def inbox_of_def fun_eq_iff)

lemma has_row_grows: "grows d d' \<Longrightarrow> has_row d i b \<Longrightarrow> has_row d' i b"
  unfolding grows_def has_row_def by (blast dest: set_mono_prefix)

lemma dlv_ok_grows: "grows d d' \<Longrightarrow> dlv_ok S d th \<Longrightarrow> dlv_ok S d' th"
  by (cases th) (simp_all add: accounts_grow has_row_grows)

lemma routed_same: "grows d d' \<Longrightarrow> messages d' = messages d \<Longrightarrow> routed S d' = routed S d"
  by (simp add: routed_def accounts_grow)

lemma cache_ok_grows:
  "cache_ok view s \<Longrightarrow> grows (ms_sql s) d' \<Longrightarrow> cache_ok view (s\<lparr>ms_sql := d'\<rparr>)"
  by (auto simp: cache_ok_def intro: has_row_grows)

lemma cache_ok_ticks [simp]: "cache_ok view (s\<lparr>ms_ticks := n\<rparr>) = cache_ok view s"
  by (simp add: cache_ok_def)

lemma AllocateUID_grows:
  assumes "mysql_AllocateUID S b d = (r, d')"
  shows "grows d d' \<and> messages d' = messages d \<and> next_id d' = next_id d"
  using assms
  by (cases rule: AllocateUID_cases)
    (auto simp: same_tables_iff grows_def mailbox_keys_def update_uid_next_def split: if_splits)

lemma InsertMessage_cases:
  assumes "mysql_InsertMessage S m d = (r, d')"
  obtains (nothing) e where "r = Inl e" "same_tables d d'"
  | (filed) "messages d' = messages d @ [m\<lparr>msg_id := of_nat (next_id d)\<rparr>]"
      "r = Inr (of_nat (next_id d)) \<or> (\<exists>e. r = Inl e)" "grows d d'"
proof -
  obtain r0 where ex: "exec_sql S (insert_message m) d = (r0, d')"
    and r: "r = (case r0 of Inl e \<Rightarrow> Inl (Wrapf ''insert message'' e) | Inr i \<Rightarrow> Inr i)"
    using assms by (auto simp: mysql_InsertMessage_def split: prod.splits sum.splits)
  from ex show ?thesis
  proof (cases rule: exec_sql_cases)
    case lost
    with r show ?thesis by - (rule nothing, simp_all)
  next
    case failed
    with r show ?thesis by - (rule nothing, simp_all)
  next
    case (ran a)
    with r show ?thesis by - (rule filed, auto simp: insert_message_def grows_def mailbox_keys_def split: if_splits)
  next
    case (unanswered a m)
    with r show ?thesis by - (rule filed, auto simp: insert_message_def grows_def mailbox_keys_def split: if_splits)
  qed
qed

text \<open>One step of one delivery, whatever else is pending.\<close>

definition read_only :: "(db, 'a) op \<Rightarrow> bool" where
  "read_only f \<longleftrightarrow> (\<forall>d. same_tables d (snd (f d)))"

lemma read_onlyI: "(\<And>d r d'. f d = (r, d') \<Longrightarrow> same_tables d d') \<Longrightarrow> read_only f"
  by (simp add: read_only_def prod_eq_iff)

lemma read_only_ops:
  "read_only (mysql_FindDomain S name)" "read_only (mysql_FindUser S username did)"
  "read_only (mysql_FindMailbox S uid name)" "read_only (mysql_FindInboxByUserID S uid)"
  "read_only (mysql_ListMailboxes S uid)" "read_only (mysql_GetMailboxByID S i)"
  "read_only (mysql_ListMessages S b)" "read_only (mysql_GetMessageByUID S b u)"
  by (rule read_onlyI, erule mysql_FindDomain_spec mysql_FindUser_spec mysql_FindMailbox_spec
      mysql_FindInbox_spec mysql_ListMailboxes_spec mysql_GetMailboxByID_spec mysql_ListMessages_spec
      mysql_GetMessageByUID_spec)+

lemma on_sql_read:
  assumes "on_sql f s = (x, s1)" "read_only f"
  shows "\<exists>d. s1 = s\<lparr>ms_sql := d\<rparr> \<and> same_tables (ms_sql s) d"
proof -
  have "s1 = s\<lparr>ms_sql := snd (f (ms_sql s))\<rparr>" using assms(1) by (auto simp: on_sql_def split: prod.splits)
  then show ?thesis using assms(2) unfolding read_only_def by blast
qed

lemma FindDomain_of: "on_sql (mysql_FindDomain S name) s = (Inr x, s1) \<Longrightarrow> domain_of S (ms_sql s) name (dom_id x)"
  by (auto simp: on_sql_def domain_of_def mysql_Domain.truncate_def dest!: mysql_FindDomain_spec(2) split: prod.splits)

lemma FindUser_of: "on_sql (mysql_FindUser S name did) s = (Inr x, s1) \<Longrightarrow> user_of S (ms_sql s) name did (usr_id x)"
  by (auto simp: on_sql_def user_of_def mysql_User.truncate_def dest!: mysql_FindUser_spec(2) split: prod.splits)

lemma FindInbox_of:
  assumes "on_sql (mysql_FindInboxByUserID S i) s = (Inr x, s1)"
  shows "(mbx_id x, i, mbx_name x) \<in> set (mailbox_keys (ms_sql s)) \<and> collate S (mbx_name x) ''INBOX''"
  using assms by (force simp: on_sql_def mailbox_keys_def dest!: mysql_FindInbox_spec(2) split: prod.splits)

lemma dlv_step_read:
  assumes st: "dlv_step B (th, s) = (th', s')" and ok: "dlv_ok (be_mysql B) (ms_sql s) th"
    and "\<exists>f t b u d. th = AtDomain f t b \<or> th = AtUser f t b u d \<or> th = AtInbox f t b d"
  shows "(\<exists>d. s' = s\<lparr>ms_sql := d\<rparr> \<and> same_tables (ms_sql s) d) \<and> dlv_pending th = [] \<and> dlv_pending th' = []
    \<and> dlv_ok (be_mysql B) (ms_sql s) th'"
proof -
  consider (dom) f t b where "th = AtDomain f t b" | (usr) f t b u d where "th = AtUser f t b u d"
    | (inb) f t b d where "th = AtInbox f t b d"
    using assms(3) by blast
  then show ?thesis
  proof cases
    case dom
    have "dlv_ok (be_mysql B) (ms_sql s) th'"
      using st dom by (auto dest: FindDomain_of split: option.splits prod.splits sum.splits)
    moreover have "\<exists>d. s' = s\<lparr>ms_sql := d\<rparr> \<and> same_tables (ms_sql s) d"
      using st dom by (auto dest!: on_sql_read [OF _ read_only_ops(1)] intro: exI [of _ "ms_sql s"]
          split: option.splits prod.splits sum.splits)
    ultimately show ?thesis using st dom by (auto split: option.splits prod.splits sum.splits)
  next
    case usr
    have "dlv_ok (be_mysql B) (ms_sql s) th'"
      using st ok usr by (fastforce simp: account_of_def dest: FindUser_of split: prod.splits sum.splits)
    moreover have "\<exists>d. s' = s\<lparr>ms_sql := d\<rparr> \<and> same_tables (ms_sql s) d"
      using st usr by (auto dest!: on_sql_read [OF _ read_only_ops(2)] split: prod.splits sum.splits)
    ultimately show ?thesis using st usr by (auto split: prod.splits sum.splits)
  next
    case inb
    have "dlv_ok (be_mysql B) (ms_sql s) th'"
      using st ok inb by (fastforce simp: inbox_of_def dest: FindInbox_of split: prod.splits sum.splits)
    moreover have "\<exists>d. s' = s\<lparr>ms_sql := d\<rparr> \<and> same_tables (ms_sql s) d"
      using st inb by (auto dest!: on_sql_read [OF _ read_only_ops(4)] split: prod.splits sum.splits)
    ultimately show ?thesis using st inb by (auto split: prod.splits sum.splits)
  qed
qed

definition local_inv ::
    "mysql_server \<Rightarrow> ('r \<Rightarrow> string \<rightharpoonup> bytes) \<Rightarrow> (uint64 \<times> uint32) list \<Rightarrow> dlv \<times> 'r MessageStore \<Rightarrow> bool" where
  "local_inv S view pend c \<longleftrightarrow>
     uid_inv (ms_sql (snd c)) (dlv_pending (fst c) @ pend) \<and> routed S (ms_sql (snd c))
     \<and> cache_ok view (snd c) \<and> dlv_ok S (ms_sql (snd c)) (fst c)"

lemma dlv_step_inv:
  assumes C: "redis_writes (be_redis B) view"
    and st: "dlv_step B (th, s) = (th', s')"
    and inv: "local_inv (be_mysql B) view pend (th, s)"
  shows "local_inv (be_mysql B) view pend (th', s') \<and> grows (ms_sql s) (ms_sql s')"
proof -
  let ?S = "be_mysql B"
  have uid: "uid_inv (ms_sql s) (dlv_pending th @ pend)" and rt: "routed ?S (ms_sql s)"
    and cache: "cache_ok view s" and ok: "dlv_ok ?S (ms_sql s) th"
    using inv by (simp_all add: local_inv_def)
  have read: "?thesis"
    if kind: "\<exists>f t b u d. th = AtDomain f t b \<or> th = AtUser f t b u d \<or> th = AtInbox f t b d"
  proof -
    obtain d where d: "s' = s\<lparr>ms_sql := d\<rparr>" "same_tables (ms_sql s) d" "dlv_pending th = []"
      "dlv_pending th' = []" "dlv_ok ?S (ms_sql s) th'"
      using dlv_step_read [OF st ok kind] by blast
    have g: "grows (ms_sql s) d" using d(2) by (rule same_tables_grows)
    have "routed ?S d" using rt routed_same [OF g] d(2) by (simp add: same_tables_iff)
    then show ?thesis
      using cache_ok_grows [OF cache g] uid d g dlv_ok_grows [OF g d(5)]
      by (simp add: local_inv_def uid_inv_same_tables)
  qed
  show ?thesis
  proof (cases th)
    case (AtUID sender rcpt body b)
    obtain r d' where al: "mysql_AllocateUID ?S b (ms_sql s) = (r, d')" by fastforce
    then have s': "s' = s\<lparr>ms_sql := d'\<rparr>"
      and th': "th' = (case r of Inl e \<Rightarrow> Finished (Some (Wrapf ''allocate uid'' e))
                 | Inr u \<Rightarrow> AtInsert sender rcpt body b u)"
      using st AtUID by (auto simp: on_sql_def split: sum.splits)
    have g: "grows (ms_sql s) d'" and m: "messages d' = messages (ms_sql s)"
      using AllocateUID_grows [OF al] by simp_all
    have "uid_inv d' (case r of Inl _ \<Rightarrow> pend | Inr u \<Rightarrow> (b, u) # pend)"
      using AllocateUID_inv [OF _ al] uid AtUID by simp
    then show ?thesis
      using g cache_ok_grows [OF cache g] s' th' routed_same [OF g m] rt dlv_ok_grows [OF g ok] AtUID
      by (cases r) (simp_all add: local_inv_def)
  next
    case (AtInsert sender rcpt body b u)
    let ?m = "new_message b u sender rcpt body (be_Now B (ms_ticks s))"
    obtain r d' where ins: "mysql_InsertMessage ?S ?m (ms_sql s) = (r, d')" by fastforce
    then have s': "s' = s\<lparr>ms_ticks := Suc (ms_ticks s), ms_sql := d'\<rparr>"
      and th': "th' = (case r of Inl e \<Rightarrow> Finished (Some (Wrapf ''insert message'' e)) | Inr i \<Rightarrow> AtCache i body)"
      using st AtInsert by (auto simp: on_sql_def split: sum.splits)
    have u': "uid_inv d' pend"
      using InsertMessage_inv [OF _ ins] uid AtInsert by (simp add: new_message_def)
    from ins have "grows (ms_sql s) d'"
      by (cases rule: InsertMessage_cases) (simp_all add: same_tables_grows)
    moreover from ins have "dlv_ok ?S d' th'"
      by (cases rule: InsertMessage_cases) (auto simp: th' has_row_def new_message_def)
    moreover from ins have "routed ?S d'"
    proof (cases rule: InsertMessage_cases)
      case (nothing e)
      then have st: "same_tables (ms_sql s) d'" by simp
      then have "messages d' = messages (ms_sql s)" by (simp add: same_tables_iff)
      then show ?thesis using rt routed_same [OF same_tables_grows [OF st]] by blast
    next
      case filed
      then have "grows (ms_sql s) d'" by simp
      with filed show ?thesis
        using rt ok AtInsert accounts_grow(4) by (auto simp: routed_def new_message_def)
    qed
    moreover have "cache_ok view (s\<lparr>ms_sql := d'\<rparr>)"
      using cache_ok_grows [OF cache] calculation(1) by blast
    ultimately show ?thesis using u' s' th' by (cases r) (simp_all add: local_inv_def cache_ok_def)
  next
    case (AtCache i body)
    obtain x r' where set: "SetMessageBody (be_redis B) i body (ms_redis s) = (x, r')" by fastforce
    then have s': "s' = s\<lparr>ms_redis := r'\<rparr>" and th': "th' = Finished None"
      using st AtCache by (auto simp: on_redis_def)
    have "cache_ok view s'"
      using SetMessageBody_view [OF C set] cache ok AtCache by (auto simp: cache_ok_def s')
    then show ?thesis using uid rt s' th' AtCache by (simp add: local_inv_def)
  next
    case (Finished e)
    then show ?thesis using st inv by simp
  qed (use read in blast)+
qed

lemma store_inv_begin: "store_inv S view (ths, s) \<Longrightarrow> store_inv S view (ths @ [AtDomain f t b], s)"
  by (simp add: store_inv_def)

lemma mset_concat_nth:
  "i < length xs \<Longrightarrow> mset (concat (map f xs)) = mset (f (xs ! i) @ concat (map f (take i xs @ drop (Suc i) xs)))"
  by (subst id_take_nth_drop [of i xs]) simp_all

lemma mset_concat_update:
  "i < length xs \<Longrightarrow>
     mset (concat (map f (xs[i := y]))) = mset (f y @ concat (map f (take i xs @ drop (Suc i) xs)))"
  by (subst upd_conv_take_nth_drop) simp_all

lemma store_inv_step:
  assumes "redis_writes (be_redis B) view" "store_inv (be_mysql B) view c" "concurrent B c c'"
  shows "store_inv (be_mysql B) view c'"
  using assms(3)
proof cases
  case (begins ths s sender rcpt body)
  then show ?thesis using assms(2) store_inv_begin by blast
next
  case (steps i ths s th s')
  let ?rest = "concat (map dlv_pending (take i ths @ drop (Suc i) ths))"
  have all: "list_all (dlv_ok (be_mysql B) (ms_sql s)) ths"
    using assms(2) steps(1) by (simp add: store_inv_def)
  have "local_inv (be_mysql B) view ?rest (ths ! i, s)"
    using assms(2) uid_inv_mset [OF mset_concat_nth [OF steps(3), of dlv_pending]] steps(1,3) all
    by (simp add: store_inv_def local_inv_def list_all_length)
  then have new: "local_inv (be_mysql B) view ?rest (th, s')" and g: "grows (ms_sql s) (ms_sql s')"
    using dlv_step_inv [OF assms(1) steps(4)] by blast+
  have "list_all (dlv_ok (be_mysql B) (ms_sql s')) (ths[i := th])"
    using new g all dlv_ok_grows
    by (fastforce simp: list_all_iff local_inv_def dest: set_update_subset_insert [THEN subsetD])
  then show ?thesis
    using new uid_inv_mset [OF mset_concat_update [OF steps(3), of dlv_pending]] steps(2)
    by (simp add: store_inv_def local_inv_def)
qed

lemma store_inv_reachable:
  assumes "redis_writes (be_redis B) view" "(concurrent B)\<^sup>*\<^sup>* c c'" "store_inv (be_mysql B) view c"
  shows "store_inv (be_mysql B) view c'"
  using assms(2,3) by (induction rule: rtranclp_induct) (auto intro: store_inv_step [OF assms(1)])

subsection \<open>A delivery from its beginning to its end\<close>

lemma dlv_steps_inv:
  assumes "redis_writes (be_redis B) view" "local_inv (be_mysql B) view pend c"
  shows "local_inv (be_mysql B) view pend ((dlv_step B ^^ n) c) \<and> grows (ms_sql (snd c)) (ms_sql (snd ((dlv_step B ^^ n) c)))"
proof (induction n)
  case (Suc n)
  obtain th s where c: "(dlv_step B ^^ n) c = (th, s)" by fastforce
  obtain th' s' where c': "dlv_step B (th, s) = (th', s')" by fastforce
  have "local_inv (be_mysql B) view pend (th', s') \<and> grows (ms_sql s) (ms_sql s')"
    using dlv_step_inv [OF assms(1) c', of pend] Suc c by simp
  then show ?case using Suc c c' grows_trans by auto
qed (use assms in simp)

lemma deliverTo_inv:
  assumes "redis_writes (be_redis B) view" "store_inv (be_mysql B) view ([], s)"
    and "deliverTo B sender rcpt body s = (err, s')"
  shows "store_inv (be_mysql B) view ([], s') \<and> grows (ms_sql s) (ms_sql s')"
  using dlv_steps_inv [OF assms(1), of "[]" "(AtDomain sender rcpt body, s)" 6] assms(2,3)
  by (simp add: deliverTo_steps store_inv_def local_inv_def)

lemma deliver_loop_inv:
  assumes "redis_writes (be_redis B) view"
  shows "store_inv (be_mysql B) view ([], s) \<Longrightarrow> store_inv (be_mysql B) view ([], deliver_loop B sender body rcpts s)"
proof (induction rcpts arbitrary: s)
  case (Cons rcpt rcpts)
  obtain err s' where "deliverTo B sender rcpt body s = (err, s')" by fastforce
  with deliverTo_inv [OF assms Cons.prems] Cons.IH show ?case by simp
qed simp

text \<open>The tables alone need no assumption about the cache.\<close>

definition table_inv :: "mysql_server \<Rightarrow> db \<Rightarrow> bool" where
  "table_inv S d \<longleftrightarrow> uid_inv d [] \<and> routed S d"

lemma store_inv_tables: "store_inv S (\<lambda>_. Map.empty) ([], s) = table_inv S (ms_sql s)"
  by (simp add: store_inv_def table_inv_def cache_ok_def)

lemma Deliver_table_inv:
  "table_inv (be_mysql B) (ms_sql s) \<Longrightarrow> table_inv (be_mysql B) (ms_sql (snd (storage_Deliver B e s)))"
  using deliver_loop_inv [OF redis_writes_nothing] by (simp add: storage_Deliver_def store_inv_tables)

interpretation store_tables: delivery_pipeline "store_delivery B" "\<lambda>s. table_inv (be_mysql B) (ms_sql s)"
  for B :: "'r backend"
  by unfold_locales (simp add: store_delivery_def Deliver_table_inv)

interpretation store_coherent: delivery_pipeline "store_delivery B"
    "\<lambda>s. redis_writes (be_redis B) view \<longrightarrow> store_inv (be_mysql B) view ([], s)"
  for B :: "'r backend" and view
  by unfold_locales (simp add: store_delivery_def storage_Deliver_def deliver_loop_inv)

subsection \<open>What a delivery files\<close>

definition filed_row :: "string \<Rightarrow> string \<Rightarrow> bytes \<Rightarrow> mysql_Message \<Rightarrow> bool" where
  "filed_row sender rcpt body m \<longleftrightarrow> msg_envelope_from m = sender \<and> msg_envelope_to m = rcpt
     \<and> msg_size_bytes m = int (length body) \<and> msg_subject m = extractSubject body
     \<and> msg_flags m = [] \<and> msg_raw_key m = []"

lemma on_sql_messages:
  assumes "on_sql f s = (x, s1)" "read_only f"
  shows "messages (ms_sql s1) = messages (ms_sql s) \<and> next_id (ms_sql s1) = next_id (ms_sql s)
    \<and> ms_redis s1 = ms_redis s"
  using on_sql_read [OF assms] by (auto simp: same_tables_iff)

lemma on_sql_allocate:
  assumes "on_sql (mysql_AllocateUID S b) s = (x, s1)"
  shows "messages (ms_sql s1) = messages (ms_sql s) \<and> next_id (ms_sql s1) = next_id (ms_sql s)
    \<and> ms_redis s1 = ms_redis s"
  using assms AllocateUID_grows [of S b "ms_sql s"] by (auto simp: on_sql_def split: prod.splits)

lemma on_sql_insert:
  assumes "on_sql (mysql_InsertMessage S (new_message b u f t body now)) s = (x, s1)"
  shows "(\<exists>e. x = Inl e) \<and> messages (ms_sql s1) = messages (ms_sql s)
    \<or> (\<exists>m. messages (ms_sql s1) = messages (ms_sql s) @ [m] \<and> filed_row f t body m)"
proof -
  obtain d' where ins: "mysql_InsertMessage S (new_message b u f t body now) (ms_sql s) = (x, d')"
    and s1: "s1 = s\<lparr>ms_sql := d'\<rparr>"
    using assms by (auto simp: on_sql_def split: prod.splits)
  from ins show ?thesis
    by (cases rule: InsertMessage_cases) (auto simp: s1 filed_row_def new_message_def same_tables_iff)
qed

lemma on_redis_sql: "on_redis f s = (x, s1) \<Longrightarrow> ms_sql s1 = ms_sql s"
  by (auto simp: on_redis_def split: prod.splits)

lemma deliverTo_files:
  assumes "deliverTo B sender rcpt body s = (err, s')"
  shows "err \<noteq> None \<and> messages (ms_sql s') = messages (ms_sql s)
    \<or> (\<exists>m. messages (ms_sql s') = messages (ms_sql s) @ [m] \<and> filed_row sender rcpt body m)"
  using assms
  by (auto simp: deliverTo_def Let_def split: option.splits prod.splits sum.splits
      dest!: on_sql_messages [OF _ read_only_ops(1)] on_sql_messages [OF _ read_only_ops(2)]
        on_sql_messages [OF _ read_only_ops(4)] on_sql_allocate on_sql_insert on_redis_sql)

lemma deliver_loop_files:
  "\<exists>rows. messages (ms_sql (deliver_loop B sender body rcpts s)) = messages (ms_sql s) @ rows
     \<and> subseq (map msg_envelope_to rows) rcpts
     \<and> (\<forall>m \<in> set rows. filed_row sender (msg_envelope_to m) body m)"
proof (induction rcpts arbitrary: s)
  case (Cons rcpt rcpts)
  obtain err s' where dlv: "deliverTo B sender rcpt body s = (err, s')" by fastforce
  obtain rows where rows: "messages (ms_sql (deliver_loop B sender body rcpts s')) = messages (ms_sql s') @ rows"
    "subseq (map msg_envelope_to rows) rcpts" "\<forall>m \<in> set rows. filed_row sender (msg_envelope_to m) body m"
    using Cons.IH by blast
  from deliverTo_files [OF dlv] show ?case
  proof (elim disjE exE conjE)
    assume "messages (ms_sql s') = messages (ms_sql s)"
    then show ?thesis using rows dlv by (intro exI [of _ rows]) auto
  next
    fix m assume "messages (ms_sql s') = messages (ms_sql s) @ [m]" "filed_row sender rcpt body m"
    then show ?thesis using rows dlv by (intro exI [of _ "m # rows"]) (auto simp: filed_row_def)
  qed
qed simp

subsection \<open>Delivery with a server that answers\<close>

definition healthy :: "mysql_server \<Rightarrow> bool" where
  "healthy S \<longleftrightarrow> (\<forall>n. faults S n = NoFault)"

definition lookup_inbox :: "mysql_server \<Rightarrow> db \<Rightarrow> string \<Rightarrow> mysql_Mailbox option" where
  "lookup_inbox S d rcpt =
     (case storage_parseAddress rcpt of None \<Rightarrow> None | Some (u, dn) \<Rightarrow>
      case filter (\<lambda>r. collate S (dom_name r) dn \<and> dom_active r) (domains d) of [] \<Rightarrow> None | D # _ \<Rightarrow>
      case filter (\<lambda>r. collate S (usr_username r) u \<and> usr_domain_id r = dom_id D \<and> usr_active r) (users d) of
        [] \<Rightarrow> None | U # _ \<Rightarrow>
      case filter (\<lambda>r. mbx_user_id r = usr_id U \<and> collate S (mbx_name r) ''INBOX'') (mailboxes d) of
        [] \<Rightarrow> None | I # _ \<Rightarrow> Some I)"

lemma exec_sql_healthy:
  "healthy S \<Longrightarrow> exec_sql S q d =
     (case q (d\<lparr>stmts := Suc (stmts d)\<rparr>) of Inl e \<Rightarrow> (Inl e, d\<lparr>stmts := Suc (stmts d)\<rparr>) | Inr (a, d2) \<Rightarrow> (Inr a, d2))"
  by (simp add: exec_sql_def healthy_def Let_def)

lemma filter_key_unique:
  "distinct (map f xs) \<Longrightarrow> r \<in> set xs \<Longrightarrow> filter (\<lambda>x. f x = f r) xs = [r]"
proof (induction xs)
  case (Cons a xs)
  then show ?case by (cases "r \<in> set xs") (auto simp: filter_empty_conv image_iff)
qed simp

text \<open>Allocation and insertion do what they say when the counters are not exhausted.\<close>

lemma AllocateUID_healthy:
  assumes "healthy S" "distinct (map mbx_id (mailboxes d))" "r \<in> set (mailboxes d)" "mbx_uid_next r \<noteq> - 1"
  shows "\<exists>d'. mysql_AllocateUID S (mbx_id r) d = (Inr (mbx_uid_next r), d') \<and> messages d' = messages d
    \<and> next_id d' = next_id d \<and> mailbox_keys d' = mailbox_keys d"
proof -
  have rows: "filter (\<lambda>x. mbx_id x = mbx_id r) (mailboxes d) = [r]"
    using filter_key_unique [OF assms(2,3)] .
  have "\<forall>x \<in> set (mailboxes d). mbx_id x = mbx_id r \<longrightarrow> x = r"
    using assms(2,3) by (auto simp: distinct_map dest: inj_onD)
  then have "\<not> (\<exists>x \<in> set (mailboxes d). mbx_id x = mbx_id r \<and> mbx_uid_next x = - 1)"
    using assms(4) by blast
  then show ?thesis
    using assms(1) rows
    by (simp add: mysql_AllocateUID_def exec_sql_healthy select_uid_next_def get_row_def
        update_uid_next_def commit_def rollback_def mailbox_keys_def)
qed

lemma InsertMessage_healthy:
  assumes "healthy S" "\<exists>i n. (msg_mailbox_id m, i, n) \<in> set (mailbox_keys d)" "next_id d < 2 ^ 64"
  shows "\<exists>d'. mysql_InsertMessage S m d = (Inr (of_nat (next_id d)), d')
    \<and> messages d' = messages d @ [m\<lparr>msg_id := of_nat (next_id d)\<rparr>]"
proof -
  have "\<exists>r \<in> set (mailboxes d). mbx_id r = msg_mailbox_id m" using assms(2) by (auto simp: mailbox_keys_def)
  then show ?thesis
    using assms(1,3) by (simp add: mysql_InsertMessage_def exec_sql_healthy insert_message_def)
qed

lemma FindDomain_healthy:
  assumes "healthy S"
  shows "mysql_FindDomain S name d =
    (case filter (\<lambda>r. collate S (dom_name r) name \<and> dom_active r) (domains d) of
       [] \<Rightarrow> (Inl (Errorf (''domain '' @ fmt_q (sql_unicode S) name @ '' not found'')), d\<lparr>stmts := Suc (stmts d)\<rparr>)
     | r # _ \<Rightarrow> (Inr (mysql_Domain.truncate r), d\<lparr>stmts := Suc (stmts d)\<rparr>))"
  using assms by (simp add: mysql_FindDomain_def exec_sql_healthy get_row_def split: list.split)

lemma FindUser_healthy:
  assumes "healthy S"
  shows "mysql_FindUser S name did d =
    (case filter (\<lambda>r. collate S (usr_username r) name \<and> usr_domain_id r = did \<and> usr_active r) (users d) of
       [] \<Rightarrow> (Inl (Errorf (''user '' @ fmt_q (sql_unicode S) name @ '' not found'')), d\<lparr>stmts := Suc (stmts d)\<rparr>)
     | r # _ \<Rightarrow> (Inr (mysql_User.truncate r), d\<lparr>stmts := Suc (stmts d)\<rparr>))"
  using assms by (simp add: mysql_FindUser_def exec_sql_healthy get_row_def split: list.split)

lemma FindInbox_healthy:
  assumes "healthy S"
  shows "\<exists>e. mysql_FindInboxByUserID S i d =
    (case filter (\<lambda>r. mbx_user_id r = i \<and> collate S (mbx_name r) ''INBOX'') (mailboxes d) of
       [] \<Rightarrow> (Inl e, d\<lparr>stmts := Suc (stmts d)\<rparr>)
     | r # _ \<Rightarrow> (Inr r, d\<lparr>stmts := Suc (stmts d)\<rparr>))"
  using assms
  by (simp add: mysql_FindInboxByUserID_def mysql_FindMailbox_def exec_sql_healthy get_row_def split: list.split)

lemma lookup_inboxD:
  assumes "lookup_inbox S d rcpt = Some I"
  obtains u dn D U where "storage_parseAddress rcpt = Some (u, dn)"
    "\<exists>ds. filter (\<lambda>r. collate S (dom_name r) dn \<and> dom_active r) (domains d) = D # ds"
    "\<exists>us. filter (\<lambda>r. collate S (usr_username r) u \<and> usr_domain_id r = dom_id D \<and> usr_active r) (users d) = U # us"
    "\<exists>is. filter (\<lambda>r. mbx_user_id r = usr_id U \<and> collate S (mbx_name r) ''INBOX'') (mailboxes d) = I # is"
    "I \<in> set (mailboxes d)"
proof -
  obtain u dn D ds U us xs where h: "storage_parseAddress rcpt = Some (u, dn)"
    "filter (\<lambda>r. collate S (dom_name r) dn \<and> dom_active r) (domains d) = D # ds"
    "filter (\<lambda>r. collate S (usr_username r) u \<and> usr_domain_id r = dom_id D \<and> usr_active r) (users d) = U # us"
    "filter (\<lambda>r. mbx_user_id r = usr_id U \<and> collate S (mbx_name r) ''INBOX'') (mailboxes d) = I # xs"
    using assms by (auto simp: lookup_inbox_def split: option.splits prod.splits list.splits)
  have "I \<in> set (filter (\<lambda>r. mbx_user_id r = usr_id U \<and> collate S (mbx_name r) ''INBOX'') (mailboxes d))"
    unfolding h(4) by simp
  then have "I \<in> set (mailboxes d)" by simp
  then show thesis using that [OF h(1)] h(2-4) by blast
qed

lemma deliverTo_healthy:
  assumes H: "healthy (be_mysql B)" and ids: "distinct (map mbx_id (mailboxes (ms_sql s)))"
    and I: "lookup_inbox (be_mysql B) (ms_sql s) rcpt = Some I"
    and room: "mbx_uid_next I \<noteq> - 1" "next_id (ms_sql s) < 2 ^ 64"
  shows "\<exists>s'. deliverTo B sender rcpt body s = (None, s')
    \<and> messages (ms_sql s') = messages (ms_sql s) @
        [(new_message (mbx_id I) (mbx_uid_next I) sender rcpt body (be_Now B (ms_ticks s)))
           \<lparr>msg_id := of_nat (next_id (ms_sql s))\<rparr>]"
proof -
  let ?S = "be_mysql B" and ?d = "ms_sql s"
  obtain u dn D U where h: "storage_parseAddress rcpt = Some (u, dn)"
    "\<exists>ds. filter (\<lambda>r. collate ?S (dom_name r) dn \<and> dom_active r) (domains ?d) = D # ds"
    "\<exists>us. filter (\<lambda>r. collate ?S (usr_username r) u \<and> usr_domain_id r = dom_id D \<and> usr_active r) (users ?d) = U # us"
    "\<exists>is. filter (\<lambda>r. mbx_user_id r = usr_id U \<and> collate ?S (mbx_name r) ''INBOX'') (mailboxes ?d) = I # is"
    "I \<in> set (mailboxes ?d)"
    using I by (rule lookup_inboxD)
  let ?d3 = "?d\<lparr>stmts := Suc (Suc (Suc (stmts ?d)))\<rparr>"
  obtain d4 where al: "mysql_AllocateUID ?S (mbx_id I) ?d3 = (Inr (mbx_uid_next I), d4)"
    "messages d4 = messages ?d" "next_id d4 = next_id ?d" "mailbox_keys d4 = mailbox_keys ?d"
    using AllocateUID_healthy [OF H, of ?d3 I] ids h(5) room(1) by (auto simp: mailbox_keys_def)
  let ?m = "new_message (mbx_id I) (mbx_uid_next I) sender rcpt body (be_Now B (ms_ticks s))"
  have "\<exists>i n. (msg_mailbox_id ?m, i, n) \<in> set (mailbox_keys d4)"
    using h(5) al(4) by (force simp: new_message_def mailbox_keys_def)
  then obtain d5 where ins: "mysql_InsertMessage ?S ?m d4 = (Inr (of_nat (next_id ?d)), d5)"
    "messages d5 = messages ?d @ [?m\<lparr>msg_id := of_nat (next_id ?d)\<rparr>]"
    using InsertMessage_healthy [OF H, of ?m d4] al room(2) by auto
  obtain e where inbox: "mysql_FindInboxByUserID ?S (usr_id U) (?d\<lparr>stmts := Suc (Suc (stmts ?d))\<rparr>) = (Inr I, ?d3)"
    using FindInbox_healthy [OF H, of "usr_id U" "?d\<lparr>stmts := Suc (Suc (stmts ?d))\<rparr>"] h(4) by auto
  show ?thesis
    using h(1,2,3) inbox al(1) ins
    by (auto simp: deliverTo_def on_sql_def on_redis_def FindDomain_healthy [OF H] FindUser_healthy [OF H]
        mysql_Domain.truncate_def mysql_User.truncate_def Let_def split: prod.split)
qed

subsection \<open>The body that was delivered\<close>

text \<open>The identifier of a new message is fresh, so what the cache holds for it can only be its body.\<close>

lemma deliverTo_ends:
  assumes "deliverTo B sender rcpt body s = (None, s')"
  obtains d m i d' x r' where "mysql_InsertMessage (be_mysql B) m d = (Inr i, d')"
    "messages d = messages (ms_sql s)" "next_id d = next_id (ms_sql s)"
    "SetMessageBody (be_redis B) i body (ms_redis s) = (x, r')" "ms_sql s' = d'" "ms_redis s' = r'"
proof -
  obtain s4 m i s5 x where ins: "on_sql (mysql_InsertMessage (be_mysql B) m) s4 = (Inr i, s5)"
    and set: "on_redis (SetMessageBody (be_redis B) i body) s5 = (x, s')"
    and s4: "messages (ms_sql s4) = messages (ms_sql s)" "next_id (ms_sql s4) = next_id (ms_sql s)"
      "ms_redis s4 = ms_redis s"
    using assms
    by (auto simp: deliverTo_def Let_def split: option.splits prod.splits sum.splits
        dest!: on_sql_messages [OF _ read_only_ops(1)] on_sql_messages [OF _ read_only_ops(2)]
          on_sql_messages [OF _ read_only_ops(4)] on_sql_allocate)
  from ins have "mysql_InsertMessage (be_mysql B) m (ms_sql s4) = (Inr i, ms_sql s5)" "ms_redis s5 = ms_redis s"
    using s4(3) by (auto simp: on_sql_def split: prod.splits)
  moreover from this set obtain r' where "SetMessageBody (be_redis B) i body (ms_redis s) = (x, r')"
    "ms_sql s' = ms_sql s5" "ms_redis s' = r'"
    by (auto simp: on_redis_def split: prod.splits)
  ultimately show thesis using s4 that by blast
qed

lemma next_id_fresh:
  assumes "uid_inv d pend" "next_id d < 2 ^ 64" "m \<in> set (messages d)"
  shows "msg_id m \<noteq> of_nat (next_id d)"
proof -
  have "unat (of_nat (next_id d) :: uint64) = next_id d" using assms(2) by (simp add: unat_of_nat)
  moreover have "unat (msg_id m) < next_id d" using assms(1,3) by (simp add: uid_inv_def)
  ultimately show ?thesis by auto
qed

lemma InsertMessage_Inr:
  assumes "mysql_InsertMessage S m d = (Inr i, d')"
  shows "i = of_nat (next_id d) \<and> next_id d < 2 ^ 64 \<and> msg_id (last (messages d')) = i"
proof -
  have "exec_sql S (insert_message m) d = (Inr i, d')"
    using assms by (auto simp: mysql_InsertMessage_def split: prod.splits sum.splits)
  then show ?thesis
    by (cases rule: exec_sql_cases) (auto simp: insert_message_def split: if_splits)
qed

lemma deliverTo_body:
  assumes C: "redis_writes (be_redis B) view" and inv: "store_inv (be_mysql B) view ([], s)"
    and dlv: "deliverTo B sender rcpt body s = (None, s')"
    and hit: "view (ms_redis s') (messageBodyKey (msg_id (last (messages (ms_sql s'))))) = Some b"
  shows "b = body"
  using dlv
proof (rule deliverTo_ends)
  fix d m i d' x r'
  assume ins: "mysql_InsertMessage (be_mysql B) m d = (Inr i, d')"
    and d: "messages d = messages (ms_sql s)" "next_id d = next_id (ms_sql s)"
    and set: "SetMessageBody (be_redis B) i body (ms_redis s) = (x, r')"
    and s': "ms_sql s' = d'" "ms_redis s' = r'"
  have i: "i = of_nat (next_id (ms_sql s))" "next_id (ms_sql s) < 2 ^ 64" "msg_id (last (messages d')) = i"
    using InsertMessage_Inr [OF ins] d by simp_all
  then have "view (ms_redis s) (messageBodyKey i) = Some b \<or> b = body"
    using SetMessageBody_view [OF C set, of i b] hit s' by simp
  moreover have "\<not> has_row (ms_sql s) i b"
    using next_id_fresh i(1,2) inv unfolding has_row_def store_inv_def by fastforce
  ultimately show ?thesis using inv by (auto simp: store_inv_def cache_ok_def)
qed

subsection \<open>The readers\<close>

definition owns :: "'r MessageStore \<Rightarrow> uint64 \<Rightarrow> uint64 \<Rightarrow> bool" where
  "owns s b u \<longleftrightarrow> (b, u) \<in> set (map (\<lambda>r. (mbx_id r, mbx_user_id r)) (mailboxes (ms_sql s)))"

lemma owns_read:
  assumes "read_only f"
  shows "owns (snd (map_result g (on_sql f) s)) = owns s"
proof -
  have "mailboxes (snd (f (ms_sql s))) = mailboxes (ms_sql s)"
    using assms by (simp add: read_only_def same_tables_iff)
  then show ?thesis by (auto simp: owns_def map_result_def on_sql_def fun_eq_iff split: prod.split)
qed

lemma map_result_Inr:
  "map_result g (on_sql f) s = (Inr x, s1) \<longleftrightarrow> (\<exists>y. x = g y \<and> f (ms_sql s) = (Inr y, ms_sql s1) \<and> s1 = s\<lparr>ms_sql := ms_sql s1\<rparr>)"
  by (auto simp: map_result_def on_sql_def map_sum_def split: prod.splits sum.splits)

end
