(* ===== verification/Storage_Delivery.thy ===== *)
theory Storage_Delivery
  imports Storage_Correct
begin

text \<open>
  Delivery to a list of recipients over servers that answer. \<open>budget\<close> follows what the steps of a delivery use
  of the counters, \<open>inboxes\<close> are the recipients that resolve; \<open>deliver_loop_healthy\<close> shows that exactly these
  get a message, in their order, and that the cache then holds its body.
\<close>

subsection \<open>Room in the counters\<close>

text \<open>The counters have room for \<open>n\<close> more messages.\<close>

definition room :: "db \<Rightarrow> nat \<Rightarrow> bool" where
  "room d n \<longleftrightarrow> (\<forall>r \<in> set (mailboxes d). unat (mbx_uid_next r) + n < 2 ^ 32) \<and> next_id d + n \<le> 2 ^ 64"

lemma unat_uid_succ: "unat (u + 1 :: uint32) \<le> unat u + 1"
  by (metis mod_less_eq_dividend unat_1 unat_word_ariths(1))

lemma AllocateUID_room:
  assumes "mysql_AllocateUID S b d = (r, d')" "room d (Suc n)"
  shows "(\<forall>r \<in> set (mailboxes d'). unat (mbx_uid_next r) + n < 2 ^ 32) \<and> next_id d' + Suc n \<le> 2 ^ 64"
  using assms(1)
proof (cases rule: AllocateUID_cases)
  case (counted u t)
  then have "mailboxes d' = map (\<lambda>r. if mbx_id r = b then r\<lparr>mbx_uid_next := mbx_uid_next r + 1\<rparr> else r) (mailboxes d)"
    "next_id d' = next_id d"
    by (auto simp: update_uid_next_def same_tables_iff split: if_splits)
  moreover have "unat (mbx_uid_next r + 1) + n < 2 ^ 32" if "r \<in> set (mailboxes d)" for r
    using unat_uid_succ [of "mbx_uid_next r"] assms(2) that by (fastforce simp: room_def)
  ultimately show ?thesis using assms(2) by (fastforce simp: room_def)
qed (use assms(2) in \<open>fastforce simp: room_def same_tables_iff\<close>)

lemma InsertMessage_room:
  assumes "mysql_InsertMessage S m d = (r, d')"
  shows "mailboxes d' = mailboxes d \<and> next_id d' \<le> Suc (next_id d)"
proof -
  obtain r0 where "exec_sql S (insert_message m) d = (r0, d')"
    using assms by (auto simp: mysql_InsertMessage_def split: prod.splits sum.splits)
  then show ?thesis
    by (cases rule: exec_sql_cases) (auto simp: insert_message_def same_tables_iff split: if_splits)
qed


text \<open>What a delivery in progress may still use of the counters.\<close>

fun budget :: "nat \<Rightarrow> dlv \<Rightarrow> db \<Rightarrow> bool" where
  "budget n (AtInsert sender rcpt body b u) d \<longleftrightarrow>
     (\<forall>r \<in> set (mailboxes d). unat (mbx_uid_next r) + n < 2 ^ 32) \<and> next_id d + Suc n \<le> 2 ^ 64"
| "budget n (AtCache i body) d \<longleftrightarrow> room d n"
| "budget n (Finished err) d \<longleftrightarrow> room d n"
| "budget n _ d \<longleftrightarrow> room d (Suc n)"

lemma room_less: "room d (Suc n) \<Longrightarrow> room d n"
  by (fastforce simp: room_def)

lemma room_same: "same_tables d d' \<Longrightarrow> room d n \<Longrightarrow> room d' n"
  by (simp add: room_def same_tables_iff)

lemma dlv_step_budget:
  assumes "dlv_step B (th, s) = (th', s')" "budget n th (ms_sql s)"
  shows "budget n th' (ms_sql s') \<and> grows (ms_sql s) (ms_sql s')"
proof (cases th)
  case (AtUID sender rcpt body b)
  obtain r d' where al: "mysql_AllocateUID (be_mysql B) b (ms_sql s) = (r, d')" by fastforce
  have "room (ms_sql s) (Suc n)" using assms(2) AtUID by simp
  from AllocateUID_room [OF al this] AllocateUID_grows [OF al] show ?thesis
    using assms(1) AtUID al by (auto simp: on_sql_def room_def split: sum.splits)
next
  case (AtInsert sender rcpt body b u)
  obtain r d' where ins: "mysql_InsertMessage (be_mysql B) (new_message b u sender rcpt body (be_Now B (ms_ticks s))) (ms_sql s) = (r, d')"
    by fastforce
  from ins have "grows (ms_sql s) d'" by (cases rule: InsertMessage_cases) (simp_all add: same_tables_grows)
  then show ?thesis
    using assms InsertMessage_room [OF ins] AtInsert ins by (auto simp: on_sql_def room_def split: sum.splits)
qed (use assms in \<open>auto simp: same_tables_grows intro: room_same room_less room_less [OF room_same] dest!: on_sql_read [OF _ read_only_ops(1)] on_sql_read [OF _ read_only_ops(2)]
      on_sql_read [OF _ read_only_ops(4)] on_redis_sql split: prod.splits sum.splits option.splits\<close>)

lemma deliverTo_room:
  assumes "deliverTo B sender rcpt body s = (err, s')" "room (ms_sql s) (Suc n)"
  shows "room (ms_sql s') n \<and> grows (ms_sql s) (ms_sql s')"
proof -
  have "budget n (fst ((dlv_step B ^^ k) (AtDomain sender rcpt body, s))) (ms_sql (snd ((dlv_step B ^^ k) (AtDomain sender rcpt body, s))))
      \<and> grows (ms_sql s) (ms_sql (snd ((dlv_step B ^^ k) (AtDomain sender rcpt body, s))))" for k
  proof (induction k)
    case (Suc k)
    obtain th t where c: "(dlv_step B ^^ k) (AtDomain sender rcpt body, s) = (th, t)" by fastforce
    obtain th' t' where c': "dlv_step B (th, t) = (th', t')" by fastforce
    show ?case using dlv_step_budget [OF c', of n] Suc c c' grows_trans by auto
  qed (use assms(2) in simp)
  from this [of 6] show ?thesis using assms(1) by (simp add: deliverTo_steps)
qed

subsection \<open>Who gets the message\<close>

lemma lookup_inbox_grows:
  assumes "grows d d'"
  shows "map_option mbx_id (lookup_inbox S d' rcpt) = map_option mbx_id (lookup_inbox S d rcpt)"
proof -
  have ids: "map mbx_id (filter (\<lambda>r. P (mbx_user_id r) (mbx_name r)) (mailboxes x))
      = map fst (filter (\<lambda>(i, u, n). P u n) (mailbox_keys x))" for P x
    by (simp add: mailbox_keys_def filter_map o_def)
  let ?f = "\<lambda>x i. filter (\<lambda>r. mbx_user_id r = i \<and> collate S (mbx_name r) ''INBOX'') (mailboxes x)"
  have "map mbx_id (?f d' i) = map mbx_id (?f d i)" for i
    using assms ids [of "\<lambda>u n. u = i \<and> collate S n ''INBOX''"] by (simp add: grows_def)
  then have "map_option mbx_id (case ?f d' i of [] \<Rightarrow> None | I # _ \<Rightarrow> Some I) = map_option mbx_id (case ?f d i of [] \<Rightarrow> None | I # _ \<Rightarrow> Some I)" for i
    by (cases "?f d i"; cases "?f d' i") (fastforce dest: spec [of _ i])+
  then show ?thesis
    using assms by (simp add: lookup_inbox_def grows_def split: option.split list.split)
qed

lemma deliverTo_unresolved:
  assumes H: "healthy (be_mysql B)" and none: "lookup_inbox (be_mysql B) (ms_sql s) rcpt = None"
  shows "\<exists>err s'. deliverTo B sender rcpt body s = (Some err, s') \<and> messages (ms_sql s') = messages (ms_sql s) \<and> ms_redis s' = ms_redis s"
proof (cases "storage_parseAddress rcpt")
  case None
  then show ?thesis by (simp add: deliverTo_def)
next
  case (Some a)
  then obtain u dn where p: "storage_parseAddress rcpt = Some (u, dn)" by (cases a) auto
  let ?S = "be_mysql B" and ?d = "ms_sql s"
  show ?thesis
  proof (cases "filter (\<lambda>r. collate ?S (dom_name r) dn \<and> dom_active r) (domains ?d)")
    case Nil
    then show ?thesis using p by (simp add: deliverTo_def on_sql_def FindDomain_healthy [OF H])
  next
    case D: (Cons D Ds)
    show ?thesis
    proof (cases "filter (\<lambda>r. collate ?S (usr_username r) u \<and> usr_domain_id r = dom_id D \<and> usr_active r) (users ?d)")
      case Nil
      then show ?thesis
        using p D by (simp add: deliverTo_def on_sql_def FindDomain_healthy [OF H] FindUser_healthy [OF H] mysql_Domain.truncate_def)
    next
      case U: (Cons U Us)
      then have "filter (\<lambda>r. mbx_user_id r = usr_id U \<and> collate ?S (mbx_name r) ''INBOX'') (mailboxes ?d) = []"
        using none p D by (simp add: lookup_inbox_def split: list.splits)
      then obtain e where "mysql_FindInboxByUserID ?S (usr_id U) (?d\<lparr>stmts := Suc (Suc (stmts ?d))\<rparr>)
          = (Inl e, ?d\<lparr>stmts := Suc (Suc (Suc (stmts ?d)))\<rparr>)"
        using FindInbox_healthy [OF H, of "usr_id U" "?d\<lparr>stmts := Suc (Suc (stmts ?d))\<rparr>"] by auto
      then show ?thesis
        using p D U by (simp add: deliverTo_def on_sql_def FindDomain_healthy [OF H] FindUser_healthy [OF H]
            mysql_Domain.truncate_def mysql_User.truncate_def)
    qed
  qed
qed

lemma deliverTo_cached:
  assumes "redis_keeps (be_redis B) view" "deliverTo B sender rcpt body s = (None, s')"
  shows "view (ms_redis s') = (view (ms_redis s))(messageBodyKey (of_nat (next_id (ms_sql s))) \<mapsto> body)"
  using assms(2)
proof (rule deliverTo_ends)
  fix d m i d' x r'
  assume "mysql_InsertMessage (be_mysql B) m d = (Inr i, d')" "next_id d = next_id (ms_sql s)"
    "SetMessageBody (be_redis B) i body (ms_redis s) = (x, r')" "ms_redis s' = r'"
  then show ?thesis using InsertMessage_Inr SetMessageBody_keeps [OF assms(1)] by metis
qed

text \<open>The recipients that resolve, each with the INBOX it resolves to.\<close>

definition inboxes :: "mysql_server \<Rightarrow> db \<Rightarrow> string list \<Rightarrow> (string \<times> uint64) list" where
  "inboxes S d rcpts = List.map_filter (\<lambda>rcpt. map_option (\<lambda>I. (rcpt, mbx_id I)) (lookup_inbox S d rcpt)) rcpts"

lemma inboxes_grows: "grows d d' \<Longrightarrow> inboxes S d' rcpts = inboxes S d rcpts"
proof -
  assume g: "grows d d'"
  have "map_option (\<lambda>I. (r, mbx_id I)) (lookup_inbox S x r) = map_option (Pair r) (map_option mbx_id (lookup_inbox S x r))" for r x
    by (simp add: option.map_comp o_def)
  then show ?thesis unfolding inboxes_def by (simp only: lookup_inbox_grows [OF g])
qed

text \<open>Every recipient that resolves gets the message, whatever becomes of those before it.\<close>

lemma deliver_loop_healthy:
  assumes H: "healthy (be_mysql B)"
  shows "distinct (map mbx_id (mailboxes (ms_sql s))) \<Longrightarrow> room (ms_sql s) (length rcpts) \<Longrightarrow>
    \<exists>rows. messages (ms_sql (deliver_loop B sender body rcpts s)) = messages (ms_sql s) @ rows
      \<and> map (\<lambda>m. (msg_envelope_to m, msg_mailbox_id m)) rows = inboxes (be_mysql B) (ms_sql s) rcpts
      \<and> (\<forall>view. redis_keeps (be_redis B) view \<longrightarrow>
           (\<forall>m \<in> set rows. view (ms_redis (deliver_loop B sender body rcpts s)) (messageBodyKey (msg_id m)) = Some body)
           \<and> (\<forall>k. view (ms_redis s) k = Some body \<longrightarrow> view (ms_redis (deliver_loop B sender body rcpts s)) k = Some body))"
proof (induction rcpts arbitrary: s)
  case (Cons rcpt rcpts)
  obtain err s1 where dlv: "deliverTo B sender rcpt body s = (err, s1)" by fastforce
  have g: "grows (ms_sql s) (ms_sql s1)" "room (ms_sql s1) (length rcpts)"
    using deliverTo_room [OF dlv, of "length rcpts"] Cons.prems(2) by simp_all
  have "map mbx_id (mailboxes x) = map fst (mailbox_keys x)" for x by (simp add: mailbox_keys_def)
  then have "distinct (map mbx_id (mailboxes (ms_sql s1)))" using Cons.prems(1) g(1) by (simp add: grows_def)
  from Cons.IH [OF this g(2)] obtain rows where
    rows: "messages (ms_sql (deliver_loop B sender body rcpts s1)) = messages (ms_sql s1) @ rows"
      "map (\<lambda>m. (msg_envelope_to m, msg_mailbox_id m)) rows = inboxes (be_mysql B) (ms_sql s) rcpts"
    and kept: "\<And>view. redis_keeps (be_redis B) view \<Longrightarrow>
        (\<forall>m \<in> set rows. view (ms_redis (deliver_loop B sender body rcpts s1)) (messageBodyKey (msg_id m)) = Some body)
      \<and> (\<forall>k. view (ms_redis s1) k = Some body \<longrightarrow> view (ms_redis (deliver_loop B sender body rcpts s1)) k = Some body)"
    using inboxes_grows [OF g(1)] by auto
  show ?case
  proof (cases "lookup_inbox (be_mysql B) (ms_sql s) rcpt")
    case None
    then obtain e where "messages (ms_sql s1) = messages (ms_sql s)" "ms_redis s1 = ms_redis s"
      using deliverTo_unresolved [OF H, of s rcpt sender body] dlv by auto
    then show ?thesis
      using rows kept None dlv by (intro exI [of _ rows]) (simp add: inboxes_def map_filter_simps)
  next
    case (Some I)
    then have "I \<in> set (mailboxes (ms_sql s))" by (rule lookup_inboxD)
    moreover have "unat (- 1 :: uint32) = 2 ^ 32 - 1" by (simp add: unsigned_minus_1_eq_mask mask_eq_exp_minus_1)
    ultimately have full: "mbx_uid_next I \<noteq> - 1" "next_id (ms_sql s) < 2 ^ 64"
      using Cons.prems(2) by (force simp: room_def)+
    let ?m = "(new_message (mbx_id I) (mbx_uid_next I) sender rcpt body (be_Now B (ms_ticks s)))\<lparr>msg_id := of_nat (next_id (ms_sql s))\<rparr>"
    have one: "err = None" "messages (ms_sql s1) = messages (ms_sql s) @ [?m]"
      using deliverTo_healthy [OF H Cons.prems(1) Some full, of sender body] dlv by auto
    have "view (ms_redis s1) = (view (ms_redis s))(messageBodyKey (msg_id ?m) \<mapsto> body)" if "redis_keeps (be_redis B) view" for view
      using deliverTo_cached [OF that] dlv one(1) by simp
    then show ?thesis
      using rows kept Some dlv one by (intro exI [of _ "?m # rows"]) (simp add: inboxes_def map_filter_simps new_message_def)
  qed
qed (simp add: inboxes_def map_filter_simps)

end
