(* ===== verification/Storage_Properties.thy ===== *)
theory Storage_Properties
  imports Storage_Delivery
begin

text \<open>
  The properties of the storage layer (message store, MySQL store, Redis store), each with a run of
  the model where its hypotheses hold. The runs use \<open>demo_store\<close>, the tables as the migration leaves
  them, a server without faults that compares strings as they are, and the cache \<open>map_redis\<close>.
\<close>

definition demo_backend :: "(string \<rightharpoonup> bytes) backend" where
  "demo_backend = \<lparr>be_mysql = \<lparr>collate = (=), faults = (\<lambda>_. NoFault), sql_unicode = ascii_tables\<rparr>, be_redis = map_redis, be_Now = int\<rparr>"

definition demo_db :: db where
  "demo_db =
     \<lparr>domains = [\<lparr>dom_id = 1, dom_name = ''gomail.local'', dom_active = True\<rparr>],
      users = [\<lparr>usr_id = 1, usr_domain_id = 1, usr_username = ''test'', usr_password_hash = ''hash'',
                usr_quota_bytes = 1073741824, usr_active = True\<rparr>],
      mailboxes = [\<lparr>mbx_id = 1, mbx_user_id = 1, mbx_name = ''INBOX'', mbx_uid_validity = 1, mbx_uid_next = 1\<rparr>,
                   \<lparr>mbx_id = 2, mbx_user_id = 1, mbx_name = ''Sent'', mbx_uid_validity = 1, mbx_uid_next = 1\<rparr>],
      messages = [], next_id = 1, stmts = 0\<rparr>"

definition demo_store :: "(string \<rightharpoonup> bytes) MessageStore" where
  "demo_store = \<lparr>ms_sql = demo_db, ms_redis = Map.empty, ms_ticks = 0\<rparr>"

lemma demo_backend_redis [simp]: "redis_contract (be_redis demo_backend) (\<lambda>r. r)" "redis_writes (be_redis demo_backend) (\<lambda>r. r)"
  using map_redis_contract by (simp_all add: demo_backend_def redis_contract_def)

lemma demo_backend_healthy [simp]: "healthy (be_mysql demo_backend)"
  by (simp add: healthy_def demo_backend_def)

lemma demo_uid_inv [simp]: "uid_inv demo_db []"
  by (simp add: uid_inv_def demo_db_def used_uids_def)

lemma demo_store_inv [simp]: "store_inv (be_mysql demo_backend) (\<lambda>r. r) ([], demo_store)"
  using demo_uid_inv by (simp add: store_inv_def demo_store_def routed_def cache_ok_def) (simp add: demo_db_def)

lemma demo_store_sql [simp]: "ms_sql demo_store = demo_db"
  by (simp add: demo_store_def)

subsection \<open>Delivery\<close>

text \<open>
  Any number of sessions may deliver at the same time, in any interleaving of their steps, with
  statements and answers lost at any point: UIDs stay unique in their mailbox, those in use and those
  allocated by deliveries in progress alike, and below the mailbox's next UID; message ids stay
  unique; every message lies in the INBOX of the account its envelope names; and whatever the cache
  holds for a message has the size and subject of its row.
\<close>

lemma concurrent_deliveries_safe:
  assumes "redis_writes (be_redis B) view" "store_inv (be_mysql B) view ([], s0)"
    and "(concurrent B)\<^sup>*\<^sup>* ([], s0) (ths, s)"
  shows "distinct (used_uids (ms_sql s) @ concat (map dlv_pending ths))
    \<and> list_all (below_next (ms_sql s)) (used_uids (ms_sql s) @ concat (map dlv_pending ths))
    \<and> distinct (map msg_id (messages (ms_sql s)))
    \<and> routed (be_mysql B) (ms_sql s) \<and> cache_ok view s"
  using store_inv_reachable [OF assms(1,3,2)] by (simp add: store_inv_def uid_inv_def list_all_iff)

lemma concurrent_deliveries_safe_witness:
  "distinct (used_uids (ms_sql demo_store) @ concat (map dlv_pending [AtDomain ''a@b'' ''c@d'' []]))
    \<and> list_all (below_next (ms_sql demo_store)) (used_uids (ms_sql demo_store) @ concat (map dlv_pending [AtDomain ''a@b'' ''c@d'' []]))
    \<and> distinct (map msg_id (messages (ms_sql demo_store)))
    \<and> routed (be_mysql demo_backend) (ms_sql demo_store) \<and> cache_ok (\<lambda>r. r) demo_store"
proof (rule concurrent_deliveries_safe)
  show "(concurrent demo_backend)\<^sup>*\<^sup>* ([], demo_store) ([AtDomain ''a@b'' ''c@d'' []], demo_store)"
    using concurrent.begins [of demo_backend "[]" demo_store] by (simp add: r_into_rtranclp)
qed simp_all

text \<open>
  C14: with a database that answers, a recipient whose address resolves to an INBOX, and counters
  that are not exhausted, delivery succeeds: exactly one message is filed, in that INBOX, under the
  next UID, with the sender, the recipient, the length of the body and its subject.
\<close>

theorem deliverTo_succeeds:
  assumes "healthy (be_mysql B)" "uid_inv (ms_sql s) []"
    and "lookup_inbox (be_mysql B) (ms_sql s) rcpt = Some I"
    and "mbx_uid_next I \<noteq> - 1" "next_id (ms_sql s) < 2 ^ 64"
  shows "\<exists>s'. deliverTo B sender rcpt body s = (None, s')
    \<and> messages (ms_sql s') = messages (ms_sql s) @
        [\<lparr>msg_id = of_nat (next_id (ms_sql s)), msg_mailbox_id = mbx_id I, msg_uid = mbx_uid_next I, msg_flags = [],
          msg_size_bytes = int (length body), msg_raw_key = [], msg_envelope_from = sender,
          msg_envelope_to = rcpt, msg_subject = extractSubject body, msg_internal_date = be_Now B (ms_ticks s)\<rparr>]"
  using deliverTo_healthy [OF assms(1) _ assms(3-5)] assms(2) by (simp add: uid_inv_def new_message_def)

lemma demo_lookup: "lookup_inbox (be_mysql demo_backend) demo_db ''test@gomail.local'' =
    Some \<lparr>mbx_id = 1, mbx_user_id = 1, mbx_name = ''INBOX'', mbx_uid_validity = 1, mbx_uid_next = 1\<rparr>"
proof -
  have "storage_parseAddress ''test@gomail.local'' = Some (''test'', ''gomail.local'')" by code_simp
  then show ?thesis by (simp add: lookup_inbox_def demo_backend_def demo_db_def)
qed

theorem deliverTo_succeeds_witness:
  "\<exists>s'. deliverTo demo_backend ''a@b'' ''test@gomail.local'' ''hi'' demo_store = (None, s')
    \<and> map msg_uid (messages (ms_sql s')) = [1] \<and> map msg_mailbox_id (messages (ms_sql s')) = [1]"
proof -
  have "messages demo_db = []" "next_id demo_db < 2 ^ 64" by (simp_all add: demo_db_def)
  then show ?thesis
    using deliverTo_succeeds [of demo_backend demo_store "''test@gomail.local''" _ "''a@b''" "''hi''"] demo_lookup
    by fastforce
qed

text \<open>
  C23: delivering an event never reports an error, files at most one message per recipient, in the order of
  the recipients, each with the event's sender and the size and subject of its body, and keeps what was
  filed before, whatever fails. With a database that answers and room in its counters every recipient
  whose address resolves gets its message, in its own INBOX, also after recipients that fail; and with a
  cache that answers the body of the event is cached for each of these messages.
\<close>

theorem Deliver_files:
  "fst (storage_Deliver B e s) = None
   \<and> (\<exists>rows. messages (ms_sql (snd (storage_Deliver B e s))) = messages (ms_sql s) @ rows
        \<and> subseq (map msg_envelope_to rows) (Received_To e)
        \<and> (\<forall>m \<in> set rows. filed_row (Received_From e) (msg_envelope_to m) (Received_Body e) m)
        \<and> (healthy (be_mysql B) \<and> uid_inv (ms_sql s) [] \<and> room (ms_sql s) (length (Received_To e)) \<longrightarrow>
             map (\<lambda>m. (msg_envelope_to m, msg_mailbox_id m)) rows = inboxes (be_mysql B) (ms_sql s) (Received_To e)
           \<and> (redis_keeps (be_redis B) view \<longrightarrow>
                (\<forall>m \<in> set rows. view (ms_redis (snd (storage_Deliver B e s))) (messageBodyKey (msg_id m)) = Some (Received_Body e)))))"
proof -
  obtain rows where rows: "messages (ms_sql (snd (storage_Deliver B e s))) = messages (ms_sql s) @ rows"
    "subseq (map msg_envelope_to rows) (Received_To e)"
    "\<forall>m \<in> set rows. filed_row (Received_From e) (msg_envelope_to m) (Received_Body e) m"
    using deliver_loop_files [of B "Received_From e" "Received_Body e" "Received_To e" s] by (auto simp: storage_Deliver_def)
  have "map (\<lambda>m. (msg_envelope_to m, msg_mailbox_id m)) rows = inboxes (be_mysql B) (ms_sql s) (Received_To e)
      \<and> (redis_keeps (be_redis B) view \<longrightarrow>
           (\<forall>m \<in> set rows. view (ms_redis (snd (storage_Deliver B e s))) (messageBodyKey (msg_id m)) = Some (Received_Body e)))"
    if "healthy (be_mysql B)" "uid_inv (ms_sql s) []" "room (ms_sql s) (length (Received_To e))"
    using deliver_loop_healthy [OF that(1), of s "Received_To e" "Received_From e" "Received_Body e"] that(2,3) rows(1)
    by (auto simp: storage_Deliver_def uid_inv_def)
  then show ?thesis using rows by (intro conjI exI [of _ rows]) (simp_all add: storage_Deliver_def)
qed

definition demo_event :: MessageReceived where
  "demo_event = \<lparr>Received_From = ''a@b'', Received_To = [''nobody'', ''test@gomail.local''], Received_Body = ''hi'', Received_Size = 2,
     Received_Timestamp = 0\<rparr>"

lemma demo_backend_keeps [simp]: "redis_keeps (be_redis demo_backend) (\<lambda>r. r)"
  by (simp add: demo_backend_def map_redis_keeps)

theorem Deliver_files_witness:
  "\<exists>m. messages (ms_sql (snd (storage_Deliver demo_backend demo_event demo_store))) = [m]
     \<and> msg_envelope_to m = ''test@gomail.local'' \<and> msg_mailbox_id m = 1 \<and> msg_size_bytes m = 2
     \<and> ms_redis (snd (storage_Deliver demo_backend demo_event demo_store)) (messageBodyKey (msg_id m)) = Some ''hi''"
proof -
  have "storage_parseAddress ''nobody'' = None" by code_simp
  then have "lookup_inbox (be_mysql demo_backend) demo_db ''nobody'' = None" by (simp add: lookup_inbox_def)
  then have i: "inboxes (be_mysql demo_backend) demo_db (Received_To demo_event) = [(''test@gomail.local'', 1)]"
    by (simp add: inboxes_def map_filter_simps demo_event_def demo_lookup)
  have r: "room demo_db (length (Received_To demo_event))" by (simp add: room_def demo_db_def demo_event_def)
  obtain rows where rows: "messages (ms_sql (snd (storage_Deliver demo_backend demo_event demo_store))) = messages demo_db @ rows"
    "\<forall>m \<in> set rows. filed_row (Received_From demo_event) (msg_envelope_to m) (Received_Body demo_event) m"
    "map (\<lambda>m. (msg_envelope_to m, msg_mailbox_id m)) rows = [(''test@gomail.local'', 1)]"
    "\<forall>m \<in> set rows. ms_redis (snd (storage_Deliver demo_backend demo_event demo_store)) (messageBodyKey (msg_id m)) = Some (Received_Body demo_event)"
    using Deliver_files [of demo_backend demo_event demo_store "\<lambda>r. r"] i r by auto
  moreover have "messages demo_db = []" by (simp add: demo_db_def)
  ultimately show ?thesis by (auto simp: filed_row_def demo_event_def)
qed

text \<open>
  C16: the body read back for a message just delivered is the body that was delivered: the cache may
  have lost it, but it cannot answer with another one.
\<close>

theorem delivered_body_read_back:
  assumes "redis_contract (be_redis B) view" "store_inv (be_mysql B) view ([], s)"
    and "deliverTo B sender rcpt body s = (None, s')"
    and "storage_GetMessageBody B (msg_id (last (messages (ms_sql s')))) s' = (Inr (Some b), s'')"
  shows "b = body"
proof -
  have "view (ms_redis s') (messageBodyKey (msg_id (last (messages (ms_sql s'))))) = Some b"
    using assms(1,4) redis_GetMessageBody_view(2) [of "be_redis B" view]
    by (auto simp: storage_GetMessageBody_def on_redis_def redis_contract_def split: prod.splits)
  then show ?thesis using deliverTo_body assms(1-3) unfolding redis_contract_def by blast
qed

theorem delivered_body_read_back_witness:
  "\<exists>s' b s''. deliverTo demo_backend ''a@b'' ''test@gomail.local'' ''hi'' demo_store = (None, s')
     \<and> storage_GetMessageBody demo_backend (msg_id (last (messages (ms_sql s')))) s' = (Inr (Some b), s'') \<and> b = ''hi''"
proof -
  have "distinct (map mbx_id (mailboxes demo_db))" "next_id demo_db < 2 ^ 64" by (simp_all add: demo_db_def)
  then obtain s' where dlv: "deliverTo demo_backend ''a@b'' ''test@gomail.local'' ''hi'' demo_store = (None, s')"
    using deliverTo_healthy [of demo_backend demo_store "''test@gomail.local''" _ "''a@b''" "''hi''"] demo_lookup by fastforce
  from dlv obtain i x where i: "msg_id (last (messages (ms_sql s'))) = i"
    "SetMessageBody (be_redis demo_backend) i ''hi'' (ms_redis demo_store) = (x, ms_redis s')"
    by (rule deliverTo_ends) (auto dest: InsertMessage_Inr)
  then have "ms_redis s' = (ms_redis demo_store)(messageBodyKey i \<mapsto> ''hi'')"
    by (simp add: SetMessageBody_def demo_backend_def map_redis_def)
  then have "ms_redis s' (messageBodyKey (msg_id (last (messages (ms_sql s'))))) = Some ''hi''"
    using i(1) by simp
  then obtain b s'' where g: "storage_GetMessageBody demo_backend (msg_id (last (messages (ms_sql s')))) s' = (Inr (Some b), s'')"
    by (simp add: storage_GetMessageBody_def on_redis_def redis_GetMessageBody_def demo_backend_def map_redis_def)
  then show ?thesis using delivered_body_read_back [OF demo_backend_redis(1) demo_store_inv dlv g] dlv by blast
qed

text \<open>Deliveries in progress, run by a schedule that names the one to make the next step.\<close>

fun dlv_run :: "'r backend \<Rightarrow> nat list \<Rightarrow> dlv list \<times> 'r MessageStore \<Rightarrow> dlv list \<times> 'r MessageStore" where
  "dlv_run B [] c = c"
| "dlv_run B (i # is) (ths, s) = (case dlv_step B (ths ! i, s) of (th, s') \<Rightarrow> dlv_run B is (ths[i := th], s'))"

lemma dlv_run_concurrent:
  "\<forall>i \<in> set is. i < length (fst c) \<Longrightarrow> (concurrent B)\<^sup>*\<^sup>* c (dlv_run B is c)"
proof (induction B "is" c rule: dlv_run.induct)
  case (2 B i "is" ths s)
  obtain th s' where st: "dlv_step B (ths ! i, s) = (th, s')" by fastforce
  have "concurrent B (ths, s) (ths[i := th], s')" using "2.prems" st by (auto intro: concurrent.steps)
  moreover have "(concurrent B)\<^sup>*\<^sup>* (ths[i := th], s') (dlv_run B is (ths[i := th], s'))"
    using "2.IH" [OF st [symmetric]] "2.prems" by simp
  ultimately show ?case using st by simp
qed simp

lemmas run_sql = on_sql_def mysql_FindDomain_def mysql_FindUser_def mysql_FindInboxByUserID_def
  mysql_FindMailbox_def mysql_AllocateUID_def mysql_InsertMessage_def exec_sql_def get_row_def
  select_uid_next_def update_uid_next_def commit_def rollback_def insert_message_def
  mysql_Domain.truncate_def mysql_User.truncate_def

text \<open>
  C39: messages can become visible out of the order of their UIDs. The UID is allocated in one
  transaction and the message inserted by a later statement, so of two deliveries to a mailbox the
  one with UID 2 can be visible while the one with UID 1 is still to come.
\<close>

theorem uids_visible_out_of_order:
  "\<exists>ths s. (concurrent demo_backend)\<^sup>*\<^sup>* ([], demo_store) (ths, s)
     \<and> map msg_uid (messages (ms_sql s)) = [2] \<and> concat (map dlv_pending ths) = [(1, 1)]"
proof -
  let ?d = "AtDomain ''a@b'' ''test@gomail.local'' []" and ?is = "[0, 0, 0, 0, 1, 1, 1, 1, 1]"
  obtain ths s where run: "dlv_run demo_backend ?is ([?d, ?d], demo_store) = (ths, s)" by fastforce
  have "(concurrent demo_backend)\<^sup>*\<^sup>* ([], demo_store) ([?d, ?d], demo_store)"
    using concurrent.begins [of demo_backend "[]" demo_store "''a@b''" "''test@gomail.local''" "[]"]
      concurrent.begins [of demo_backend "[?d]" demo_store "''a@b''" "''test@gomail.local''" "[]"]
    by (auto intro: rtranclp.rtrancl_into_rtrancl)
  then have reach: "(concurrent demo_backend)\<^sup>*\<^sup>* ([], demo_store) (ths, s)"
    using dlv_run_concurrent [of ?is "([?d, ?d], demo_store)" demo_backend] run by simp
  have "storage_parseAddress ''test@gomail.local'' = Some (''test'', ''gomail.local'')" "extractSubject [] = []"
    by code_simp+
  then have a: "map msg_uid (messages (ms_sql s)) = [2]" and b: "concat (map dlv_pending ths) = [(1, 1)]"
    using run by (auto simp: run_sql new_message_def Let_def demo_backend_def demo_db_def demo_store_def)
  show ?thesis by (intro exI [of _ ths] exI [of _ s] conjI reach a b)
qed

subsection \<open>UIDs\<close>

text \<open>
  C15: a UID that \<open>AllocateUID\<close> returns is strictly greater than every UID in use in the mailbox and
  every one allocated before, and it is then known as allocated; an allocation that reports an error
  never makes a UID come twice.
\<close>

theorem AllocateUID_ascending:
  assumes "uid_inv d pend" "mysql_AllocateUID S b d = (r, d')"
  shows "uid_inv d' (case r of Inl _ \<Rightarrow> pend | Inr u \<Rightarrow> (b, u) # pend)
    \<and> (\<forall>u v. r = Inr u \<longrightarrow> (b, v) \<in> set (used_uids d @ pend) \<longrightarrow> v < u)"
proof -
  have "v < u" if r: "r = Inr u" and v: "(b, v) \<in> set (used_uids d @ pend)" for u v
    using assms(2)
  proof (cases rule: AllocateUID_cases)
    case (counted u' t)
    then have "select_uid_next b d = Inr (u, d)" using r by auto
    then obtain m where m: "m \<in> set (mailboxes d)" "mbx_id m = b" "mbx_uid_next m = u"
      using select_uid_nextD by blast
    have "below_next d (b, v)" using assms(1) v by (simp add: uid_inv_def)
    then obtain m' where m': "m' \<in> set (mailboxes d)" "mbx_id m' = b" "v < mbx_uid_next m'"
      by (auto simp: below_next_def)
    have "m' = m" using assms(1) m(1,2) m'(1,2) by (auto simp: uid_inv_def distinct_map dest: inj_onD)
    with m m' show ?thesis by simp
  qed (use r in simp)
  then show ?thesis using AllocateUID_inv [OF assms] by blast
qed

theorem AllocateUID_ascending_witness:
  "\<exists>r d'. mysql_AllocateUID (be_mysql demo_backend) 1 demo_db = (r, d')
     \<and> uid_inv d' (case r of Inl _ \<Rightarrow> [] | Inr u \<Rightarrow> (1, u) # [])"
proof -
  obtain r d' where al: "mysql_AllocateUID (be_mysql demo_backend) 1 demo_db = (r, d')" by fastforce
  then show ?thesis using AllocateUID_ascending [OF demo_uid_inv al] by blast
qed

text \<open>
  C22: \<open>ListMessages\<close> of the store returns the messages of the mailbox, all of them and no others, in
  strictly ascending order of UID.
\<close>

theorem ListMessages_exact:
  assumes "uid_inv (ms_sql s) pend" "storage_ListMessages B b s = (Inr xs, s')"
  shows "sorted_wrt (<) (map Message_UID xs)
    \<and> set xs = to_Message ` {m \<in> set (messages (ms_sql s)). msg_mailbox_id m = b}"
proof -
  let ?ms = "filter (\<lambda>m. msg_mailbox_id m = b) (messages (ms_sql s))"
  have xs: "xs = map to_Message (sort_key msg_uid ?ms)"
    using assms(2) by (auto simp: storage_ListMessages_def map_result_Inr dest!: mysql_ListMessages_spec(2) [OF _ refl])
  have uids: "map Message_UID xs = map msg_uid (sort_key msg_uid ?ms)" by (simp add: xs to_Message_def)
  have "distinct (map (\<lambda>m. (msg_mailbox_id m, msg_uid m)) ?ms)"
    using assms(1) by (simp add: uid_inv_def used_uids_def distinct_map inj_on_def)
  then have "distinct (map msg_uid ?ms)" by (auto simp: distinct_map inj_on_def)
  then have "distinct (map Message_UID xs)" unfolding uids by (simp add: distinct_map)
  moreover have "sorted (map Message_UID xs)" unfolding uids by (rule sorted_sort_key)
  ultimately show ?thesis by (auto simp: strict_sorted_iff xs)
qed

text \<open>A mailbox whose two messages lie in the table in the opposite order.\<close>

definition demo_unsorted :: "(string \<rightharpoonup> bytes) MessageStore" where
  "demo_unsorted = demo_store\<lparr>ms_sql := demo_db\<lparr>mailboxes := map (\<lambda>r. r\<lparr>mbx_uid_next := 3\<rparr>) (mailboxes demo_db),
     messages := [(new_message 1 2 ''a@b'' ''test@gomail.local'' ''two'' 0)\<lparr>msg_id := 1\<rparr>,
                  (new_message 1 1 ''a@b'' ''test@gomail.local'' ''one'' 0)\<lparr>msg_id := 2\<rparr>], next_id := 3\<rparr>\<rparr>"

lemma demo_unsorted_inv: "uid_inv (ms_sql demo_unsorted) []"
  by (simp add: demo_unsorted_def demo_db_def uid_inv_def used_uids_def below_next_def new_message_def)

theorem ListMessages_exact_witness:
  "\<exists>xs s'. storage_ListMessages demo_backend 1 demo_unsorted = (Inr xs, s') \<and> sorted_wrt (<) (map Message_UID xs)
    \<and> Message_UID ` set xs = {1, 2}"
proof -
  obtain xs s' where l: "storage_ListMessages demo_backend 1 demo_unsorted = (Inr xs, s')"
    by (simp add: storage_ListMessages_def map_result_def on_sql_def mysql_ListMessages_def exec_sql_def demo_backend_def)
  have "to_Message ` {m \<in> set (messages (ms_sql demo_unsorted)). msg_mailbox_id m = 1} = to_Message ` set (messages (ms_sql demo_unsorted))"
    by (auto simp: demo_unsorted_def new_message_def)
  then have "sorted_wrt (<) (map Message_UID xs)" "set xs = to_Message ` set (messages (ms_sql demo_unsorted))"
    using ListMessages_exact [OF demo_unsorted_inv l] by simp_all
  then show ?thesis using l by (auto simp: demo_unsorted_def to_Message_def new_message_def)
qed

subsection \<open>Texts\<close>

text \<open>
  C35: the subject of a message is the trimmed value of its first Subject field, wherever it stands
  in the header and in whatever case its name is spelled, and a message whose header ends before one
  has no subject. The slice of the Go code stays inside of the line.
\<close>

theorem extractSubject_of_header:
  assumes "list_all header_line hs" "HasPrefix (ToUpper l) ''SUBJECT:''" "LF \<notin> set l"
    and "TrimSpace e = []" "LF \<notin> set e" "\<not> HasPrefix (ToUpper e) ''SUBJECT:''"
  shows "extractSubject (concat (map (\<lambda>h. h @ [LF]) hs) @ l @ LF # rest) = TrimSpace (drop 8 l)
    \<and> extractSubject (concat (map (\<lambda>h. h @ [LF]) hs) @ e @ LF # l @ LF # rest) = []
    \<and> 8 \<le> length l"
  using extractSubject_headers [OF assms(1)] extractSubject_field [OF assms(2,3)] extractSubject_stops [OF assms(4-6)]
    subject_line_long [OF assms(2)] by simp

theorem extractSubject_of_header_witness:
  "extractSubject (concat (map (\<lambda>h. h @ [LF]) [''From: a'' @ [CR]]) @ (''Subject: Hi'' @ [CR]) @ LF # ''x'') = TrimSpace (drop 8 (''Subject: Hi'' @ [CR]))
    \<and> extractSubject (concat (map (\<lambda>h. h @ [LF]) [''From: a'' @ [CR]]) @ [CR] @ LF # (''Subject: Hi'' @ [CR]) @ LF # ''x'') = []
    \<and> 8 \<le> length (''Subject: Hi'' @ [CR])"
  by (rule extractSubject_of_header) code_simp+

text \<open>
  The data source name is logged without its password when the password contains no at sign:
  what stands between the first colon and the at sign is replaced by three stars.
\<close>

lemma maskDSN_hides_password:
  assumes "CHR '':'' \<notin> set user" "CHR ''@'' \<notin> set password"
  shows "maskDSN (user @ '':'' @ password @ ''@'' @ rest) = user @ '':***@'' @ rest"
proof -
  have pw: "dropWhile (\<lambda>x. x \<noteq> CHR ''@'') (password @ CHR ''@'' # rest) = CHR ''@'' # rest"
    using assms(2) by (induction password) auto
  have "mask_scan pre (user @ CHR '':'' # password @ CHR ''@'' # rest) = pre @ user @ '':***@'' @ rest" for pre
    using assms(1) pw by (induction user arbitrary: pre) auto
  then show ?thesis by (simp add: maskDSN_def)
qed

text \<open>
  A password with an at sign is logged from that sign on.
\<close>

lemma maskDSN_leaks_tail:
  "maskDSN ''gomail:p@ss@tcp(db:3306)/gomail'' = ''gomail:***@ss@tcp(db:3306)/gomail''"
  by (simp add: maskDSN_def)

end
