(* ===== verification/Imap_Properties.thy ===== *)
theory Imap_Properties
  imports Imap_Lines Storage_Properties
begin

text \<open>
  The properties of the IMAP server, each with a run of the model where its hypotheses hold. The
  runs use \<open>demo_imap\<close>, a server over the message store of theory \<open>Storage_Properties\<close>.
\<close>

definition demo_imap :: "(string \<rightharpoonup> bytes) MessageStore imap_env" where
  "demo_imap =
     \<lparr>im_cfg = Load (\<lambda>_. []),
      im_tlsCfg = Some \<lparr>Certificates = [''certificate''], MinVersion = VersionTLS12, CipherSuites = []\<rparr>,
      im_mailboxReader = store_mailboxes demo_backend, im_messageReader = store_messages demo_backend,
      im_domainResolver = store_domains demo_backend, im_userAuth = store_users demo_backend,
      im_Event = table_event, im_Handshake = (\<lambda>tc c. (0, Some [])),
      im_bcrypt = (\<lambda>hash password. if password = ''password'' then None else Some (ErrExternal ''mismatch'')),
      im_unicode = ascii_tables\<rparr>"

lemma demo_imap_contract [simp]: "looplab_contract (im_Event demo_imap)"
  by (simp add: demo_imap_def table_event_contract)

definition demo_client :: "(string \<rightharpoonup> bytes) MessageStore imap_session" where
  "demo_client = imap_newSession [] False demo_store"

lemma demo_client_fields [simp]:
  "imap_state demo_client = StateNotAuthenticated" "imap_wf demo_client" "im_store demo_client = demo_store"
  "im_selected demo_client = None" "im_isTLS demo_client = False" "im_sent demo_client = []"
  by (simp_all add: demo_client_def imap_newSession_def imap_state_def imap_wf_def)

subsection \<open>Sessions\<close>

text \<open>
  The session that the server's read loop leaves is one of those that \<open>imap_reach\<close> describes, so that what is
  proved of them holds of the server.
\<close>

lemma imap_Handle_reachable:
  "\<exists>ls. imap_reach E R ls (imap_Handle E (imap_newSession c t w))"
  unfolding imap_Handle_def by (rule imap_loop_reach [OF imap_reach.greeted])

lemma imap_handle_lines:
  assumes "im_tlsCfg E = None \<or> overTLS"
  shows "at_input [] [] (imap_Handle E (imap_newSession (map Chunk cs) overTLS w)) =
    run_lines E (lines_of (concat cs))
      (writeUntagged ''OK'' (SMTP_Domain (cfg_SMTP (im_cfg E)) @ '' IMAP4rev1 gomail-core ready'') (imap_newSession [] overTLS w))"
proof -
  let ?hi = "SMTP_Domain (cfg_SMTP (im_cfg E)) @ '' IMAP4rev1 gomail-core ready''"
  let ?s = "writeUntagged ''OK'' ?hi (imap_newSession [] overTLS w)"
  have s: "no_upgrade E ?s" "im_reader ?s = []" "im_conn ?s = []"
    using assms by (simp_all add: no_upgrade_def imap_newSession_def)
  have "writeUntagged ''OK'' ?hi (imap_newSession (map Chunk cs) overTLS w) = at_input [] (map Chunk cs) ?s"
    by (simp add: at_input_write [symmetric]) (simp add: at_input_def imap_newSession_def)
  then show ?thesis
    using imap_loop_lines [OF s(1), of "[]" cs] run_lines_input [OF s(1)] s(2,3)
    by (simp add: imap_Handle_def at_input_same)
qed

text \<open>
  C13: however the network cuts what the client sends, the server does the same. Where no upgrade to
  TLS can happen, the session is the run of the commands over the lines of the bytes that came: the
  same replies, the same state, the same storage. Only complete lines count.
\<close>

theorem imap_session_of_lines:
  assumes "im_tlsCfg E = None \<or> overTLS"
  shows "at_input [] [] (imap_Handle E (imap_newSession (map Chunk cs) overTLS w)) =
    run_lines E (lines_of (concat cs))
      (writeUntagged ''OK'' (SMTP_Domain (cfg_SMTP (im_cfg E)) @ '' IMAP4rev1 gomail-core ready'') (imap_newSession [] overTLS w))"
  by (rule imap_handle_lines [OF assms])

theorem imap_session_of_lines_witness:
  "at_input [] [] (imap_Handle demo_imap (imap_newSession (map Chunk [''a1 NO'', ''OP'' @ CRLF]) True demo_store)) =
   at_input [] [] (imap_Handle demo_imap (imap_newSession (map Chunk [''a1 NOOP'' @ CRLF]) True demo_store))"
  using imap_session_of_lines [of demo_imap True "[''a1 NO'', ''OP'' @ CRLF]" demo_store]
    imap_session_of_lines [of demo_imap True "[''a1 NOOP'' @ CRLF]" demo_store] by simp

text \<open>
  C24: LOGOUT ends a session. Where no upgrade to TLS can happen, and however the network cuts the input, a
  LOGOUT line brings the session to its end with a goodbye and the tagged answer, unless the lines before
  it have ended the session already; nothing that comes after the line is read, answered or done.
\<close>

theorem imap_logout_ends:
  assumes "looplab_contract (im_Event E)" "im_tlsCfg E = None \<or> overTLS"
    and "concat cs = before @ tag @ '' LOGOUT'' @ CRLF @ after" "before = [] \<or> last before = LF"
    and "SPC \<notin> set tag" "LF \<notin> set tag"
  shows "let s = imap_Handle E (imap_newSession (map Chunk cs) overTLS w); s0 = imap_Handle E (imap_newSession [Chunk before] overTLS w)
    in imap_state s = StateLogout \<and> im_store s = im_store s0
       \<and> im_sent s = im_sent s0 @ (if imap_state s0 = StateLogout then []
           else [''* BYE gomail-core logging out'' @ CRLF, tag @ '' OK LOGOUT completed'' @ CRLF])"
proof -
  define s where "s = imap_Handle E (imap_newSession (map Chunk cs) overTLS w)"
  define s0 where "s0 = imap_Handle E (imap_newSession [Chunk before] overTLS w)"
  let ?hi = "SMTP_Domain (cfg_SMTP (im_cfg E)) @ '' IMAP4rev1 gomail-core ready''"
  let ?g = "writeUntagged ''OK'' ?hi (imap_newSession [] overTLS w)"
  let ?t = "run_lines E (lines_of before) ?g"
  have "imap_inv (imap_newSession [] overTLS w)" by (rule imap_inv_newSession)
  then have inv: "imap_inv ?g" "imap_state ?g \<noteq> StateLogout"
    by (simp_all add: imap_inv_def imap_wf_def imap_newSession_def imap_state_def)
  have s0: "at_input [] [] s0 = ?t"
    using imap_handle_lines [OF assms(2), of "[before]" w] by (simp add: s0_def)
  have "lines_of (concat cs) = lines_of before @ (tag @ '' LOGOUT'' @ CRLF) # lines_of after"
    using lines_of_append [OF assms(4), of "tag @ '' LOGOUT'' @ CRLF @ after"]
      lines_of_Cons [of "tag @ '' LOGOUT'' @ [CR]" after] assms(3,6) by (simp add: CRLF_def)
  then have s: "at_input [] [] s = (if imap_state ?t = StateLogout then ?t else run_lines E ((tag @ '' LOGOUT'' @ CRLF) # lines_of after) ?t)"
    using imap_handle_lines [OF assms(2), of cs w] run_lines_append [OF inv(2)] by (simp add: s_def)
  have "imap_state s = StateLogout \<and> im_store s = im_store s0
    \<and> im_sent s = im_sent s0 @ (if imap_state s0 = StateLogout then []
        else [''* BYE gomail-core logging out'' @ CRLF, tag @ '' OK LOGOUT completed'' @ CRLF])" (is ?goal)
  proof (cases "imap_state ?t = StateLogout")
    case True
    then have "at_input [] [] s = ?t" using s by simp
    then show ?goal using True at_input_eqD [OF s0] at_input_eqD [of "[]" "[]" s ?t] by simp
  next
    case False
    have "TrimRight ((tag @ '' LOGOUT'') @ CRLF) CRLF = tag @ '' LOGOUT''"
      by (subst TrimRight_append_cut) (simp_all add: TrimRight_def TrimLeft_def CRLF_def)
    moreover obtain u where u: "imap_line E (tag @ '' LOGOUT'') ?t = (u, True)" "imap_state u = StateLogout" "im_store u = im_store ?t"
      "im_sent u = im_sent ?t @ [''* BYE gomail-core logging out'' @ CRLF, tag @ '' OK LOGOUT completed'' @ CRLF]"
      using imap_line_logout [OF assms(1) run_lines_inv [OF assms(1) inv(1)] False assms(5)] by blast
    ultimately have "at_input [] [] s = u" using s False by simp
    then show ?goal using u False at_input_eqD [OF s0] at_input_eqD [of "[]" "[]" s u] by simp
  qed
  then show ?thesis by (simp add: Let_def s_def s0_def)
qed

theorem imap_logout_ends_witness:
  "let s = imap_Handle demo_imap (imap_newSession (map Chunk [''a1 NOOP'' @ CRLF @ ''a2 LOG'', ''OUT'' @ CRLF @ ''a3 NOOP'' @ CRLF]) True demo_store)
   in imap_state s = StateLogout \<and> last (im_sent s) = ''a2 OK LOGOUT completed'' @ CRLF"
proof -
  let ?cs = "[''a1 NOOP'' @ CRLF @ ''a2 LOG'', ''OUT'' @ CRLF @ ''a3 NOOP'' @ CRLF]"
  let ?s0 = "imap_Handle demo_imap (imap_newSession [Chunk (''a1 NOOP'' @ CRLF)] True demo_store)"
  have c: "concat ?cs = (''a1 NOOP'' @ CRLF) @ ''a2'' @ '' LOGOUT'' @ CRLF @ (''a3 NOOP'' @ CRLF)"
    "''a1 NOOP'' @ CRLF = [] \<or> last (''a1 NOOP'' @ CRLF) = LF" "SPC \<notin> set ''a2''" "LF \<notin> set ''a2''"
    by (simp_all add: CRLF_def)
  have lines: "lines_of (concat [''a1 NOOP'' @ CRLF]) = [''a1 NOOP'' @ CRLF]" by code_simp
  have cmd: "TrimRight (''a1 NOOP'' @ CRLF) CRLF = ''a1 NOOP''" "Cut SPC ''a1 NOOP'' = (''a1'', ''NOOP'', True)"
    "Cut SPC ''NOOP'' = (''NOOP'', [], False)" "ToUpper ''NOOP'' = ''NOOP''"
    by code_simp+
  have "imap_state (at_input [] [] ?s0) \<noteq> StateLogout"
    using imap_handle_lines [of demo_imap True "[''a1 NOOP'' @ CRLF]" demo_store] lines cmd
    by (simp add: imap_line_def imap_dispatch_def imap_newSession_def imap_state_def)
  then show ?thesis
    using imap_logout_ends [OF demo_imap_contract _ c, of True demo_store] by (simp add: Let_def)
qed

text \<open>
  C9: a login succeeds exactly when the domain and the user are found and bcrypt accepts the
  password, and then the session carries the id of that user.
\<close>

theorem imap_login_exact:
  assumes "looplab_contract (im_Event E)" "imap_wf s" "imap_state s = StateNotAuthenticated"
    and "SplitN2 SPC args = [p0, p1]"
  shows "(imap_state (handleLogin E tag args s) = StateAuthenticated
      \<longleftrightarrow> (\<exists>u. login_ok E (im_store s) (Trim p0 [QUOT]) (Trim p1 [QUOT]) u))
    \<and> (\<forall>u. login_ok E (im_store s) (Trim p0 [QUOT]) (Trim p1 [QUOT]) u \<longrightarrow>
         im_userID (handleLogin E tag args s) = u \<and> im_username (handleLogin E tag args s) = Trim p0 [QUOT])"
proof -
  have yes: "imap_state (handleLogin E tag args s) = StateAuthenticated \<and> im_userID (handleLogin E tag args s) = u
      \<and> im_username (handleLogin E tag args s) = Trim p0 [QUOT]"
    if "login_ok E (im_store s) (Trim p0 [QUOT]) (Trim p1 [QUOT]) u" for u
    using that handleLogin_accepts [OF assms(1-4)] unfolding login_ok_def
    by (fastforce simp: core_def imap_state_def)
  have "\<exists>u. login_ok E (im_store s) (Trim p0 [QUOT]) (Trim p1 [QUOT]) u"
    if st: "imap_state (handleLogin E tag args s) = StateAuthenticated"
  proof (rule handleLogin_cases [OF assms(1-3), of tag args])
    assume "core (handleLogin E tag args s) = core s"
    then show ?thesis using st assms(3) by (simp add: core_def imap_state_def)
  next
    fix q0 q1 u
    assume "SplitN2 SPC args = [q0, q1]" "login_ok E (im_store s) (Trim q0 [QUOT]) (Trim q1 [QUOT]) u"
    then show ?thesis using assms(4) by auto
  qed
  then show ?thesis using yes by blast
qed

lemma demo_login_ok: "login_ok demo_imap demo_store ''test@gomail.local'' ''password'' 1"
proof -
  have "imap_parseAddress ''test@gomail.local'' = Some (''test'', ''gomail.local'')" by code_simp
  then show ?thesis
    by (simp add: login_ok_def demo_imap_def store_domains_def store_users_def storage_FindDomain_def
        storage_FindUser_def map_result_def to_Domain_def to_User_def imap_checkPassword_def run_sql Let_def
        demo_backend_def demo_store_def demo_db_def)
qed

theorem imap_login_exact_witness:
  "imap_state (handleLogin demo_imap ''a1'' ''test@gomail.local password'' demo_client) = StateAuthenticated
    \<and> im_userID (handleLogin demo_imap ''a1'' ''test@gomail.local password'' demo_client) = 1"
proof -
  have "Trim ''test@gomail.local'' [QUOT] = ''test@gomail.local''" "Trim ''password'' [QUOT] = ''password''"
    by (rule Trim_id, simp)+
  then show ?thesis
    using imap_login_exact [of demo_imap demo_client "''test@gomail.local password''" "''test@gomail.local''" "''password''" "''a1''"]
      SplitN2_found [of SPC "''test@gomail.local''" "''password''"] demo_login_ok by auto
qed

subsection \<open>Replies\<close>

text \<open>
  C26: a command is answered by untagged lines and then one line with the tag of the command and OK,
  NO or BAD, in every state but after the logout, when the loop has ended.
\<close>

theorem imap_command_replied:
  assumes "imap_state s \<noteq> StateLogout"
  shows "replied tag s (imap_dispatch E tag cmd args s)"
  by (rule imap_dispatch_replied [OF assms])

theorem imap_command_replied_witness:
  "replied ''a1'' demo_client (imap_dispatch demo_imap ''a1'' ''NOOP'' [] demo_client)"
  by (rule imap_command_replied) simp

text \<open>
  C31: no name breaks a reply into two: every line that a command other than FETCH adds has its
  line feed at its end only, whatever the names of the mailboxes and the arguments are.
\<close>

theorem imap_reply_lines:
  assumes "LF \<notin> set tag" "cmd \<noteq> ''FETCH''"
  shows "\<exists>mid. im_sent (imap_dispatch E tag cmd args s) = im_sent s @ mid \<and> list_all one_line mid"
  using imap_dispatch_lines [OF assms] by (simp add: adds_lines_def)

theorem imap_reply_lines_witness:
  "\<exists>mid. im_sent (imap_dispatch demo_imap ''a1'' ''LIST'' [] demo_client) = im_sent demo_client @ mid \<and> list_all one_line mid"
  by (rule imap_reply_lines) simp_all

text \<open>
  C32: the literal by which FETCH sends a body announces as many bytes as follow it, when the body
  does not end in a space. When it ends in one space the announced length is one too many, because
  the spaces at the end of the reply are cut together with the separator.
\<close>

theorem imap_fetch_literal:
  assumes "Contains items ''BODY[]'' \<or> Contains items ''RFC822''" "b \<noteq> []" "last b \<noteq> SPC"
  shows "(fst (fetch_body E msg w) = b \<longrightarrow>
      fst (fetch_line E items n msg w) =
        fetch_head items n msg @ ''BODY[] {'' @ fmt_nat (length b) @ ''}'' @ CRLF @ b @ '')'')
    \<and> (fst (fetch_body E msg w) = b @ '' '' \<longrightarrow>
      fst (fetch_line E items n msg w) =
        fetch_head items n msg @ ''BODY[] {'' @ fmt_nat (length b + 1) @ ''}'' @ CRLF @ b @ '')'')"
proof -
  have "fst (fetch_line E items n msg w) =
        fetch_head items n msg @ ''BODY[] {'' @ fmt_nat (length b + 1) @ ''}'' @ CRLF @ b @ '')''"
    if "fst (fetch_body E msg w) = b @ '' ''"
  proof -
    let ?x = "fetch_head items n msg @ ''BODY[] {'' @ fmt_nat (length b + 1) @ ''}'' @ CRLF @ b"
    have "last ?x \<noteq> SPC" using assms(2,3) by simp
    then have "TrimRight (?x @ ''  '') '' '' = ?x"
      by (subst TrimRight_append_cut) (simp_all add: TrimRight_id del: append_assoc)
    then show ?thesis
      using assms(1) that by (auto simp: fetch_line_def fetch_literal_def Let_def split: prod.split)
  qed
  then show ?thesis using fetch_line_body [OF assms(1), of E msg w b n] assms(3) by blast
qed

definition demo_message :: Message where
  "demo_message = \<lparr>Message_ID = 1, Message_MailboxID = 1, Message_UID = 1, Message_Flags = [], Message_SizeBytes = 2,
     Message_RawKey = [], Message_EnvelopeFrom = [], Message_EnvelopeTo = [], Message_Subject = []\<rparr>"

lemma demo_no_body: "fst (fetch_body demo_imap demo_message demo_store) = no_body"
  by (simp add: fetch_body_def demo_imap_def store_messages_def storage_GetMessageBody_def on_redis_def
      redis_GetMessageBody_def demo_backend_def map_redis_def demo_store_def)

theorem imap_fetch_literal_witness:
  "fst (fetch_line demo_imap ''BODY[]'' 1 demo_message demo_store) =
     fetch_head ''BODY[]'' 1 demo_message @ ''BODY[] {'' @ fmt_nat (length no_body) @ ''}'' @ CRLF @ no_body @ '')''"
proof -
  have "Contains ''BODY[]'' ''BODY[]''" "no_body \<noteq> []" "last no_body \<noteq> SPC" by code_simp+
  then show ?thesis using imap_fetch_literal [of "''BODY[]''" no_body demo_imap demo_message demo_store 1] demo_no_body by blast
qed

text \<open>
  FETCH does not look at the message set it is given: whatever the client asks for, all messages
  of the mailbox are sent.
\<close>

lemma imap_fetch_ignores_set:
  assumes "SPC \<notin> set a" "SPC \<notin> set b"
  shows "handleFetch E tag (a @ SPC # items) s = handleFetch E tag (b @ SPC # items) s"
  using assms by (simp add: handleFetch_def SplitN2_found split: option.split)

lemma imap_fetch_ignores_set_witness:
  "handleFetch demo_imap ''a1'' (''1'' @ SPC # ''BODY[]'') demo_client = handleFetch demo_imap ''a1'' (''7:9'' @ SPC # ''BODY[]'') demo_client"
  by (rule imap_fetch_ignores_set) simp_all

text \<open>
  The capabilities name STARTTLS in every session: twice when TLS can be started, and also when
  it is not available or already in use, where the command is refused.
\<close>

lemma imap_capability_starttls:
  "im_sent (handleCapability E tag s) = im_sent s @
     [(if im_tlsCfg E \<noteq> None \<and> \<not> im_isTLS s
       then ''* CAPABILITY IMAP4rev1 LITERAL+ SASL-IR LOGIN IDLE STARTTLS STARTTLS''
       else ''* CAPABILITY IMAP4rev1 LITERAL+ SASL-IR LOGIN IDLE STARTTLS'') @ CRLF,
      tag @ '' OK CAPABILITY completed'' @ CRLF]
   \<and> (im_tlsCfg E = None \<or> im_isTLS s \<longrightarrow>
        (\<exists>why. im_sent (imap_handleSTARTTLS E tag s) = im_sent s @ [tag @ '' NO '' @ why @ CRLF]))"
  by (auto simp: handleCapability_def Capability_def imap_handleSTARTTLS_def split: option.splits)

lemma imap_capability_starttls_witness:
  "last (im_sent (handleCapability demo_imap ''a1'' demo_client)) = ''a1'' @ '' OK CAPABILITY completed'' @ CRLF"
  using imap_capability_starttls [of demo_imap "''a1''" demo_client] by simp

text \<open>
  C19: no command injection across STARTTLS: after a successful handshake nothing that the client
  sent in the clear is read, the state machine is where it was, and the rest of the session does not
  depend on the bytes that were buffered.
\<close>

theorem imap_starttls_no_injection:
  assumes "\<not> im_isTLS s" "im_tlsCfg E = Some tc" "im_Handshake E tc (im_conn s) = (n, Some tlsConn)"
  shows "imap_loop E (imap_handleSTARTTLS E tag (s\<lparr>im_reader := b\<rparr>)) = imap_loop E (imap_handleSTARTTLS E tag s)
    \<and> im_reader (imap_handleSTARTTLS E tag s) = [] \<and> im_conn (imap_handleSTARTTLS E tag s) = tlsConn
    \<and> core (imap_handleSTARTTLS E tag s) = core s"
proof -
  have "imap_handleSTARTTLS E tag (s\<lparr>im_reader := b\<rparr>) = imap_handleSTARTTLS E tag s"
    using assms by (simp add: imap_handleSTARTTLS_def writeTagged_def writeLine_def Let_def)
  moreover have "im_reader (imap_handleSTARTTLS E tag s) = []" "im_conn (imap_handleSTARTTLS E tag s) = tlsConn"
    using assms by (simp_all add: imap_handleSTARTTLS_def Let_def)
  ultimately show ?thesis by simp
qed

theorem imap_starttls_no_injection_witness:
  "imap_loop demo_imap (imap_handleSTARTTLS demo_imap ''a1'' (demo_client\<lparr>im_reader := ''a2 LOGIN x y'' @ CRLF\<rparr>))
      = imap_loop demo_imap (imap_handleSTARTTLS demo_imap ''a1'' demo_client)
    \<and> im_reader (imap_handleSTARTTLS demo_imap ''a1'' demo_client) = [] \<and> im_conn (imap_handleSTARTTLS demo_imap ''a1'' demo_client) = []
    \<and> core (imap_handleSTARTTLS demo_imap ''a1'' demo_client) = core demo_client"
  by (rule imap_starttls_no_injection
        [where tc = "\<lparr>Certificates = [''certificate''], MinVersion = VersionTLS12, CipherSuites = []\<rparr>" and n = 0])
    (simp_all add: demo_imap_def)

subsection \<open>A session with a selected mailbox\<close>

lemmas run_imap = store_domains_def store_users_def store_mailboxes_def store_messages_def storage_FindDomain_def
  storage_FindUser_def storage_FindMailbox_def storage_ListMessages_def mysql_ListMessages_def map_result_def
  to_Domain_def to_User_def to_Mailbox_def imap_checkPassword_def run_sql Let_def demo_backend_def demo_store_def demo_db_def

lemma demo_lines:
  assumes "looplab_contract (im_Event E)"
    and "FindDomain (im_domainResolver E) ''gomail.local'' w = (Inr d, w1)"
    and "FindUser (im_userAuth E) ''test'' (Domain_ID d) w1 = (Inr user, w2)"
    and "imap_checkPassword E ''password'' (User_PasswordHash user)"
    and "FindMailbox (im_mailboxReader E) (User_ID user) ''INBOX'' w2 = (Inr mb, w3)"
    and "ListMessages (im_messageReader E) (Mailbox_ID mb) w3 = (Inr xs, w4)"
  shows "\<exists>s sel. imap_reach E R [''a1 LOGIN test@gomail.local password'', ''a2 SELECT INBOX''] s
    \<and> imap_state s = StateSelected \<and> im_userID s = User_ID user \<and> im_store s = w4
    \<and> im_selected s = Some sel \<and> sel_ID sel = Mailbox_ID mb"
proof -
  let ?s = "writeUntagged ''OK'' (SMTP_Domain (cfg_SMTP (im_cfg E)) @ '' IMAP4rev1 gomail-core ready'') (imap_newSession [] False w)"
  let ?l1 = "''a1 LOGIN test@gomail.local password''" and ?l2 = "''a2 SELECT INBOX''"
  have s: "imap_wf ?s" "imap_state ?s = StateNotAuthenticated" "im_store ?s = w"
    by (simp_all add: imap_newSession_def imap_wf_def imap_state_def)
  have c: "imap_parseAddress ''test@gomail.local'' = Some (''test'', ''gomail.local'')" "TrimSpace ''INBOX'' = ''INBOX''"
    by code_simp+
  have t: "Trim ''test@gomail.local'' [QUOT] = ''test@gomail.local''" "Trim ''password'' [QUOT] = ''password''" "Trim ''INBOX'' [QUOT] = ''INBOX''"
    by (rule Trim_id, simp)+
  obtain s1 q1 where l1: "imap_line E ?l1 ?s = (s1, q1)" by fastforce
  obtain s2 q2 where l2: "imap_line E ?l2 s1 = (s2, q2)" by fastforce
  have "imap_reach E R ([?l1] @ [?l2]) s2"
    using imap_reach.handled [OF imap_reach.greeted l1] by (intro imap_reach.handled [OF _ l2]) simp
  then show ?thesis
    using imap_login_select [OF assms(1) s(1,2), of "''a1''" "''a2''" "''test@gomail.local''" "''test''" "''gomail.local''"
        d w1 user w2 "''password''" "''INBOX''" "''INBOX''" mb w3 xs w4 s1 q1 s2 q2] assms(2-) s(3) c t l1 l2
    by auto
qed

end
