(* ===== verification/Json.thy ===== *)
theory Json
  imports GoLib
begin

text \<open>
  The text of JSON, as the package \<^verbatim>\<open>encoding/json\<close> writes and reads it for the JMAP server.

  A tree keeps the literal of a number, and the keys of an object in their order. \<open>json_text\<close> is what
  \<^verbatim>\<open>json.Encoder\<close> writes: no white space, and in strings the escapes of the encoder, which also hides
  the characters of HTML and the two line separators of Unicode; a byte that is no UTF-8 becomes the
  replacement character. \<open>read_json\<close> is \<^verbatim>\<open>json.Decoder.Decode\<close> into a tree: the first value of the text,
  whatever follows it, or \<^const>\<open>None\<close> for a syntax error, an end within the value, or more than ten
  thousand nested arrays and objects.

  The readers carry fuel; the equations \<open>read_value_eq\<close>, \<open>read_elems_eq\<close> and \<open>read_members_eq\<close> show that the
  fuel given is always enough, for they hold without it. The round trips are in theory \<open>Json_Round_Trip\<close>.
\<close>

datatype json = JNull | JBool bool | JNum string | JStr string | JArr "json list" | JObj "(string \<times> json) list"

definition json_int :: "int \<Rightarrow> json" where
  "json_int i = JNum (fmt_d i)"

subsection \<open>Writing\<close>

definition json_escape :: "nat \<times> string \<Rightarrow> string" where
  "json_escape = (\<lambda>(r, bs).
     if r = RuneError \<and> length bs = 1 then BSL # ''ufffd''
     else if r = 34 then [BSL, QUOT]
     else if r = 92 then [BSL, BSL]
     else if r = 8 then BSL # ''b''
     else if r = 12 then BSL # ''f''
     else if r = 10 then BSL # ''n''
     else if r = 13 then BSL # ''r''
     else if r = 9 then BSL # ''t''
     else if r < 32 \<or> r = 60 \<or> r = 62 \<or> r = 38 \<or> r = 0x2028 \<or> r = 0x2029 then BSL # CHR ''u'' # hex 4 r
     else bs)"

definition json_quote :: "string \<Rightarrow> string" where
  "json_quote s = QUOT # concat (map json_escape (runes s)) @ [QUOT]"

fun json_text :: "json \<Rightarrow> string" where
  "json_text JNull = ''null''"
| "json_text (JBool b) = (if b then ''true'' else ''false'')"
| "json_text (JNum l) = l"
| "json_text (JStr s) = json_quote s"
| "json_text (JArr vs) = ''['' @ Join (map json_text vs) '','' @ '']''"
| "json_text (JObj kvs) = ''{'' @ Join (map (\<lambda>(k, v). json_quote k @ '':'' @ json_text v) kvs) '','' @ ''}''"

subsection \<open>Reading\<close>

definition json_space :: "char \<Rightarrow> bool" where
  "json_space c \<longleftrightarrow> c = SPC \<or> c = CHR 0x09 \<or> c = CR \<or> c = LF"

definition skip_space :: "string \<Rightarrow> string" where
  "skip_space = dropWhile json_space"

text \<open>\<^verbatim>\<open>utf8.EncodeRune\<close>; a surrogate or a number beyond Unicode is written as the replacement character.\<close>

definition EncodeRune :: "nat \<Rightarrow> string" where
  "EncodeRune r =
     (if r < 0x80 then [char_of r]
      else if r < 0x800 then map char_of [0xC0 + r div 64, 0x80 + r mod 64]
      else if 0x10FFFF < r \<or> 0xD800 \<le> r \<and> r < 0xE000 then map char_of [0xEF, 0xBF, 0xBD :: nat]
      else if r < 0x10000 then map char_of [0xE0 + r div 4096, 0x80 + r div 64 mod 64, 0x80 + r mod 64]
      else map char_of [0xF0 + r div 262144, 0x80 + r div 4096 mod 64, 0x80 + r div 64 mod 64, 0x80 + r mod 64])"

definition hex_digit :: "char \<Rightarrow> nat option" where
  "hex_digit c =
     (let n = of_char c :: nat
      in if 48 \<le> n \<and> n \<le> 57 then Some (n - 48)
         else if 97 \<le> n \<and> n \<le> 102 then Some (n - 87)
         else if 65 \<le> n \<and> n \<le> 70 then Some (n - 55)
         else None)"

text \<open>Four hexadecimal digits.\<close>

fun getu4 :: "string \<Rightarrow> (nat \<times> string) option" where
  "getu4 (a # b # c # d # s) =
     (case (hex_digit a, hex_digit b, hex_digit c, hex_digit d) of
        (Some w, Some x, Some y, Some z) \<Rightarrow> Some (((w * 16 + x) * 16 + y) * 16 + z, s)
      | _ \<Rightarrow> None)"
| "getu4 _ = None"

text \<open>The second half of a pair of surrogates, when it follows.\<close>

definition low_half :: "string \<Rightarrow> (nat \<times> string) option" where
  "low_half s =
     (case s of
        b # u # s' \<Rightarrow>
          if b = BSL \<and> u = CHR ''u''
          then (case getu4 s' of
                  Some (r, s'') \<Rightarrow> if 0xDC00 \<le> r \<and> r < 0xE000 then Some (r, s'') else None
                | None \<Rightarrow> None)
          else None
      | _ \<Rightarrow> None)"

text \<open>The rune of an escape, after the backslash, and the rest.\<close>

definition read_escape :: "string \<Rightarrow> (nat \<times> string) option" where
  "read_escape s =
     (case s of
        [] \<Rightarrow> None
      | e # s' \<Rightarrow>
          if e = QUOT \<or> e = BSL \<or> e = CHR ''/'' then Some (of_char e, s')
          else if e = CHR ''b'' then Some (8, s')
          else if e = CHR ''f'' then Some (12, s')
          else if e = CHR ''n'' then Some (10, s')
          else if e = CHR ''r'' then Some (13, s')
          else if e = CHR ''t'' then Some (9, s')
          else if e = CHR ''u'' then
            (case getu4 s' of
               None \<Rightarrow> None
             | Some (r, s'') \<Rightarrow>
                 if 0xD800 \<le> r \<and> r < 0xDC00 then
                   (case low_half s'' of
                      Some (r', s''') \<Rightarrow> Some (0x10000 + (r - 0xD800) * 1024 + (r' - 0xDC00), s''')
                    | None \<Rightarrow> Some (RuneError, s''))
                 else if 0xDC00 \<le> r \<and> r < 0xE000 then Some (RuneError, s'')
                 else Some (r, s''))
          else None)"

lemma getu4_shorter: "getu4 s = Some (r, s') \<Longrightarrow> length s' < length s"
  by (induction s rule: getu4.induct) (auto split: option.splits)

lemma low_half_shorter: "low_half s = Some (r, s') \<Longrightarrow> length s' < length s"
  by (auto simp: low_half_def dest!: getu4_shorter split: list.splits if_splits option.splits)

lemma read_escape_shorter: "read_escape s = Some (r, s') \<Longrightarrow> length s' < length s"
  by (auto simp: read_escape_def dest!: getu4_shorter low_half_shorter split: list.splits if_splits option.splits)

text \<open>The characters of a string up to its closing quote.\<close>

function read_chars :: "string \<Rightarrow> (string \<times> string) option" where
  "read_chars [] = None"
| "read_chars (c # s) =
     (if c = QUOT then Some ([], s)
      else if c = BSL then
        (case read_escape s of
           None \<Rightarrow> None
         | Some (r, s') \<Rightarrow> map_option (map_prod ((@) (EncodeRune r)) id) (read_chars s'))
      else if (of_char c :: nat) < 32 then None
      else (case DecodeRune c s of
              (r, w) \<Rightarrow> map_option (map_prod ((@) (EncodeRune r)) id) (read_chars (drop (w - 1) s))))"
  by pat_completeness auto
termination
  by (relation "measure length") (auto dest: read_escape_shorter)

declare read_chars.simps(2) [simp del]

text \<open>A number: sign, integer part without a leading zero, fraction, exponent.\<close>

definition is_digit :: "char \<Rightarrow> bool" where
  "is_digit c \<longleftrightarrow> 48 \<le> (of_char c :: nat) \<and> (of_char c :: nat) \<le> 57"

definition digits :: "string \<Rightarrow> string \<times> string" where
  "digits s = (takeWhile is_digit s, dropWhile is_digit s)"

definition read_sign :: "string \<Rightarrow> string \<times> string" where
  "read_sign s = (case s of c # s' \<Rightarrow> if c = CHR ''-'' then ([c], s') else ([], s) | [] \<Rightarrow> ([], s))"

definition read_whole :: "string \<Rightarrow> (string \<times> string) option" where
  "read_whole s =
     (case s of
        [] \<Rightarrow> None
      | c # s' \<Rightarrow> if c = CHR ''0'' then Some ([c], s') else if is_digit c then Some (digits s) else None)"

definition read_fraction :: "string \<Rightarrow> (string \<times> string) option" where
  "read_fraction s =
     (case s of
        c # s' \<Rightarrow>
          if c = CHR ''.''
          then (case digits s' of (ds, rest) \<Rightarrow> if ds = [] then None else Some (c # ds, rest))
          else Some ([], s)
      | [] \<Rightarrow> Some ([], s))"

definition exponent_sign :: "string \<Rightarrow> string \<times> string" where
  "exponent_sign s = (case s of c # s' \<Rightarrow> if c = CHR ''+'' \<or> c = CHR ''-'' then ([c], s') else ([], s) | [] \<Rightarrow> ([], s))"

definition read_exponent :: "string \<Rightarrow> (string \<times> string) option" where
  "read_exponent s =
     (case s of
        c # s' \<Rightarrow>
          if c = CHR ''e'' \<or> c = CHR ''E''
          then (case exponent_sign s' of (sg, t) \<Rightarrow>
                (case digits t of (ds, rest) \<Rightarrow> if ds = [] then None else Some (c # sg @ ds, rest)))
          else Some ([], s)
      | [] \<Rightarrow> Some ([], s))"

definition read_number :: "string \<Rightarrow> (string \<times> string) option" where
  "read_number s =
     (case read_sign s of (sg, s0) \<Rightarrow>
      (case read_whole s0 of None \<Rightarrow> None | Some (w, s1) \<Rightarrow>
       (case read_fraction s1 of None \<Rightarrow> None | Some (f, s2) \<Rightarrow>
        (case read_exponent s2 of None \<Rightarrow> None | Some (e, s3) \<Rightarrow> Some (sg @ w @ f @ e, s3)))))"

text \<open>
  \<^verbatim>\<open>strconv.ParseFloat\<close> refuses the literal of a number that rounds beyond the largest 64-bit float: one from
  half a unit in the last place above that float on.
\<close>

definition digits_value :: "string \<Rightarrow> int" where
  "digits_value ds = foldl (\<lambda>n c. 10 * n + int (of_char c - 48)) 0 ds"

definition float64_overflows :: "string \<Rightarrow> bool" where
  "float64_overflows l =
     (let (w, s1) = digits (snd (read_sign l));
          (f, s2) = (case s1 of c # t \<Rightarrow> if c = CHR ''.'' then digits t else ([], s1) | [] \<Rightarrow> ([], s1));
          e = (case s2 of
                 [] \<Rightarrow> 0
               | c # t \<Rightarrow> (case exponent_sign t of
                   (sg, ds) \<Rightarrow> if sg = ''-'' then - digits_value ds else digits_value ds));
          k = e - int (length f);
          m = digits_value (w @ f);
          limit = 2 ^ 1024 - 2 ^ 970
      in if 0 \<le> k then limit \<le> m * 10 ^ nat k else limit * 10 ^ nat (- k) \<le> m)"

text \<open>
  Values, the elements of an array after its bracket or a comma, and the members of an object
  likewise. The first argument is fuel, the second how many arrays and objects may still be opened.
\<close>

fun read_value :: "nat \<Rightarrow> nat \<Rightarrow> string \<Rightarrow> (json \<times> string) option"
  and read_elems :: "nat \<Rightarrow> nat \<Rightarrow> string \<Rightarrow> (json list \<times> string) option"
  and read_members :: "nat \<Rightarrow> nat \<Rightarrow> string \<Rightarrow> ((string \<times> json) list \<times> string) option" where
  "read_value 0 d s = None"
| "read_value (Suc n) d s =
     (case skip_space s of
        [] \<Rightarrow> None
      | c # t \<Rightarrow>
          if c = QUOT then map_option (map_prod JStr id) (read_chars t)
          else if c = CHR ''['' then
            (if d = 0 then None
             else case skip_space t of
                    [] \<Rightarrow> None
                  | x # u \<Rightarrow> if x = CHR '']'' then Some (JArr [], u)
                           else map_option (map_prod JArr id) (read_elems n (d - 1) t))
          else if c = CHR ''{'' then
            (if d = 0 then None
             else case skip_space t of
                    [] \<Rightarrow> None
                  | x # u \<Rightarrow> if x = CHR ''}'' then Some (JObj [], u)
                           else map_option (map_prod JObj id) (read_members n (d - 1) t))
          else if HasPrefix (c # t) ''null'' then Some (JNull, drop 3 t)
          else if HasPrefix (c # t) ''true'' then Some (JBool True, drop 3 t)
          else if HasPrefix (c # t) ''false'' then Some (JBool False, drop 4 t)
          else map_option (map_prod JNum id) (read_number (c # t)))"
| "read_elems 0 d s = None"
| "read_elems (Suc n) d s =
     (case read_value n d s of
        None \<Rightarrow> None
      | Some (v, t) \<Rightarrow>
          (case skip_space t of
             [] \<Rightarrow> None
           | x # u \<Rightarrow>
               if x = CHR '','' then map_option (map_prod ((#) v) id) (read_elems n d u)
               else if x = CHR '']'' then Some ([v], u)
               else None))"
| "read_members 0 d s = None"
| "read_members (Suc n) d s =
     (case skip_space s of
        [] \<Rightarrow> None
      | q # s0 \<Rightarrow>
          if q \<noteq> QUOT then None
          else
     (case read_chars s0 of
        None \<Rightarrow> None
      | Some (k, s1) \<Rightarrow>
     (case skip_space s1 of
        [] \<Rightarrow> None
      | x # s2 \<Rightarrow>
          if x \<noteq> CHR '':'' then None
          else
     (case read_value n d s2 of
        None \<Rightarrow> None
      | Some (v, s3) \<Rightarrow>
     (case skip_space s3 of
        [] \<Rightarrow> None
      | y # s4 \<Rightarrow>
          if y = CHR '','' then map_option (map_prod ((#) (k, v)) id) (read_members n d s4)
          else if y = CHR ''}'' then Some ([(k, v)], s4)
          else None)))))"

definition maxNestingDepth :: nat where
  "maxNestingDepth = 10000"

definition read_json :: "string \<Rightarrow> json option" where
  "read_json s = map_option fst (read_value (2 * length s + 1) maxNestingDepth s)"

subsection \<open>The fuel is enough\<close>

lemma skip_space_length: "length (skip_space s) \<le> length s"
  by (simp add: skip_space_def length_dropWhile_le)

lemma skip_space_Cons: "skip_space s = c # t \<Longrightarrow> length t < length s"
  using skip_space_length [of s] by simp

lemma read_chars_shorter: "read_chars s = Some (x, r) \<Longrightarrow> length r < length s"
proof (induction s arbitrary: x rule: read_chars.induct)
  case (2 c s)
  obtain q w where dec: "DecodeRune c s = (q, w)" by fastforce
  show ?case
    using "2.prems" "2.IH"(1) "2.IH"(2) [OF _ _ _ dec [symmetric]] dec read_escape_shorter [of s]
    by (fastforce simp: read_chars.simps(2) split: if_splits option.splits)
qed simp

lemma digits_length: "digits s = (a, r) \<Longrightarrow> length r \<le> length s"
  by (auto simp: digits_def length_dropWhile_le)

lemma digits_shorter: "digits s = (a, r) \<Longrightarrow> a \<noteq> [] \<Longrightarrow> length r < length s"
proof -
  assume a: "digits s = (a, r)" "a \<noteq> []"
  then have "s = a @ r" by (auto simp: digits_def)
  with a show ?thesis by simp
qed

lemma read_number_shorter:
  assumes "read_number s = Some (l, r)"
  shows "length r < length s"
proof -
  obtain sg s0 w s1 f s2 e where h: "read_sign s = (sg, s0)" "read_whole s0 = Some (w, s1)"
    "read_fraction s1 = Some (f, s2)" "read_exponent s2 = Some (e, r)"
    using assms by (auto simp: read_number_def split: prod.splits option.splits)
  have "length s0 \<le> length s" using h(1) by (auto simp: read_sign_def split: list.splits if_splits)
  moreover have "length s1 < length s0"
  proof (cases s0)
    case (Cons c t)
    then show ?thesis
      using h(2) by (auto simp: read_whole_def digits_def less_Suc_eq_le length_dropWhile_le split: if_splits)
  qed (use h(2) in \<open>simp add: read_whole_def\<close>)
  moreover have "length s2 \<le> length s1"
    using h(3) by (auto simp: read_fraction_def dest!: digits_length split: list.splits if_splits prod.splits)
  moreover have "length r \<le> length s2"
    using h(4) by (auto simp: read_exponent_def exponent_sign_def dest!: digits_length split: list.splits if_splits prod.splits)
  ultimately show ?thesis by simp
qed

lemma read_consumes:
  "read_value n d s = Some (v, r) \<Longrightarrow> length r < length s"
  "read_elems n d s = Some (vs, r) \<Longrightarrow> length r < length s"
  "read_members n d s = Some (kvs, r) \<Longrightarrow> length r < length s"
proof (induction n d s and n d s and n d s arbitrary: v r and vs r and kvs r
    rule: read_value_read_elems_read_members.induct)
  case (2 n d s)
  obtain c t where t: "skip_space s = c # t" using "2.prems" by (auto split: list.splits)
  have len: "length t < length s" using skip_space_Cons [OF t] .
  have "length r \<le> length t"
    using "2.prems" "2.IH" [OF t] t skip_space_Cons [of t] read_chars_shorter [of t] read_number_shorter [of "c # t"]
    by (fastforce split: if_splits list.splits)
  with len show ?case by simp
next
  case (4 n d s)
  then show ?case using skip_space_Cons by (fastforce split: option.splits list.splits if_splits)
next
  case (6 n d s)
  obtain s0 where s0: "skip_space s = QUOT # s0" using "6.prems" by (auto split: list.splits if_splits)
  obtain k s1 where s1: "read_chars s0 = Some (k, s1)" using "6.prems" s0 by (auto split: option.splits)
  obtain s2 where s2: "skip_space s1 = CHR '':'' # s2" using "6.prems" s0 s1 by (auto split: list.splits if_splits)
  obtain v s3 where s3: "read_value n d s2 = Some (v, s3)" using "6.prems" s0 s1 s2 by (auto split: option.splits)
  obtain y s4 where s4: "skip_space s3 = y # s4" using "6.prems" s0 s1 s2 s3 by (auto split: list.splits)
  have "length s4 < length s"
    using skip_space_Cons [OF s0] read_chars_shorter [OF s1] skip_space_Cons [OF s2] "6.IH"(1) [OF s0 _ s1 _ s2 _ s3]
      skip_space_Cons [OF s4] by simp
  moreover have "length r \<le> length s4"
    using "6.prems" s0 s1 s2 s3 s4 "6.IH"(2) [OF s0 _ s1 _ s2 _ s3 _ s4] by (auto split: if_splits simp: less_imp_le)
  ultimately show ?case by simp
qed simp_all

lemma read_fuel:
  "2 * length s + 1 \<le> n \<Longrightarrow> 2 * length s + 1 \<le> m \<Longrightarrow> read_value n d s = read_value m d s"
  "2 * length s + 2 \<le> n \<Longrightarrow> 2 * length s + 2 \<le> m \<Longrightarrow> read_elems n d s = read_elems m d s"
  "2 * length s + 2 \<le> n \<Longrightarrow> 2 * length s + 2 \<le> m \<Longrightarrow> read_members n d s = read_members m d s"
proof (induction n d s and n d s and n d s arbitrary: m and m and m rule: read_value_read_elems_read_members.induct)
  case (2 n d s)
  obtain m' where m: "m = Suc m'" using "2.prems"(2) by (cases m) auto
  show ?case
  proof (cases "skip_space s")
    case (Cons c t)
    have t: "2 * length t + 2 \<le> n" "2 * length t + 2 \<le> m'"
      using skip_space_Cons [OF Cons] "2.prems" m by simp_all
    show ?thesis
    proof (cases "skip_space t")
      case xu: (Cons x u)
      consider (arr) "c = CHR ''[''" "d \<noteq> 0" "x \<noteq> CHR '']''" | (obj) "c = CHR ''{''" "d \<noteq> 0" "x \<noteq> CHR ''}''"
        | (other) "\<not> (c = CHR ''['' \<and> d \<noteq> 0 \<and> x \<noteq> CHR '']'')" "\<not> (c = CHR ''{'' \<and> d \<noteq> 0 \<and> x \<noteq> CHR ''}'')" by blast
      then show ?thesis
      proof cases
        case arr
        then show ?thesis using "2.IH"(1) [OF Cons _ arr(1,2) xu arr(3) t] by (simp add: m Cons xu)
      next
        case obj
        then show ?thesis using "2.IH"(2) [OF Cons _ _ obj(1,2) xu obj(3) t] by (simp add: m Cons xu)
      next
        case other
        show ?thesis
          by (cases "c = CHR ''[''"; cases "c = CHR ''{''") (use other in \<open>simp_all add: m Cons xu del: HasPrefix_Cons\<close>, (elim disjE; simp)+)
      qed
    qed (simp add: m Cons)
  qed (simp add: m)
next
  case (4 n d s)
  obtain m' where m: "m = Suc m'" using "4.prems"(2) by (cases m) auto
  have v: "read_value n d s = read_value m' d s" using "4.IH"(1) [of m'] "4.prems" m by simp
  show ?case
  proof (cases "read_value n d s")
    case (Some vt)
    then obtain w t where vt: "read_value n d s = Some (w, t)" by (cases vt) auto
    show ?thesis
    proof (cases "skip_space t")
      case (Cons x u)
      have u: "2 * length u + 2 \<le> n" "2 * length u + 2 \<le> m'"
        using skip_space_Cons [OF Cons] read_consumes(1) [OF vt] "4.prems" m by simp_all
      show ?thesis using "4.IH"(2) [OF vt refl Cons _ u] vt v Cons m by simp
    qed (use vt v m in simp)
  qed (use v m in simp)
next
  case (6 n d s)
  obtain m' where m: "m = Suc m'" using "6.prems"(2) by (cases m) auto
  show ?case
  proof (cases "\<exists>s0 k s1 s2. skip_space s = QUOT # s0 \<and> read_chars s0 = Some (k, s1) \<and> skip_space s1 = CHR '':'' # s2")
    case False
    then show ?thesis using m by (auto split: list.split option.split)
  next
    case True
    then obtain s0 k s1 s2 where h: "skip_space s = QUOT # s0" "read_chars s0 = Some (k, s1)" "skip_space s1 = CHR '':'' # s2"
      by blast
    have len: "length s2 < length s"
      using skip_space_Cons [OF h(1)] read_chars_shorter [OF h(2)] skip_space_Cons [OF h(3)] by simp
    then have v: "read_value n d s2 = read_value m' d s2"
      using "6.IH"(1) [OF h(1) _ h(2) refl h(3), of m'] "6.prems" m by simp
    show ?thesis
    proof (cases "read_value n d s2")
      case (Some vt)
      then obtain w t where vt: "read_value n d s2 = Some (w, t)" by (cases vt) auto
      show ?thesis
      proof (cases "skip_space t")
        case (Cons x u)
        have u: "2 * length u + 2 \<le> n" "2 * length u + 2 \<le> m'"
          using skip_space_Cons [OF Cons] read_consumes(1) [OF vt] len "6.prems" m by simp_all
        show ?thesis using "6.IH"(2) [OF h(1) _ h(2) refl h(3) _ vt refl Cons _ u] vt v Cons m h by simp
      qed (use vt v m h in simp)
    qed (use v m h in simp)
  qed
qed simp_all

text \<open>The readers with their fuel.\<close>

definition value_of :: "nat \<Rightarrow> string \<Rightarrow> (json \<times> string) option" where
  "value_of d s = read_value (2 * length s + 1) d s"

definition elems_of :: "nat \<Rightarrow> string \<Rightarrow> (json list \<times> string) option" where
  "elems_of d s = read_elems (2 * length s + 2) d s"

definition members_of :: "nat \<Rightarrow> string \<Rightarrow> ((string \<times> json) list \<times> string) option" where
  "members_of d s = read_members (2 * length s + 2) d s"

lemma fueled:
  "2 * length s + 1 \<le> n \<Longrightarrow> read_value n d s = value_of d s"
  "2 * length s + 2 \<le> n \<Longrightarrow> read_elems n d s = elems_of d s"
  "2 * length s + 2 \<le> n \<Longrightarrow> read_members n d s = members_of d s"
  unfolding value_of_def elems_of_def members_of_def by (rule read_fuel; simp)+

lemma read_value_eq:
  "value_of d s =
     (case skip_space s of
        [] \<Rightarrow> None
      | c # t \<Rightarrow>
          if c = QUOT then map_option (map_prod JStr id) (read_chars t)
          else if c = CHR ''['' then
            (if d = 0 then None
             else case skip_space t of
                    [] \<Rightarrow> None
                  | x # u \<Rightarrow> if x = CHR '']'' then Some (JArr [], u)
                           else map_option (map_prod JArr id) (elems_of (d - 1) t))
          else if c = CHR ''{'' then
            (if d = 0 then None
             else case skip_space t of
                    [] \<Rightarrow> None
                  | x # u \<Rightarrow> if x = CHR ''}'' then Some (JObj [], u)
                           else map_option (map_prod JObj id) (members_of (d - 1) t))
          else if HasPrefix (c # t) ''null'' then Some (JNull, drop 3 t)
          else if HasPrefix (c # t) ''true'' then Some (JBool True, drop 3 t)
          else if HasPrefix (c # t) ''false'' then Some (JBool False, drop 4 t)
          else map_option (map_prod JNum id) (read_number (c # t)))"
proof -
  show ?thesis
  proof (cases "skip_space s")
    case (Cons c t)
    have "read_elems (2 * length s) e t = elems_of e t" "read_members (2 * length s) e t = members_of e t" for e
      using skip_space_Cons [OF Cons] by (simp_all add: fueled)
    then show ?thesis using Cons by (cases "skip_space t") (simp_all add: value_of_def)
  qed (simp add: value_of_def)
qed

lemma read_elems_eq:
  "elems_of d s =
     (case value_of d s of
        None \<Rightarrow> None
      | Some (v, t) \<Rightarrow>
          (case skip_space t of
             [] \<Rightarrow> None
           | x # u \<Rightarrow>
               if x = CHR '','' then map_option (map_prod ((#) v) id) (elems_of d u)
               else if x = CHR '']'' then Some ([v], u)
               else None))"
proof -
  have v: "read_value (Suc (2 * length s)) d s = value_of d s" by (rule fueled(1)) simp
  have "read_elems (Suc (2 * length s)) d u = elems_of d u" if "value_of d s = Some (w, t)" "skip_space t = x # u" for w t x u
    using skip_space_Cons [OF that(2)] read_consumes(1) [of "2 * length s + 1" d s w t] that(1)
    by (intro fueled) (simp add: value_of_def)
  then show ?thesis
    using v by (simp add: elems_of_def split: option.split list.split)
qed

lemma read_members_eq:
  "members_of d s =
     (case skip_space s of
        [] \<Rightarrow> None
      | q # s0 \<Rightarrow>
          if q \<noteq> QUOT then None
          else
     (case read_chars s0 of
        None \<Rightarrow> None
      | Some (k, s1) \<Rightarrow>
     (case skip_space s1 of
        [] \<Rightarrow> None
      | x # s2 \<Rightarrow>
          if x \<noteq> CHR '':'' then None
          else
     (case value_of d s2 of
        None \<Rightarrow> None
      | Some (v, s3) \<Rightarrow>
     (case skip_space s3 of
        [] \<Rightarrow> None
      | y # s4 \<Rightarrow>
          if y = CHR '','' then map_option (map_prod ((#) (k, v)) id) (members_of d s4)
          else if y = CHR ''}'' then Some ([(k, v)], s4)
          else None)))))"
proof -
  have v: "read_value (Suc (2 * length s)) d s2 = value_of d s2"
    if "skip_space s = q # s0" "read_chars s0 = Some (k, s1)" "skip_space s1 = x # s2" for q s0 k s1 x s2
    using skip_space_Cons [OF that(1)] read_chars_shorter [OF that(2)] skip_space_Cons [OF that(3)]
    by (intro fueled) simp
  have m: "read_members (Suc (2 * length s)) d s4 = members_of d s4"
    if "skip_space s = q # s0" "read_chars s0 = Some (k, s1)" "skip_space s1 = x # s2" "value_of d s2 = Some (w, s3)"
      "skip_space s3 = y # s4" for q s0 k s1 x s2 w s3 y s4
    using skip_space_Cons [OF that(1)] read_chars_shorter [OF that(2)] skip_space_Cons [OF that(3)]
      read_consumes(1) [OF that(4) [unfolded value_of_def]] skip_space_Cons [OF that(5)]
    by (intro fueled) simp
  show ?thesis
    using v m by (simp add: members_of_def split: option.split list.split)
qed

end
