(* ===== verification/Json_Round_Trip.thy ===== *)
theory Json_Round_Trip
  imports Json
begin

text \<open>
  Writing JSON and reading it. \<open>read_chars_quoted\<close> is the round trip of strings (what is read is
  \<open>valid_utf8\<close> of what was written: every byte that is no UTF-8 has become the replacement character),
  \<open>read_number_before\<close> and \<open>number_literal_fmt_d\<close> that of numbers. \<open>read_json_text\<close> is the round trip from a
  tree through its text, \<open>read_write_read\<close> the one from a text through its tree.
\<close>

subsection \<open>Strings\<close>

lemma hex_digit_digit: "n < 16 \<Longrightarrow> hex_digit (digit n) = Some n"
  by (auto simp: hex_digit_def digit_def less_Suc_eq numeral_eq_Suc)

lemma getu4_hex: "r < 0x10000 \<Longrightarrow> getu4 (hex 4 r @ t) = Some (r, t)"
proof -
  assume r: "r < 0x10000"
  have h: "hex 4 r = [digit (r div 16 div 16 div 16 mod 16), digit (r div 16 div 16 mod 16), digit (r div 16 mod 16), digit (r mod 16)]"
  proof -
    have "(4 :: nat) = Suc (Suc (Suc (Suc 0)))" by simp
    then show ?thesis by (simp only: hex.simps append_Nil append_Cons)
  qed
  have "r div 16 div 16 div 16 < 16" using r by (simp add: div_mult2_eq [symmetric] less_mult_imp_div_less)
  then have "r div 16 div 16 div 16 mod 16 = r div 16 div 16 div 16" by (rule mod_less)
  then have "(((r div 16 div 16 div 16 mod 16) * 16 + r div 16 div 16 mod 16) * 16 + r div 16 mod 16) * 16 + r mod 16 = r"
    by (simp only: div_mult_mod_eq)
  then show ?thesis unfolding h by (simp only: append_Cons append_Nil getu4.simps hex_digit_digit mod_less_divisor) simp
qed

lemma sixty_four: "c < 64 \<Longrightarrow> (x * 64 + c) div 64 = x" "c < 64 \<Longrightarrow> (x * 64 + c) mod 64 = (c :: nat)"
  by simp_all

text \<open>Encoding a rune gives back the bytes it was decoded from.\<close>

lemma EncodeRune_2:
  assumes "a < 32" "2 \<le> a" "b < 64"
  shows "EncodeRune (a * 64 + b) = map char_of [0xC0 + a, 0x80 + b :: nat]"
proof -
  have "(a * 64 + b) div 64 = a" "(a * 64 + b) mod 64 = b" using assms(3) by simp_all
  then show ?thesis using assms by (simp add: EncodeRune_def)
qed

lemma EncodeRune_3:
  assumes "a < 16" "b < 64" "c < 64" "a = 0 \<Longrightarrow> 32 \<le> b" "a = 13 \<Longrightarrow> b < 32"
  shows "EncodeRune ((a * 64 + b) * 64 + c) = map char_of [0xE0 + a, 0x80 + b, 0x80 + c :: nat]"
proof -
  let ?r = "(a * 64 + b) * 64 + c"
  have d: "?r div 64 = a * 64 + b" "?r mod 64 = c" using assms(3) by (rule sixty_four)+
  have "?r div 4096 = ?r div 64 div 64" by (simp add: div_mult2_eq [symmetric])
  then have e: "?r div 4096 = a" "?r div 64 mod 64 = b" using assms(2) by (simp_all only: d sixty_four)
  have "\<not> (0xD800 \<le> ?r \<and> ?r < 0xE000)" "0x800 \<le> ?r" "?r < 0x10000" using assms by (cases "a = 0"; cases "a = 13"; simp)+
  then show ?thesis using d(2) e by (simp add: EncodeRune_def)
qed

lemma EncodeRune_4:
  assumes "a < 5" "b < 64" "c < 64" "e < 64" "a = 0 \<Longrightarrow> 16 \<le> b" "a = 4 \<Longrightarrow> b < 16"
  shows "EncodeRune (((a * 64 + b) * 64 + c) * 64 + e) = map char_of [0xF0 + a, 0x80 + b, 0x80 + c, 0x80 + e :: nat]"
proof -
  let ?r = "((a * 64 + b) * 64 + c) * 64 + e"
  have d: "?r div 64 = (a * 64 + b) * 64 + c" "?r mod 64 = e" using assms(4) by (rule sixty_four)+
  have "?r div 4096 = ?r div 64 div 64" "?r div 262144 = ?r div 64 div 64 div 64" by (simp_all add: div_mult2_eq [symmetric])
  then have f: "?r div 262144 = a" "?r div 4096 mod 64 = b" "?r div 64 mod 64 = c"
    using assms(2,3) by (simp_all only: d sixty_four)
  have "0x10000 \<le> ?r" "?r \<le> 0x10FFFF" using assms by (cases "a = 0"; cases "a = 4"; simp)+
  then show ?thesis using d(2) f by (simp add: EncodeRune_def)
qed

lemma offset_mod: "k * m \<le> n \<Longrightarrow> n < k * m + m \<Longrightarrow> n mod m = n - k * (m :: nat)"
  by (metis add.commute le_add_diff_inverse mod_less mod_mult_self2 nat_add_left_cancel_less mult.commute)

lemma offset:
  fixes n :: nat
  shows "192 \<le> n \<Longrightarrow> n < 224 \<Longrightarrow> n mod 32 = n - 192"
    "224 \<le> n \<Longrightarrow> n < 240 \<Longrightarrow> n mod 16 = n - 224"
    "240 \<le> n \<Longrightarrow> n < 248 \<Longrightarrow> n mod 8 = n - 240"
    "128 \<le> n \<Longrightarrow> n < 192 \<Longrightarrow> n mod 64 = n - 128"
  using offset_mod [of 6 32 n] offset_mod [of 14 16 n] offset_mod [of 30 8 n] offset_mod [of 2 64 n] by simp_all

lemma utf8_form_cases:
  assumes "utf8_form c = Some rs"
  obtains (one) "rs = []" "of_char c < (0x80 :: nat)"
  | (two) "rs = [(0x80, 0xBF)]" "0xC2 \<le> (of_char c :: nat)" "of_char c < (0xE0 :: nat)"
  | (three) lo hi where "rs = [(lo, hi), (0x80, 0xBF)]" "0xE0 \<le> (of_char c :: nat)" "of_char c < (0xF0 :: nat)"
      "0x80 \<le> lo" "hi \<le> 0xBF" "of_char c = (0xE0 :: nat) \<Longrightarrow> 0xA0 \<le> lo" "of_char c = (0xED :: nat) \<Longrightarrow> hi \<le> 0x9F"
  | (four) lo hi where "rs = [(lo, hi), (0x80, 0xBF), (0x80, 0xBF)]" "0xF0 \<le> (of_char c :: nat)" "of_char c \<le> (0xF4 :: nat)"
      "0x80 \<le> lo" "hi \<le> 0xBF" "of_char c = (0xF0 :: nat) \<Longrightarrow> 0x90 \<le> lo" "of_char c = (0xF4 :: nat) \<Longrightarrow> hi \<le> 0x8F"
proof -
  define n where "n = (of_char c :: nat)"
  note form = assms [unfolded utf8_form_def Let_def n_def [symmetric]]
  consider "n < 0x80" | "0xC2 \<le> n" "n < 0xE0" | "n = 0xE0" | "n = 0xED" | "0xE0 < n" "n < 0xF0" "n \<noteq> 0xED" | "n = 0xF0"
    | "0xF0 < n" "n < 0xF4" | "n = 0xF4"
    using form by (fastforce split: if_splits)
  then show thesis
  proof cases
    case 1 then show ?thesis using form one by (simp add: n_def)
  next
    case 2 then show ?thesis using form two by (simp add: n_def)
  next
    case 3 then show ?thesis using form three [of "0xA0" "0xBF"] by (simp add: n_def)
  next
    case 4 then show ?thesis using form three [of "0x80" "0x9F"] by (simp add: n_def)
  next
    case 5 then show ?thesis using form three [of "0x80" "0xBF"] by (simp add: n_def)
  next
    case 6 then show ?thesis using form four [of "0x90" "0xBF"] by (simp add: n_def)
  next
    case 7 then show ?thesis using form four [of "0x80" "0xBF"] by (simp add: n_def)
  next
    case 8 then show ?thesis using form four [of "0x80" "0x8F"] by (simp add: n_def)
  qed
qed

lemma EncodeRune_value:
  assumes "utf8_form c = Some rs" "in_ranges rs cs"
  shows "EncodeRune (rune_value c (take (length rs) cs)) = c # take (length rs) cs"
  using assms(1)
proof (cases rule: utf8_form_cases)
  case one
  then show ?thesis by (simp add: rune_value_def EncodeRune_def)
next
  case two
  then obtain d cs' where cs: "cs = d # cs'" using assms(2) by (cases cs) auto
  let ?a = "of_char c - 192 :: nat" and ?b = "of_char d - 128 :: nat"
  have d: "0x80 \<le> (of_char d :: nat)" "(of_char d :: nat) \<le> 0xBF" using assms(2) two cs by simp_all
  have "rune_value c [d] = ?a * 64 + ?b" using two d by (simp add: rune_value_def offset)
  moreover have "EncodeRune (?a * 64 + ?b) = map char_of [0xC0 + ?a, 0x80 + ?b]" by (rule EncodeRune_2) (use two d in auto)
  ultimately show ?thesis using two d cs by simp
next
  case (three lo hi)
  then obtain d f cs' where cs: "cs = d # f # cs'" using assms(2) by (cases cs; cases "tl cs") auto
  let ?a = "of_char c - 224 :: nat" and ?b = "of_char d - 128 :: nat" and ?c = "of_char f - 128 :: nat"
  have d: "lo \<le> (of_char d :: nat)" "(of_char d :: nat) \<le> hi" "0x80 \<le> (of_char f :: nat)" "(of_char f :: nat) \<le> 0xBF"
    using assms(2) three cs by simp_all
  have "rune_value c [d, f] = (?a * 64 + ?b) * 64 + ?c" using three d by (simp add: rune_value_def offset)
  moreover have "EncodeRune ((?a * 64 + ?b) * 64 + ?c) = map char_of [0xE0 + ?a, 0x80 + ?b, 0x80 + ?c]"
  proof (rule EncodeRune_3)
    show "?a = 0 \<Longrightarrow> 32 \<le> ?b" "?a = 13 \<Longrightarrow> ?b < 32" using three d by linarith+
  qed (use three d in auto)
  ultimately show ?thesis using three d cs by simp
next
  case (four lo hi)
  then obtain d f g cs' where cs: "cs = d # f # g # cs'" using assms(2) by (cases cs; cases "tl cs"; cases "tl (tl cs)") auto
  let ?a = "of_char c - 240 :: nat" and ?b = "of_char d - 128 :: nat" and ?c = "of_char f - 128 :: nat" and ?d = "of_char g - 128 :: nat"
  have d: "lo \<le> (of_char d :: nat)" "(of_char d :: nat) \<le> hi" "0x80 \<le> (of_char f :: nat)" "(of_char f :: nat) \<le> 0xBF"
    "0x80 \<le> (of_char g :: nat)" "(of_char g :: nat) \<le> 0xBF"
    using assms(2) four cs by simp_all
  have "rune_value c [d, f, g] = ((?a * 64 + ?b) * 64 + ?c) * 64 + ?d" using four d by (simp add: rune_value_def offset)
  moreover have "EncodeRune (((?a * 64 + ?b) * 64 + ?c) * 64 + ?d) = map char_of [0xF0 + ?a, 0x80 + ?b, 0x80 + ?c, 0x80 + ?d]"
  proof (rule EncodeRune_4)
    show "?a = 0 \<Longrightarrow> 16 \<le> ?b" "?a = 4 \<Longrightarrow> ?b < 16" using four d by linarith+
  qed (use four d in auto)
  ultimately show ?thesis using four d cs by simp
qed

lemma in_ranges_take: "in_ranges rs cs \<Longrightarrow> length rs \<le> length cs \<and> in_ranges rs (take (length rs) cs @ t)"
  by (induction rs cs rule: in_ranges.induct) auto

text \<open>A rune decodes to \<^const>\<open>RuneError\<close> of one byte, or it is well formed and decodes alike before any other text.\<close>

lemma DecodeRune_cases:
  assumes "DecodeRune c cs = (r, w)"
  obtains (bad) "r = RuneError" "w = 1"
  | (good) bs where "take w (c # cs) = c # bs" "EncodeRune r = c # bs" "length bs = w - 1"
      "\<And>t. DecodeRune c (bs @ t) = (r, w)" "of_char c < (0x80 :: nat) \<Longrightarrow> r = of_char c"
proof -
  consider "r = RuneError" "w = 1"
    | rs where "utf8_form c = Some rs" "in_ranges rs cs" "r = rune_value c (take (length rs) cs)" "w = Suc (length rs)"
    using assms by (auto simp: DecodeRune_def split: option.splits if_splits)
  then show thesis
  proof cases
    case (2 rs)
    have "rs = []" if "of_char c < (0x80 :: nat)" using that 2(1) by (simp add: utf8_form_def)
    moreover have "DecodeRune c (take (length rs) cs @ t) = (r, w)" for t
      using 2 in_ranges_take [OF 2(2), of t] by (simp add: DecodeRune_def)
    ultimately show ?thesis
      using good [of "take (length rs) cs"] EncodeRune_value [OF 2(1,2)] 2 in_ranges_take [OF 2(2)] by (simp add: rune_value_def)
  qed (rule bad)
qed

lemma read_chars_escaped:
  assumes "DecodeRune c cs = (r, w)"
  shows "read_chars (json_escape (r, take w (c # cs)) @ t) = map_option (map_prod ((@) (EncodeRune r)) id) (read_chars t)"
proof -
  consider (bad) "r = RuneError \<and> length (take w (c # cs)) = 1"
    | (short) "r \<in> {34, 92, 8, 12, 10, 13, 9}" | (uni) "r < 32 \<or> r = 60 \<or> r = 62 \<or> r = 38 \<or> r = 0x2028 \<or> r = 0x2029"
        "r \<notin> {34, 92, 8, 12, 10, 13, 9}"
    | (plain) "\<not> (r = RuneError \<and> length (take w (c # cs)) = 1)" "r \<notin> {34, 92, 8, 12, 10, 13, 9}"
        "\<not> (r < 32 \<or> r = 60 \<or> r = 62 \<or> r = 38 \<or> r = 0x2028 \<or> r = 0x2029)"
    by blast
  then show ?thesis
  proof cases
    case bad
    then show ?thesis by (simp add: json_escape_def read_chars.simps(2) read_escape_def RuneError_def hex_digit_def)
  next
    case short
    then show ?thesis
      by (auto simp: json_escape_def read_chars.simps(2) read_escape_def RuneError_def)
  next
    case uni
    then have "r < 0x10000" "\<not> (0xD800 \<le> r \<and> r < 0xE000)" by auto
    then have "read_escape (CHR ''u'' # hex 4 r @ t) = Some (r, t)" by (auto simp: read_escape_def getu4_hex)
    moreover have "json_escape (r, bs) = BSL # CHR ''u'' # hex 4 r" for bs using uni by (auto simp: json_escape_def RuneError_def)
    ultimately show ?thesis by (simp add: read_chars.simps(2))
  next
    case plain
    from assms show ?thesis
    proof (cases rule: DecodeRune_cases)
      case bad
      then show ?thesis using plain by simp
    next
      case (good bs)
      have "c \<noteq> QUOT" "c \<noteq> BSL" "\<not> (of_char c :: nat) < 32" using good(5) plain by auto
      moreover have "json_escape (r, c # bs) = c # bs" using plain good(1) by (auto simp: json_escape_def)
      ultimately show ?thesis using good(1,3,4) by (simp add: read_chars.simps(2))
    qed
  qed
qed

text \<open>What a reader finds of a string: every byte that is no UTF-8 is the replacement character.\<close>

definition valid_utf8 :: "string \<Rightarrow> string" where
  "valid_utf8 s = concat (map (EncodeRune \<circ> fst) (runes s))"

lemma read_chars_quoted: "read_chars (concat (map json_escape (runes s)) @ QUOT # t) = Some (valid_utf8 s, t)"
proof (induction s rule: runes.induct)
  case 1
  show ?case by (simp add: valid_utf8_def read_chars.simps(2))
next
  case (2 c cs)
  obtain r w where d: "DecodeRune c cs = (r, w)" by (cases "DecodeRune c cs")
  then show ?case using 2 by (simp add: read_chars_escaped valid_utf8_def)
qed

lemma valid_utf8_ascii: "list_all (\<lambda>c. (of_char c :: nat) < 0x80) s \<Longrightarrow> valid_utf8 s = s"
  by (induction s) (simp_all add: valid_utf8_def DecodeRune_def utf8_form_def rune_value_def EncodeRune_def)

lemma byte_mod:
  "a < 32 \<Longrightarrow> (0xC0 + a) mod 32 = (a :: nat)" "a < 16 \<Longrightarrow> (0xE0 + a) mod 16 = a" "a < 8 \<Longrightarrow> (0xF0 + a) mod 8 = a"
  "a < 64 \<Longrightarrow> (0x80 + a) mod 64 = a"
  using offset [of "0xC0 + a"] offset [of "0xE0 + a"] offset [of "0xF0 + a"] offset [of "0x80 + a"] by simp_all

lemma of_char_byte: "n < 256 \<Longrightarrow> of_char (char_of n :: char) = (n :: nat)"
  by simp

lemma DecodeRune_2:
  assumes "a < 32" "2 \<le> a" "b < 64"
  shows "DecodeRune (char_of (0xC0 + a)) (char_of (0x80 + b :: nat) # t) = (a * 64 + b, 2)"
proof -
  have c: "of_char (char_of (0xC0 + a) :: char) = (0xC0 + a :: nat)" "of_char (char_of (0x80 + b) :: char) = (0x80 + b :: nat)"
    using assms by simp_all
  have "utf8_form (char_of (0xC0 + a)) = Some [(0x80, 0xBF)]" using assms unfolding utf8_form_def Let_def c by simp
  then show ?thesis using assms by (simp add: DecodeRune_def rune_value_def c byte_mod)
qed

lemma DecodeRune_3:
  assumes "a < 16" "b < 64" "c < 64" "a = 0 \<Longrightarrow> 32 \<le> b" "a = 13 \<Longrightarrow> b < 32"
  shows "DecodeRune (char_of (0xE0 + a)) (char_of (0x80 + b :: nat) # char_of (0x80 + c :: nat) # t) = ((a * 64 + b) * 64 + c, 3)"
proof -
  have e: "of_char (char_of (0xE0 + a) :: char) = (0xE0 + a :: nat)" "of_char (char_of (0x80 + b) :: char) = (0x80 + b :: nat)"
    "of_char (char_of (0x80 + c) :: char) = (0x80 + c :: nat)"
    using assms by simp_all
  obtain lo hi where "utf8_form (char_of (0xE0 + a)) = Some [(lo, hi), (0x80, 0xBF)]" "lo \<le> 0x80 + b" "0x80 + b \<le> hi"
    using assms unfolding utf8_form_def Let_def e by (cases "a = 0"; cases "a = 13") auto
  then show ?thesis using assms by (simp add: DecodeRune_def rune_value_def e byte_mod numeral_3_eq_3)
qed

lemma DecodeRune_4:
  assumes "a < 5" "b < 64" "c < 64" "e < 64" "a = 0 \<Longrightarrow> 16 \<le> b" "a = 4 \<Longrightarrow> b < 16"
  shows "DecodeRune (char_of (0xF0 + a)) (char_of (0x80 + b :: nat) # char_of (0x80 + c :: nat) # char_of (0x80 + e :: nat) # t)
    = (((a * 64 + b) * 64 + c) * 64 + e, 4)"
proof -
  have f: "of_char (char_of (0xF0 + a) :: char) = (0xF0 + a :: nat)" "of_char (char_of (0x80 + b) :: char) = (0x80 + b :: nat)"
    "of_char (char_of (0x80 + c) :: char) = (0x80 + c :: nat)" "of_char (char_of (0x80 + e) :: char) = (0x80 + e :: nat)"
    using assms by simp_all
  obtain lo hi where "utf8_form (char_of (0xF0 + a)) = Some [(lo, hi), (0x80, 0xBF), (0x80, 0xBF)]" "lo \<le> 0x80 + b" "0x80 + b \<le> hi"
    using assms unfolding utf8_form_def Let_def f by (cases "a = 0"; cases "a = 4") auto
  then show ?thesis using assms by (simp add: DecodeRune_def rune_value_def f byte_mod)
qed

lemma second_byte_3:
  "r = (a * 64 + m) * 64 + n \<Longrightarrow> 0x800 \<le> r \<Longrightarrow> \<not> (0xD800 \<le> r \<and> r < 0xE000) \<Longrightarrow> m < 64 \<Longrightarrow> n < (64 :: nat)
   \<Longrightarrow> (a = 0 \<longrightarrow> 32 \<le> m) \<and> (a = 13 \<longrightarrow> m < 32)"
  by auto

lemma second_byte_4:
  "r = ((a * 64 + m) * 64 + n) * 64 + k \<Longrightarrow> 0x10000 \<le> r \<Longrightarrow> r \<le> 0x10FFFF \<Longrightarrow> n < 64 \<Longrightarrow> k < (64 :: nat)
   \<Longrightarrow> (a = 0 \<longrightarrow> 16 \<le> m) \<and> (a = 4 \<longrightarrow> m < 16)"
  by auto

text \<open>Every encoding decodes again, whatever follows it; a surrogate or a number too large was replaced.\<close>

lemma DecodeRune_Encode:
  obtains c bs r' where "EncodeRune r = c # bs" "\<And>t. DecodeRune c (bs @ t) = (r', Suc (length bs))" "EncodeRune r' = EncodeRune r"
proof -
  let ?b = "\<lambda>n. n mod 64 :: nat"
  have split: "n div 64 * 64 + ?b n = n" "?b n < 64" for n :: nat by simp_all
  have div: "r div 4096 = r div 64 div 64" "r div 262144 = r div 64 div 64 div 64" by (simp_all add: div_mult2_eq [symmetric])
  consider "r < 0x80" | "0x80 \<le> r" "r < 0x800" | "0x10FFFF < r \<or> 0xD800 \<le> r \<and> r < 0xE000"
    | "0x800 \<le> r" "r < 0x10000" "\<not> (0xD800 \<le> r \<and> r < 0xE000)" | "0x10000 \<le> r" "r \<le> 0x10FFFF"
    by linarith
  then show thesis
  proof cases
    case 1
    then show ?thesis
      using that [of "char_of r" "[]" r] by (simp add: EncodeRune_def DecodeRune_def utf8_form_def rune_value_def)
  next
    case 2
    have "r div 64 < 32" "2 \<le> r div 64" using 2 by (simp_all add: less_mult_imp_div_less less_eq_div_iff_mult_less_eq)
    from DecodeRune_2 [OF this split(2) [of r]] show ?thesis
      using that [of "char_of (0xC0 + r div 64)" "[char_of (0x80 + r mod 64)]" r] 2 by (simp add: EncodeRune_def)
  next
    case 3
    have "DecodeRune (char_of (0xE0 + 15 :: nat)) (char_of (0x80 + 63 :: nat) # char_of (0x80 + 61 :: nat) # t) = ((15 * 64 + 63) * 64 + 61, 3)" for t
      by (rule DecodeRune_3) simp_all
    with 3 show ?thesis
      using that [of "char_of (0xEF :: nat)" "map char_of [0xBF, 0xBD :: nat]" "0xFFFD"] by (auto simp: EncodeRune_def)
  next
    case 4
    let ?a = "r div 64 div 64" and ?m = "r div 64 mod 64"
    have a: "?a < 16" using 4 by (simp add: div_mult2_eq [symmetric] less_mult_imp_div_less)
    have r: "r = (?a * 64 + ?m) * 64 + r mod 64" by (simp only: split)
    have "?a = 0 \<Longrightarrow> 32 \<le> ?m" "?a = 13 \<Longrightarrow> ?m < 32" using second_byte_3 [OF r 4(1,3) split(2) split(2)] by simp_all
    from DecodeRune_3 [OF a split(2) split(2) this] have "DecodeRune (char_of (0xE0 + ?a)) (char_of (0x80 + ?m) # char_of (0x80 + r mod 64) # t) = (r, 3)" for t
      using r by metis
    then show ?thesis
      using that [of "char_of (0xE0 + ?a)" "map char_of [0x80 + ?m, 0x80 + r mod 64]" r] 4 by (simp add: EncodeRune_def div)
  next
    case 5
    let ?a = "r div 64 div 64 div 64" and ?m = "r div 64 div 64 mod 64" and ?n = "r div 64 mod 64"
    have a: "?a < 5" using 5 by (simp add: div_mult2_eq [symmetric] less_mult_imp_div_less)
    have r: "r = ((?a * 64 + ?m) * 64 + ?n) * 64 + r mod 64" by (simp only: split)
    have "?a = 0 \<Longrightarrow> 16 \<le> ?m" "?a = 4 \<Longrightarrow> ?m < 16"
      using second_byte_4 [OF r 5 split(2) split(2)] by simp_all
    from DecodeRune_4 [OF a split(2) split(2) split(2) this]
    have "DecodeRune (char_of (0xF0 + ?a)) (char_of (0x80 + ?m) # char_of (0x80 + ?n) # char_of (0x80 + r mod 64) # t) = (r, 4)" for t
      using r by metis
    then show ?thesis
      using that [of "char_of (0xF0 + ?a)" "map char_of [0x80 + ?m, 0x80 + ?n, 0x80 + r mod 64]" r] 5 by (simp add: EncodeRune_def div)
  qed
qed

lemma runes_EncodeRune: "\<exists>r'. runes (EncodeRune r @ t) = (r', EncodeRune r) # runes t \<and> EncodeRune r' = EncodeRune r"
proof -
  obtain c bs r' where e: "EncodeRune r = c # bs" "DecodeRune c (bs @ t) = (r', Suc (length bs))" "EncodeRune r' = EncodeRune r"
    by (rule DecodeRune_Encode [of r]) blast
  then show ?thesis by (intro exI [of _ r']) simp
qed

lemma valid_utf8_EncodeRune: "valid_utf8 (EncodeRune r @ t) = EncodeRune r @ valid_utf8 t"
  using runes_EncodeRune [of r t] by (auto simp: valid_utf8_def)

lemma valid_utf8_idem: "valid_utf8 (valid_utf8 s) = valid_utf8 s"
proof -
  have "valid_utf8 (concat (map EncodeRune rs)) = concat (map EncodeRune rs)" for rs
    by (induction rs) (simp_all add: valid_utf8_EncodeRune, simp add: valid_utf8_def)
  then show ?thesis by (simp add: valid_utf8_def [of s] map_map [symmetric] del: map_map)
qed

lemma read_chars_valid: "read_chars s = Some (k, t) \<Longrightarrow> valid_utf8 k = k"
proof (induction s arbitrary: k t rule: read_chars.induct)
  case (2 c s)
  then show ?case
    by (auto simp: read_chars.simps(2) [of c s] valid_utf8_EncodeRune valid_utf8_def [of "[]"] split: if_splits option.splits prod.splits)
qed simp

subsection \<open>Numbers\<close>

text \<open>What may follow a number without being read as a part of it.\<close>

definition ends_number :: "string \<Rightarrow> bool" where
  "ends_number t \<longleftrightarrow> (case t of [] \<Rightarrow> True | c # _ \<Rightarrow> \<not> is_digit c \<and> c \<noteq> CHR ''.'' \<and> c \<noteq> CHR ''e'' \<and> c \<noteq> CHR ''E'')"

lemma ends_number_simps [simp]:
  "ends_number []"
  "ends_number (c # t) \<longleftrightarrow> \<not> is_digit c \<and> c \<noteq> CHR ''.'' \<and> c \<noteq> CHR ''e'' \<and> c \<noteq> CHR ''E''"
  by (simp_all add: ends_number_def)

lemma digits_before: "digits s = (ds, u) \<Longrightarrow> (u = [] \<Longrightarrow> ends_number t) \<Longrightarrow> digits (s @ t) = (ds, u @ t)"
  by (induction s arbitrary: ds) (auto simp: digits_def split: if_splits, (cases t; auto)+)

lemma read_sign_before: "read_sign s = (sg, u) \<Longrightarrow> s \<noteq> [] \<Longrightarrow> read_sign (s @ t) = (sg, u @ t)"
  by (auto simp: read_sign_def split: list.splits if_splits)

lemma read_whole_before:
  "read_whole s = Some (w, u) \<Longrightarrow> (u = [] \<Longrightarrow> ends_number t) \<Longrightarrow> read_whole (s @ t) = Some (w, u @ t)"
  using digits_before [of s w u t] by (auto simp: read_whole_def split: list.splits if_splits)

lemma read_fraction_before:
  assumes "read_fraction s = Some (f, u)" "u = [] \<Longrightarrow> ends_number t"
  shows "read_fraction (s @ t) = Some (f, u @ t)"
proof (cases s)
  case Nil
  then show ?thesis using assms by (cases t) (auto simp: read_fraction_def)
next
  case (Cons c s')
  obtain ds v where d: "digits s' = (ds, v)" by (cases "digits s'")
  show ?thesis using assms Cons d digits_before [OF d, of t] by (auto simp: read_fraction_def split: if_splits)
qed

lemma read_exponent_before:
  assumes "read_exponent s = Some (e, u)" "u = [] \<Longrightarrow> ends_number t"
  shows "read_exponent (s @ t) = Some (e, u @ t)"
proof (cases s)
  case Nil
  then show ?thesis using assms by (cases t) (auto simp: read_exponent_def)
next
  case (Cons c s')
  obtain sg w where x: "exponent_sign s' = (sg, w)" by (cases "exponent_sign s'")
  obtain ds v where d: "digits w = (ds, v)" by (cases "digits w")
  have "exponent_sign (s' @ t) = (sg, w @ t)" if "s' \<noteq> []"
    using x that by (auto simp: exponent_sign_def split: list.splits if_splits)
  moreover have "ds = []" if "s' = []" using x d that by (auto simp: exponent_sign_def digits_def)
  ultimately show ?thesis using assms Cons x d digits_before [OF d, of t]
    by (cases "s' = []") (auto simp: read_exponent_def split: if_splits)
qed

lemma read_number_before:
  assumes "read_number s = Some (l, u)" "u = [] \<Longrightarrow> ends_number t"
  shows "read_number (s @ t) = Some (l, u @ t)"
proof -
  obtain sg s0 w s1 f s2 e where
    r: "read_sign s = (sg, s0)" "read_whole s0 = Some (w, s1)" "read_fraction s1 = Some (f, s2)"
      "read_exponent s2 = Some (e, u)" and l: "l = sg @ w @ f @ e"
    using assms(1) by (auto simp: read_number_def split: prod.splits option.splits)
  have "s \<noteq> []" using r(1,2) by (auto simp: read_sign_def read_whole_def)
  moreover have "s1 = [] \<Longrightarrow> s2 = []" "s2 = [] \<Longrightarrow> u = []"
    using r by (auto simp: read_fraction_def read_exponent_def)
  ultimately show ?thesis
    using read_sign_before [OF r(1), of t] read_whole_before [OF r(2), of t] read_fraction_before [OF r(3), of t]
      read_exponent_before [OF r(4), of t] assms(2) l by (simp add: read_number_def)
qed

text \<open>A literal is a number when nothing of it remains; an integer is one.\<close>

definition number_literal :: "string \<Rightarrow> bool" where
  "number_literal l \<longleftrightarrow> read_number l = Some (l, [])"

lemma number_literal_start: "number_literal l \<Longrightarrow> \<exists>c t. l = c # t \<and> (is_digit c \<or> c = CHR ''-'')"
  by (auto simp: number_literal_def read_number_def read_sign_def read_whole_def is_digit_def split: list.splits if_splits)

lemma digits_again: "digits s = (ds, u) \<Longrightarrow> (case v of [] \<Rightarrow> True | c # _ \<Rightarrow> \<not> is_digit c) \<Longrightarrow> digits (ds @ v) = (ds, v)"
  by (auto simp: digits_def takeWhile_append dropWhile_append takeWhile_eq_all_conv dropWhile_eq_self_iff takeWhile_eq_Nil_iff
      split: list.splits dest: set_takeWhileD)

lemma read_exponent_again:
  assumes "read_exponent s = Some (e, u)"
  shows "read_exponent e = Some (e, []) \<and> (case e of [] \<Rightarrow> True | c # _ \<Rightarrow> c = CHR ''e'' \<or> c = CHR ''E'')"
proof (cases s)
  case Nil
  then show ?thesis using assms by (simp add: read_exponent_def)
next
  case (Cons c s')
  obtain sg w where x: "exponent_sign s' = (sg, w)" by (cases "exponent_sign s'")
  obtain ds v where d: "digits w = (ds, v)" by (cases "digits w")
  have "exponent_sign (sg @ ds) = (sg, ds)" if "ds \<noteq> []"
  proof -
    obtain b ds' where "ds = b # ds'" using \<open>ds \<noteq> []\<close> by (cases ds) auto
    moreover from this have "is_digit b" using d set_takeWhileD [of b is_digit w] by (simp add: digits_def)
    ultimately show ?thesis using x by (auto simp: exponent_sign_def is_digit_def split: list.splits if_splits)
  qed
  moreover have "digits ds = (ds, [])" using digits_again [OF d, of "[]"] by simp
  ultimately show ?thesis using assms Cons x d by (auto simp: read_exponent_def split: if_splits)
qed

lemma read_fraction_again:
  assumes "read_fraction s = Some (f, u)" "case v of [] \<Rightarrow> True | c # _ \<Rightarrow> c = CHR ''e'' \<or> c = CHR ''E''"
  shows "read_fraction (f @ v) = Some (f, v) \<and> (case f of [] \<Rightarrow> True | c # _ \<Rightarrow> c = CHR ''.'')"
proof (cases s)
  case Nil
  then show ?thesis using assms by (auto simp: read_fraction_def split: list.splits)
next
  case (Cons c s')
  obtain ds w where d: "digits s' = (ds, w)" by (cases "digits s'")
  have "digits (ds @ v) = (ds, v)" using digits_again [OF d, of v] assms(2) by (auto simp: is_digit_def split: list.splits)
  then show ?thesis using assms Cons d by (auto simp: read_fraction_def split: if_splits list.splits)
qed

lemma read_whole_again:
  assumes "read_whole s = Some (w, u)" "case v of [] \<Rightarrow> True | c # _ \<Rightarrow> \<not> is_digit c"
  shows "read_whole (w @ v) = Some (w, v) \<and> (\<exists>c w'. w = c # w' \<and> is_digit c)"
proof (cases s)
  case Nil
  then show ?thesis using assms by (simp add: read_whole_def)
next
  case (Cons c s')
  show ?thesis
  proof (cases "c = CHR ''0''")
    case True
    then have "w = [c]" "is_digit c" using assms(1) Cons by (simp_all add: read_whole_def is_digit_def)
    then show ?thesis using True by (simp add: read_whole_def)
  next
    case False
    then have d: "digits s = (w, u)" "is_digit c" using assms Cons by (simp_all add: read_whole_def split: if_splits)
    then obtain w' where "w = c # w'" using Cons by (auto simp: digits_def)
    then show ?thesis using False d digits_again [OF d(1) assms(2)] by (simp add: read_whole_def)
  qed
qed

lemma read_number_again: "read_number s = Some (l, t) \<Longrightarrow> number_literal l"
proof -
  assume "read_number s = Some (l, t)"
  then obtain sg s0 w s1 f s2 e where
    r: "read_sign s = (sg, s0)" "read_whole s0 = Some (w, s1)" "read_fraction s1 = Some (f, s2)"
      "read_exponent s2 = Some (e, t)" and l: "l = sg @ w @ f @ e"
    by (auto simp: read_number_def split: prod.splits option.splits)
  note e = read_exponent_again [OF r(4)]
  note f = read_fraction_again [OF r(3), of e]
  have w: "read_whole (w @ f @ e) = Some (w, f @ e) \<and> (\<exists>c w'. w = c # w' \<and> is_digit c)"
    by (rule read_whole_again [OF r(2)]) (use e f in \<open>auto simp: is_digit_def split: list.splits\<close>)
  then have "read_sign (sg @ w @ f @ e) = (sg, w @ f @ e)"
    using r(1) by (auto simp: read_sign_def is_digit_def split: list.splits if_splits)
  then show ?thesis using w e f l by (simp add: number_literal_def read_number_def)
qed

lemma fmt_nat_is_digit: "c \<in> set (fmt_nat n) \<Longrightarrow> is_digit c"
  using fmt_nat_digits [of n] by (auto simp: is_digit_def)

lemma fmt_nat_zero: "fmt_nat n = CHR ''0'' # t \<Longrightarrow> t = []"
proof (induction n arbitrary: t rule: fmt_nat.induct)
  case (1 n)
  show ?case
  proof (cases "n < 10")
    case True
    then show ?thesis using 1(2) by (simp add: fmt_nat.simps [of n])
  next
    case False
    then obtain u where "fmt_nat (n div 10) = CHR ''0'' # u"
      using 1(2) by (cases "fmt_nat (n div 10)") (simp_all add: fmt_nat.simps [of n])
    moreover from this have "u = []" using 1(1) False by blast
    ultimately have "fmt_nat (n div 10) = fmt_nat 0" by (simp add: fmt_nat.simps [of 0] digit_def)
    then show ?thesis using False by simp
  qed
qed

lemma digits_fmt_nat: "digits (fmt_nat n) = (fmt_nat n, [])"
proof -
  have "\<forall>c \<in> set (fmt_nat n). is_digit c" by (blast intro: fmt_nat_is_digit)
  then show ?thesis by (simp add: digits_def takeWhile_eq_all_conv dropWhile_eq_Nil_conv)
qed

lemma read_whole_fmt_nat: "read_whole (fmt_nat n) = Some (fmt_nat n, [])"
proof (cases "fmt_nat n")
  case (Cons c t)
  then show ?thesis using digits_fmt_nat [of n] fmt_nat_zero [of n t] fmt_nat_is_digit [of c n] by (auto simp: read_whole_def)
qed simp

lemma read_sign_fmt_nat: "read_sign (fmt_nat n) = ([], fmt_nat n)"
  using fmt_nat_is_digit [of "CHR ''-''" n] by (cases "fmt_nat n") (auto simp: read_sign_def is_digit_def)

lemma number_literal_fmt_d: "number_literal (fmt_d i)"
  by (simp add: number_literal_def read_number_def fmt_d_def read_sign_fmt_nat read_whole_fmt_nat read_sign_def [of "_ # _"]
      read_fraction_def read_exponent_def)

lemma digits_value_fmt_nat: "digits_value (fmt_nat n) = int n"
proof -
  have "digits_value ds = int (parse_digits ds)" for ds
    by (induction ds rule: rev_induct) (simp_all add: digits_value_def parse_digits_def)
  then show ?thesis by (simp add: parse_fmt_nat)
qed

lemma float64_overflows_int: "float64_overflows (fmt_d i) \<longleftrightarrow> 2 ^ 1024 - 2 ^ 970 \<le> \<bar>i\<bar>"
proof -
  have "snd (read_sign (fmt_d i)) = fmt_nat (nat \<bar>i\<bar>)" by (simp add: fmt_d_def read_sign_def [of "_ # _"] read_sign_fmt_nat)
  then show ?thesis
    unfolding float64_overflows_def by (simp only: digits_fmt_nat Let_def prod.case list.case append_Nil2 digits_value_fmt_nat) simp
qed

subsection \<open>Trees\<close>

text \<open>
  The trees the decoder accepts with \<open>d\<close> arrays and objects still to open, and the tree it finds.
\<close>

fun readable :: "nat \<Rightarrow> json \<Rightarrow> bool" where
  "readable d (JNum l) = number_literal l"
| "readable d (JArr vs) = (0 < d \<and> list_all (readable (d - 1)) vs)"
| "readable d (JObj kvs) = (0 < d \<and> list_all (\<lambda>(k, v). readable (d - 1) v) kvs)"
| "readable d _ = True"

fun received :: "json \<Rightarrow> json" where
  "received (JStr s) = JStr (valid_utf8 s)"
| "received (JArr vs) = JArr (map received vs)"
| "received (JObj kvs) = JObj (map (\<lambda>(k, v). (valid_utf8 k, received v)) kvs)"
| "received v = v"

lemma json_text_start:
  "readable d v \<Longrightarrow> \<exists>c t. json_text v = c # t \<and> \<not> json_space c \<and> c \<noteq> CHR '']''"
  by (cases v) (auto simp: json_quote_def json_space_def is_digit_def dest!: number_literal_start)

lemma skip_space_plain [simp]: "\<not> json_space c \<Longrightarrow> skip_space (c # t) = c # t"
  by (simp add: skip_space_def)

lemma not_space [simp]:
  "\<not> json_space QUOT" "\<not> json_space CHR ''[''" "\<not> json_space CHR '']''" "\<not> json_space CHR ''{''" "\<not> json_space CHR ''}''"
  "\<not> json_space CHR '',''" "\<not> json_space CHR '':''" "\<not> json_space CHR ''n''" "\<not> json_space CHR ''t''" "\<not> json_space CHR ''f''"
  by (simp_all add: json_space_def)

lemma punctuation_no_digit [simp]:
  "\<not> is_digit CHR '',''" "\<not> is_digit CHR '']''" "\<not> is_digit CHR ''}''"
  by (simp_all add: is_digit_def)

text \<open>The separated list after a bracket, given that each of its values is read.\<close>

lemma elems_of_text:
  assumes "vs \<noteq> []" "\<forall>v \<in> set vs. \<forall>t. ends_number t \<longrightarrow> value_of d (json_text v @ t) = Some (received v, t)"
  shows "elems_of d (Join (map json_text vs) '','' @ CHR '']'' # t) = Some (map received vs, t)"
  using assms
proof (induction vs rule: list_nonempty_induct)
  case (single v)
  then show ?case by (subst read_elems_eq) simp
next
  case (cons v vs)
  then obtain v' vs' where "vs = v' # vs'" by (cases vs) auto
  then show ?case using cons by (subst read_elems_eq) simp
qed

definition member_text :: "string \<times> json \<Rightarrow> string" where
  "member_text = (\<lambda>(k, v). json_quote k @ '':'' @ json_text v)"

lemma members_of_text:
  assumes "kvs \<noteq> []" "\<forall>kv \<in> set kvs. \<forall>t. ends_number t \<longrightarrow> value_of d (json_text (snd kv) @ t) = Some (received (snd kv), t)"
  shows "members_of d (Join (map member_text kvs) '','' @ CHR ''}'' # t)
    = Some (map (\<lambda>(k, v). (valid_utf8 k, received v)) kvs, t)"
  using assms
proof (induction kvs rule: list_nonempty_induct)
  case (single kv)
  then show ?case
    by (cases kv, subst read_members_eq) (simp add: member_text_def json_quote_def read_chars_quoted)
next
  case (cons kv kvs)
  then obtain kv' kvs' where "kvs = kv' # kvs'" by (cases kvs) auto
  then show ?case using cons
    by (cases kv, subst read_members_eq) (simp add: member_text_def json_quote_def read_chars_quoted)
qed

lemma value_of_text: "readable d v \<Longrightarrow> ends_number t \<Longrightarrow> value_of d (json_text v @ t) = Some (received v, t)"
proof (induction d v arbitrary: t rule: readable.induct)
  case (1 d l)
  then obtain c u where l: "l = c # u" "is_digit c \<or> c = CHR ''-''" using number_literal_start [of l] by auto
  moreover have "read_number (l @ t) = Some (l, t)"
    using 1 read_number_before [of l l "[]" t] by (simp add: number_literal_def)
  moreover from l(2) have "\<not> json_space c" "c \<noteq> QUOT" "c \<noteq> CHR ''[''" "c \<noteq> CHR ''{''" "c \<noteq> CHR ''n''" "c \<noteq> CHR ''t''" "c \<noteq> CHR ''f''"
    by (auto simp: json_space_def is_digit_def)
  ultimately show ?case by (subst read_value_eq) simp
next
  case (2 d vs)
  show ?case
  proof (cases vs)
    case Nil
    then show ?thesis using 2 by (subst read_value_eq) simp
  next
    case (Cons v vs')
    have "elems_of (d - 1) (Join (map json_text vs) '','' @ CHR '']'' # t) = Some (map received vs, t)"
      using 2 Cons by (intro elems_of_text) (auto simp: list_all_iff)
    moreover obtain c u where "json_text v = c # u" "\<not> json_space c" "c \<noteq> CHR '']''"
      using json_text_start [of "d - 1" v] 2 Cons by auto
    moreover from this obtain u' where "Join (map json_text vs) '','' = c # u'" using Cons by (cases vs') simp_all
    ultimately show ?thesis using 2 by (subst read_value_eq) simp
  qed
next
  case (3 d kvs)
  show ?case
  proof (cases kvs)
    case Nil
    then show ?thesis using 3 by (subst read_value_eq) simp
  next
    case (Cons kv kvs')
    have "members_of (d - 1) (Join (map member_text kvs) '','' @ CHR ''}'' # t)
      = Some (map (\<lambda>(k, v). (valid_utf8 k, received v)) kvs, t)"
    proof (rule members_of_text)
      show "\<forall>kv \<in> set kvs. \<forall>t. ends_number t \<longrightarrow> value_of (d - 1) (json_text (snd kv) @ t) = Some (received (snd kv), t)"
        using "3.IH" [OF _ refl] "3.prems"(1) by (fastforce simp: list_all_iff)
    qed (simp add: Cons)
    moreover obtain u' where "Join (map member_text kvs) '','' = QUOT # u'"
      using Cons by (cases kvs'; cases kv) (simp_all add: member_text_def json_quote_def)
    ultimately show ?thesis using 3 by (subst read_value_eq) (simp add: member_text_def)
  qed
qed (subst read_value_eq, simp add: json_quote_def read_chars_quoted)+

lemma read_json_text: "readable maxNestingDepth v \<Longrightarrow> ends_number t \<Longrightarrow> read_json (json_text v @ t) = Some (received v)"
  unfolding read_json_def value_of_def [symmetric] by (simp add: value_of_text)

text \<open>What was read can be written and read again.\<close>

lemma read_readable:
  "read_value n d s = Some (v, r) \<Longrightarrow> readable d v \<and> received v = v"
  "read_elems n d s = Some (vs, r) \<Longrightarrow> list_all (readable d) vs \<and> map received vs = vs"
  "read_members n d s = Some (kvs, r) \<Longrightarrow>
     list_all (\<lambda>(k, v). readable d v) kvs \<and> map (\<lambda>(k, v). (valid_utf8 k, received v)) kvs = kvs"
proof (induction n d s and n d s and n d s arbitrary: v r and vs r and kvs r
    rule: read_value_read_elems_read_members.induct)
  case (2 n d s)
  obtain c t where t: "skip_space s = c # t" using "2.prems" by (auto split: list.splits)
  show ?case
  proof (cases "c = CHR ''['' \<or> c = CHR ''{''")
    case True
    then obtain x u where "skip_space t = x # u" "d \<noteq> 0" using "2.prems" t by (auto split: list.splits if_splits)
    then show ?thesis using True "2.prems" "2.IH" [OF t] t by (auto split: if_splits)
  next
    case False
    then show ?thesis
      using "2.prems" t read_chars_valid [of t] read_number_again [of "c # t"] by (auto split: if_splits)
  qed
next
  case (4 n d s)
  obtain w t where v: "read_value n d s = Some (w, t)" using "4.prems" by (auto split: option.splits)
  obtain x u where u: "skip_space t = x # u" using "4.prems" v by (auto split: list.splits)
  show ?case using "4.prems" "4.IH"(1) [OF v] "4.IH"(2) [OF v refl u] v u by (auto split: if_splits)
next
  case (6 n d s)
  obtain s0 where s0: "skip_space s = QUOT # s0" using "6.prems" by (auto split: list.splits if_splits)
  obtain k s1 where s1: "read_chars s0 = Some (k, s1)" using "6.prems" s0 by (auto split: option.splits)
  obtain s2 where s2: "skip_space s1 = CHR '':'' # s2" using "6.prems" s0 s1 by (auto split: list.splits if_splits)
  obtain v s3 where s3: "read_value n d s2 = Some (v, s3)" using "6.prems" s0 s1 s2 by (auto split: option.splits)
  obtain y s4 where s4: "skip_space s3 = y # s4" using "6.prems" s0 s1 s2 s3 by (auto split: list.splits)
  show ?case
    using "6.prems" "6.IH"(1) [OF s0 _ s1 _ s2 _ s3] "6.IH"(2) [OF s0 _ s1 _ s2 _ s3 _ s4] read_chars_valid [OF s1] s0 s1 s2 s3 s4
    by (auto split: if_splits)
qed simp_all

lemma read_json_again: "read_json s = Some v \<Longrightarrow> readable maxNestingDepth v \<and> received v = v"
  using read_readable(1) [of "2 * length s + 1" maxNestingDepth s v] by (auto simp: read_json_def)

lemma read_write_read: "read_json s = Some v \<Longrightarrow> ends_number t \<Longrightarrow> read_json (json_text v @ t) = Some v"
  using read_json_again [of s v] read_json_text [of v t] by simp

lemma readable_mono: "readable d v \<Longrightarrow> d \<le> d' \<Longrightarrow> readable d' v"
proof (induction d v arbitrary: d' rule: readable.induct)
  case (3 d kvs)
  then have "readable (d' - 1) (snd kv)" if "kv \<in> set kvs" for kv
    using that "3.IH" [of kv "fst kv" "snd kv" "d' - 1"] by (cases kv) (auto simp: list_all_iff)
  then show ?case using "3.prems" by (auto simp: list_all_iff)
qed (auto simp: list_all_iff)

lemma readable_json_int [simp]: "readable d (json_int i)"
  by (simp add: json_int_def number_literal_fmt_d)

lemma received_json_int [simp]: "received (json_int i) = json_int i"
  by (simp add: json_int_def)

end
