(* ===== verification/Jmap.thy ===== *)
theory Jmap
  imports Ports Config Json_Round_Trip
begin

text \<open>
  The JMAP server of \<^verbatim>\<open>internal/jmap\<close>: tokens (\<^verbatim>\<open>auth.go\<close>), the HTTP handlers and the middleware
  (\<^verbatim>\<open>server.go\<close>), the methods (\<^verbatim>\<open>methods.go\<close>), the types and their JSON form (\<^verbatim>\<open>types.go\<close>, \<^verbatim>\<open>encoding.go\<close>).

  A body is the bytes that arrive or are written; theory \<open>Json\<close> has the trees that the package
  \<^verbatim>\<open>encoding/json\<close> reads them as and writes them from. What it does between a tree and a Go value is
  written out here: keys match fields up to case, a struct is written in the order of its fields and a
  map in the order of its keys, an empty field marked so is left out. A field may occur again: a
  null leaves a string as it is and clears a map or a slice, an object adds to the map, and the elements
  of an array are read over those that the slice had.

  The JWT library is a parameter (\<open>jwt_lib\<close>) with what the code relies on as \<open>jwt_contract\<close>;
  \<open>plain_jwt\<close> is a concrete instance. The clock is read through a counter, as in the other servers.
\<close>

subsection \<open>Tokens\<close>

record Claims =
  cl_UserID :: uint64
  cl_Username :: string
  cl_ExpiresAt :: "time option"
  cl_IssuedAt :: "time option"
  cl_Issuer :: string

datatype jwt_alg = SigningMethodHMAC string | OtherMethod string

record jwt_token =
  tok_Claims :: Claims
  tok_Valid :: bool

record jwt_lib =
  jwt_Sign :: "string \<Rightarrow> Claims \<Rightarrow> string result"
  jwt_Parse :: "time \<Rightarrow> string \<Rightarrow> (jwt_alg \<Rightarrow> string result) \<Rightarrow> jwt_token result"

definition jwtSecret :: string where
  "jwtSecret = ''gomail-core-dev-secret-change-in-production''"

text \<open>In seconds, as the dates of a token are.\<close>

definition tokenTTL :: int where
  "tokenTTL = 24 * 3600"

definition GenerateToken :: "jwt_lib \<Rightarrow> (nat \<Rightarrow> time) \<Rightarrow> uint64 \<Rightarrow> string \<Rightarrow> nat \<Rightarrow> string result \<times> nat" where
  "GenerateToken L now userID username ticks =
     (jwt_Sign L jwtSecret
        \<lparr>cl_UserID = userID, cl_Username = username, cl_ExpiresAt = Some (now ticks + tokenTTL),
         cl_IssuedAt = Some (now (Suc ticks)), cl_Issuer = ''gomail-core''\<rparr>,
      Suc (Suc ticks))"

definition jwt_keyfunc :: "jwt_alg \<Rightarrow> string result" where
  "jwt_keyfunc alg =
     (case alg of
        SigningMethodHMAC _ \<Rightarrow> Inr jwtSecret
      | OtherMethod a \<Rightarrow> Inl (Errorf (''unexpected signing method: '' @ a)))"

definition ValidateToken :: "jwt_lib \<Rightarrow> time \<Rightarrow> string \<Rightarrow> Claims result" where
  "ValidateToken L now tokenStr =
     (case jwt_Parse L now tokenStr jwt_keyfunc of
        Inl err \<Rightarrow> Inl (Wrapf ''invalid token'' err)
      | Inr token \<Rightarrow>
          if \<not> tok_Valid token then Inl (Errorf ''invalid token claims'') else Inr (tok_Claims token))"

definition ExtractBearerToken :: "string \<Rightarrow> string result" where
  "ExtractBearerToken header =
     (if header = [] then Inl (Errorf ''missing Authorization header'')
      else case SplitN2 SPC header of
             [p0, p1] \<Rightarrow>
               if \<not> EqualFold_ascii p0 ''Bearer'' then Inl (Errorf ''invalid Authorization header format'') else Inr p1
           | _ \<Rightarrow> Inl (Errorf ''invalid Authorization header format''))"

subsection \<open>Requests and responses\<close>

record MethodCall =
  mc_Name :: string
  mc_Args :: "(string \<times> json) list option"
  mc_CallID :: string

record Request =
  rq_Using :: "string list"
  rq_MethodCalls :: "MethodCall list"

record MethodResponse =
  mr_Name :: string
  mr_Result :: json
  mr_CallID :: string

text \<open>
  \<^verbatim>\<open>json.Unmarshal\<close> of one value into a string, a map or a slice that may hold something already. The
  numbers in a map become floats. Of a slice the whole array that was written so far is kept, with its
  length: an element beyond the length that is read again starts from what stood there.
\<close>

definition json_mismatch :: go_error where
  "json_mismatch = ErrExternal ''json: cannot unmarshal''"

fun json_string :: "json \<Rightarrow> string \<Rightarrow> string result" where
  "json_string (JStr s) old = Inr s"
| "json_string JNull old = Inr old"
| "json_string _ old = Inl json_mismatch"

fun floats_fit :: "json \<Rightarrow> bool" where
  "floats_fit (JNum l) = (\<not> float64_overflows l)"
| "floats_fit (JArr vs) = list_all floats_fit vs"
| "floats_fit (JObj kvs) = list_all (\<lambda>(k, v). floats_fit v) kvs"
| "floats_fit _ = True"

fun json_map :: "json \<Rightarrow> (string \<times> json) list option \<Rightarrow> (string \<times> json) list option result" where
  "json_map (JObj kvs) old =
     (if floats_fit (JObj kvs) then Inr (Some (case old of None \<Rightarrow> kvs | Some entries \<Rightarrow> entries @ kvs))
      else Inl json_mismatch)"
| "json_map JNull old = Inr None"
| "json_map _ old = Inl json_mismatch"

fun json_elements :: "(json \<Rightarrow> 'a \<Rightarrow> 'a result) \<Rightarrow> 'a \<Rightarrow> json list \<Rightarrow> 'a list \<Rightarrow> 'a list result" where
  "json_elements f zero [] old = Inr old"
| "json_elements f zero (x # xs) old =
     (case f x (case old of [] \<Rightarrow> zero | y # _ \<Rightarrow> y) of
        Inl e \<Rightarrow> Inl e
      | Inr y \<Rightarrow> (case json_elements f zero xs (tl old) of Inl e \<Rightarrow> Inl e | Inr ys \<Rightarrow> Inr (y # ys)))"

fun json_slice :: "(json \<Rightarrow> 'a \<Rightarrow> 'a result) \<Rightarrow> 'a \<Rightarrow> json \<Rightarrow> 'a list \<times> nat \<Rightarrow> ('a list \<times> nat) result" where
  "json_slice f zero (JArr xs) (old, n) =
     (if xs = [] then Inr ([], 0)
      else case json_elements f zero xs old of Inl e \<Rightarrow> Inl e | Inr ys \<Rightarrow> Inr (ys, length xs))"
| "json_slice f zero JNull old = Inr ([], 0)"
| "json_slice f zero _ old = Inl json_mismatch"

definition UnmarshalJSON :: "json \<Rightarrow> MethodCall \<Rightarrow> MethodCall result" where
  "UnmarshalJSON data m =
     (case json_slice (\<lambda>v _. Inr v) JNull data ([], 0) of
        Inl err \<Rightarrow> Inl (Wrapf ''method call must be a JSON array'' err)
      | Inr (raw, n) \<Rightarrow>
          (case raw of
             [r0, r1, r2] \<Rightarrow>
               (case json_string r0 (mc_Name m) of
                  Inl err \<Rightarrow> Inl (Wrapf ''method call name'' err)
                | Inr name \<Rightarrow>
               (case json_map r1 (mc_Args m) of
                  Inl err \<Rightarrow> Inl (Wrapf ''method call args'' err)
                | Inr args \<Rightarrow>
               (case json_string r2 (mc_CallID m) of
                  Inl err \<Rightarrow> Inl (Wrapf ''method call id'' err)
                | Inr i \<Rightarrow> Inr \<lparr>mc_Name = name, mc_Args = args, mc_CallID = i\<rparr>)))
           | _ \<Rightarrow> Inl (Errorf (''method call must have exactly 3 elements, got '' @ fmt_nat (length raw)))))"

definition MarshalJSON :: "MethodResponse \<Rightarrow> json" where
  "MarshalJSON m = JArr [JStr (mr_Name m), mr_Result m, JStr (mr_CallID m)]"

text \<open>The fields of \<^verbatim>\<open>Request\<close>, key by key.\<close>

definition no_call :: MethodCall where
  "no_call = \<lparr>mc_Name = [], mc_Args = None, mc_CallID = []\<rparr>"

fun request_fields ::
    "(string \<times> json) list \<Rightarrow> string list \<times> nat \<Rightarrow> MethodCall list \<times> nat \<Rightarrow> Request result" where
  "request_fields [] (us, m) (cs, n) = Inr \<lparr>rq_Using = take m us, rq_MethodCalls = take n cs\<rparr>"
| "request_fields ((k, v) # kvs) u c =
     (if EqualFold_ascii k ''using'' then
        (case json_slice json_string [] v u of Inl e \<Rightarrow> Inl e | Inr u' \<Rightarrow> request_fields kvs u' c)
      else if EqualFold_ascii k ''methodCalls'' then
        (case json_slice UnmarshalJSON no_call v c of Inl e \<Rightarrow> Inl e | Inr c' \<Rightarrow> request_fields kvs u c')
      else request_fields kvs u c)"

definition decode_request :: "bytes \<Rightarrow> Request result" where
  "decode_request body =
     (case read_json body of
        Some (JObj kvs) \<Rightarrow> request_fields kvs ([], 0) ([], 0)
      | Some JNull \<Rightarrow> Inr \<lparr>rq_Using = [], rq_MethodCalls = []\<rparr>
      | _ \<Rightarrow> Inl json_mismatch)"

text \<open>The two fields of the login request.\<close>

fun auth_fields :: "(string \<times> json) list \<Rightarrow> string \<times> string \<Rightarrow> (string \<times> string) result" where
  "auth_fields [] r = Inr r"
| "auth_fields ((k, v) # kvs) (u, p) =
     (if EqualFold_ascii k ''username'' then
        (case json_string v u of Inl e \<Rightarrow> Inl e | Inr s \<Rightarrow> auth_fields kvs (s, p))
      else if EqualFold_ascii k ''password'' then
        (case json_string v p of Inl e \<Rightarrow> Inl e | Inr s \<Rightarrow> auth_fields kvs (u, s))
      else auth_fields kvs (u, p))"

definition decode_auth :: "bytes \<Rightarrow> (string \<times> string) result" where
  "decode_auth body =
     (case read_json body of
        Some (JObj kvs) \<Rightarrow> auth_fields kvs ([], [])
      | Some JNull \<Rightarrow> Inr ([], [])
      | _ \<Rightarrow> Inl json_mismatch)"

subsection \<open>The server\<close>

record http_request =
  req_Authorization :: string
  req_Body :: bytes

record http_response =
  resp_Status :: nat
  resp_Body :: bytes

record 'w jmap_env =
  jm_cfg :: Config
  jm_mailboxReader :: "'w MailboxReader"
  jm_messageReader :: "'w MessageReader"
  jm_domainResolver :: "'w DomainResolver"
  jm_userAuth :: "'w UserAuthenticator"
  jm_jwt :: jwt_lib
  jm_Now :: "nat \<Rightarrow> time"
  jm_bcrypt :: "string \<Rightarrow> string \<Rightarrow> go_error option"
  jm_unicode :: unicode

record 'w jmap_state =
  js_store :: 'w
  js_ticks :: nat

definition writeJSON :: "nat \<Rightarrow> json \<Rightarrow> http_response" where
  "writeJSON status v = \<lparr>resp_Status = status, resp_Body = json_text v @ [LF]\<rparr>"

definition writeError :: "nat \<Rightarrow> string \<Rightarrow> http_response" where
  "writeError status msg = writeJSON status (JObj [(''error'', JStr msg)])"

definition CapabilityCore :: string where
  "CapabilityCore = ''urn:ietf:params:jmap:core''"

definition CapabilityMail :: string where
  "CapabilityMail = ''urn:ietf:params:jmap:mail''"

definition account_id :: "uint64 \<Rightarrow> string" where
  "account_id u = ''u'' @ fmt_u u"

subsubsection \<open>Methods\<close>

definition jmap_Error :: "string \<Rightarrow> string \<Rightarrow> json" where
  "jmap_Error ty desc = JObj ([(''type'', JStr ty)] @ (if desc = [] then [] else [(''description'', JStr desc)]))"

definition fail_with :: "string \<Rightarrow> MethodResponse" where
  "fail_with desc = \<lparr>mr_Name = ''error'', mr_Result = jmap_Error ''serverFail'' desc, mr_CallID = []\<rparr>"

definition mailboxRole :: "string \<Rightarrow> string" where
  "mailboxRole name =
     (if name = ''INBOX'' then ''inbox''
      else if name = ''Sent'' then ''sent''
      else if name = ''Trash'' then ''trash''
      else if name = ''Drafts'' then ''drafts''
      else [])"

definition JMAPMailbox :: "Mailbox \<Rightarrow> json" where
  "JMAPMailbox mb =
     JObj ([(''id'', JStr (''mb'' @ fmt_u (Mailbox_ID mb))), (''name'', JStr (Mailbox_Name mb))]
       @ (if mailboxRole (Mailbox_Name mb) = [] then [] else [(''role'', JStr (mailboxRole (Mailbox_Name mb)))])
       @ [(''totalEmails'', json_int 0), (''unreadEmails'', json_int 0)])"

definition Address :: "string \<Rightarrow> string \<Rightarrow> json" where
  "Address email name = JObj ([(''email'', JStr email)] @ (if name = [] then [] else [(''name'', JStr name)]))"

definition JMAPEmail :: "Message \<Rightarrow> json" where
  "JMAPEmail msg =
     JObj [(''id'', JStr (''e'' @ fmt_u (Message_ID msg))),
           (''mailboxIds'', JObj [(''mb'' @ fmt_u (Message_MailboxID msg), JBool True)]),
           (''subject'', JStr (Message_Subject msg)),
           (''from'', JArr [Address (Message_EnvelopeFrom msg) []]),
           (''to'', JArr [Address (Message_EnvelopeTo msg) []]),
           (''receivedAt'', JStr []),
           (''size'', json_int (Message_SizeBytes msg))]"

definition handleMailboxGet :: "'w jmap_env \<Rightarrow> Claims \<Rightarrow> MethodCall \<Rightarrow> 'w \<Rightarrow> MethodResponse \<times> 'w" where
  "handleMailboxGet E claims call w =
     (case ListMailboxes (jm_mailboxReader E) (cl_UserID claims) w of
        (Inl err, w) \<Rightarrow> (fail_with ''Failed to retrieve mailboxes'', w)
      | (Inr mailboxes, w) \<Rightarrow>
          (\<lparr>mr_Name = ''Mailbox/get'',
            mr_Result = JObj [(''accountId'', JStr (account_id (cl_UserID claims))),
              (''list'', JArr (map JMAPMailbox mailboxes)), (''notFound'', JArr [])],
            mr_CallID = []\<rparr>, w))"

definition handleMailboxQuery :: "'w jmap_env \<Rightarrow> Claims \<Rightarrow> MethodCall \<Rightarrow> 'w \<Rightarrow> MethodResponse \<times> 'w" where
  "handleMailboxQuery E claims call w =
     (case ListMailboxes (jm_mailboxReader E) (cl_UserID claims) w of
        (Inl err, w) \<Rightarrow> (fail_with ''Failed to query mailboxes'', w)
      | (Inr mailboxes, w) \<Rightarrow>
          (\<lparr>mr_Name = ''Mailbox/query'',
            mr_Result = JObj [(''accountId'', JStr (account_id (cl_UserID claims))),
              (''ids'', JArr (map (\<lambda>mb. JStr (''mb'' @ fmt_u (Mailbox_ID mb))) mailboxes)),
              (''position'', json_int 0), (''total'', json_int (int (length mailboxes)))],
            mr_CallID = []\<rparr>, w))"

definition handleEmailGet :: "'w jmap_env \<Rightarrow> Claims \<Rightarrow> MethodCall \<Rightarrow> 'w \<Rightarrow> MethodResponse \<times> 'w" where
  "handleEmailGet E claims call w =
     (case FindMailbox (jm_mailboxReader E) (cl_UserID claims) ''INBOX'' w of
        (Inl err, w) \<Rightarrow> (fail_with ''Failed to find inbox'', w)
      | (Inr inbox, w) \<Rightarrow>
     (case ListMessages (jm_messageReader E) (Mailbox_ID inbox) w of
        (Inl err, w) \<Rightarrow> (fail_with ''Failed to retrieve emails'', w)
      | (Inr messages, w) \<Rightarrow>
          (\<lparr>mr_Name = ''Email/get'',
            mr_Result = JObj [(''accountId'', JStr (account_id (cl_UserID claims))),
              (''list'', JArr (map JMAPEmail messages)), (''notFound'', JArr [])],
            mr_CallID = []\<rparr>, w)))"

definition handleEmailQuery :: "'w jmap_env \<Rightarrow> Claims \<Rightarrow> MethodCall \<Rightarrow> 'w \<Rightarrow> MethodResponse \<times> 'w" where
  "handleEmailQuery E claims call w =
     (case FindMailbox (jm_mailboxReader E) (cl_UserID claims) ''INBOX'' w of
        (Inl err, w) \<Rightarrow> (fail_with ''Failed to find inbox'', w)
      | (Inr inbox, w) \<Rightarrow>
     (case ListMessages (jm_messageReader E) (Mailbox_ID inbox) w of
        (Inl err, w) \<Rightarrow> (fail_with ''Failed to query emails'', w)
      | (Inr messages, w) \<Rightarrow>
          (\<lparr>mr_Name = ''Email/query'',
            mr_Result = JObj [(''accountId'', JStr (account_id (cl_UserID claims))),
              (''canCalculateChanges'', JBool False),
              (''ids'', JArr (map (\<lambda>msg. JStr (''e'' @ fmt_u (Message_ID msg))) messages)),
              (''position'', json_int 0), (''total'', json_int (int (length messages)))],
            mr_CallID = []\<rparr>, w)))"

definition jmap_dispatch :: "'w jmap_env \<Rightarrow> Claims \<Rightarrow> MethodCall \<Rightarrow> 'w \<Rightarrow> MethodResponse \<times> 'w" where
  "jmap_dispatch E claims call w =
     (if mc_Name call = ''Mailbox/get'' then handleMailboxGet E claims call w
      else if mc_Name call = ''Mailbox/query'' then handleMailboxQuery E claims call w
      else if mc_Name call = ''Email/get'' then handleEmailGet E claims call w
      else if mc_Name call = ''Email/query'' then handleEmailQuery E claims call w
      else (\<lparr>mr_Name = ''error'',
             mr_Result = jmap_Error ''unknownMethod'' (''method '' @ fmt_q (jm_unicode E) (mc_Name call) @ '' is not supported''),
             mr_CallID = mc_CallID call\<rparr>, w))"

subsubsection \<open>Handlers\<close>

fun jmap_calls :: "'w jmap_env \<Rightarrow> Claims \<Rightarrow> MethodCall list \<Rightarrow> 'w \<Rightarrow> MethodResponse list \<times> 'w" where
  "jmap_calls E claims [] w = ([], w)"
| "jmap_calls E claims (call # calls) w =
     (case jmap_dispatch E claims call w of
        (result, w) \<Rightarrow>
          (case jmap_calls E claims calls w of
             (results, w) \<Rightarrow>
               (\<lparr>mr_Name = mr_Name result, mr_Result = mr_Result result, mr_CallID = mc_CallID call\<rparr> # results, w)))"

text \<open>A slice that nothing was appended to is \<^verbatim>\<open>nil\<close>, which is written as null.\<close>

definition json_of_slice :: "json list \<Rightarrow> json" where
  "json_of_slice xs = (if xs = [] then JNull else JArr xs)"

definition Response :: "MethodResponse list \<Rightarrow> string \<Rightarrow> json" where
  "Response methodResponses sessionState =
     JObj [(''methodResponses'', json_of_slice (map MarshalJSON methodResponses)), (''sessionState'', JStr sessionState)]"

definition handleJMAP :: "'w jmap_env \<Rightarrow> Claims \<Rightarrow> http_request \<Rightarrow> 'w \<Rightarrow> http_response \<times> 'w" where
  "handleJMAP E claims r w =
     (case decode_request (req_Body r) of
        Inl err \<Rightarrow> (writeError 400 ''Invalid request body'', w)
      | Inr req \<Rightarrow>
          (case jmap_calls E claims (rq_MethodCalls req) w of
             (results, w) \<Rightarrow>
               (writeJSON 200 (Response results ''state-v1''), w)))"

definition authMiddleware ::
    "'w jmap_env \<Rightarrow> (Claims \<Rightarrow> http_request \<Rightarrow> 'w \<Rightarrow> http_response \<times> 'w) \<Rightarrow> http_request \<Rightarrow> 'w jmap_state
     \<Rightarrow> http_response \<times> 'w jmap_state" where
  "authMiddleware E handler r s =
     (case ExtractBearerToken (req_Authorization r) of
        Inl err \<Rightarrow> (writeError 401 ''Missing or invalid Authorization header'', s)
      | Inr tokenStr \<Rightarrow>
          (let now = jm_Now E (js_ticks s); s = s\<lparr>js_ticks := Suc (js_ticks s)\<rparr>
           in case ValidateToken (jm_jwt E) now tokenStr of
                Inl err \<Rightarrow> (writeError 401 ''Invalid or expired token'', s)
              | Inr claims \<Rightarrow>
                  (case handler claims r (js_store s) of (resp, w) \<Rightarrow> (resp, s\<lparr>js_store := w\<rparr>))))"

definition jmap_parseAddress :: "string \<Rightarrow> (string \<times> string) option" where
  "jmap_parseAddress addr =
     (case SplitN2 CHR ''@'' addr of
        [a, b] \<Rightarrow> if a = [] \<or> b = [] then None else Some (a, b)
      | _ \<Rightarrow> None)"

definition jmap_checkPassword :: "'w jmap_env \<Rightarrow> string \<Rightarrow> string \<Rightarrow> bool" where
  "jmap_checkPassword E password hash \<longleftrightarrow> jm_bcrypt E hash password = None"

definition handleAuth :: "'w jmap_env \<Rightarrow> http_request \<Rightarrow> 'w jmap_state \<Rightarrow> http_response \<times> 'w jmap_state" where
  "handleAuth E r s =
     (case decode_auth (req_Body r) of
        Inl err \<Rightarrow> (writeError 400 ''Invalid request body'', s)
      | Inr (username, password) \<Rightarrow>
     (case jmap_parseAddress username of
        None \<Rightarrow> (writeError 401 ''Invalid credentials'', s)
      | Some (localPart, domain) \<Rightarrow>
     (case FindDomain (jm_domainResolver E) domain (js_store s) of
        (Inl err, w) \<Rightarrow> (writeError 401 ''Invalid credentials'', s\<lparr>js_store := w\<rparr>)
      | (Inr d, w) \<Rightarrow>
     (case FindUser (jm_userAuth E) localPart (Domain_ID d) w of
        (Inl err, w) \<Rightarrow> (writeError 401 ''Invalid credentials'', s\<lparr>js_store := w\<rparr>)
      | (Inr user, w) \<Rightarrow>
          if \<not> jmap_checkPassword E password (User_PasswordHash user)
          then (writeError 401 ''Invalid credentials'', s\<lparr>js_store := w\<rparr>)
          else
     (case GenerateToken (jm_jwt E) (jm_Now E) (User_ID user) username (js_ticks s) of
        (Inl err, n) \<Rightarrow> (writeError 500 ''Failed to generate token'', s\<lparr>js_store := w, js_ticks := n\<rparr>)
      | (Inr token, n) \<Rightarrow>
          (writeJSON 200 (JObj [(''accountId'', JStr (account_id (User_ID user))), (''token'', JStr token)]),
           s\<lparr>js_store := w, js_ticks := n\<rparr>))))))"

definition session_user :: "'w jmap_env \<Rightarrow> http_request \<Rightarrow> 'w jmap_state \<Rightarrow> (string \<times> string) \<times> 'w jmap_state" where
  "session_user E r s =
     (case ExtractBearerToken (req_Authorization r) of
        Inl err \<Rightarrow> ((''anonymous'', ''anonymous''), s)
      | Inr tokenStr \<Rightarrow>
          (let s' = s\<lparr>js_ticks := Suc (js_ticks s)\<rparr>
           in case ValidateToken (jm_jwt E) (jm_Now E (js_ticks s)) tokenStr of
                Inl err \<Rightarrow> ((''anonymous'', ''anonymous''), s')
              | Inr claims \<Rightarrow> ((account_id (cl_UserID claims), cl_Username claims), s')))"

text \<open>The keys of a map are written in their order.\<close>

definition Account :: "string \<Rightarrow> bool \<Rightarrow> json \<Rightarrow> json" where
  "Account name isPersonal capabilities =
     JObj [(''name'', JStr name), (''isPersonal'', JBool isPersonal), (''accountCapabilities'', capabilities)]"

definition SessionResponse :: "json \<Rightarrow> json \<Rightarrow> json \<Rightarrow> string \<Rightarrow> string \<Rightarrow> string \<Rightarrow> json" where
  "SessionResponse capabilities accounts primaryAccounts username apiURL state =
     JObj [(''capabilities'', capabilities), (''accounts'', accounts), (''primaryAccounts'', primaryAccounts),
           (''username'', JStr username), (''apiUrl'', JStr apiURL), (''state'', JStr state)]"

definition session_json :: "'w jmap_env \<Rightarrow> string \<Rightarrow> string \<Rightarrow> json" where
  "session_json E accountID username =
     SessionResponse
       (JObj [(CapabilityCore, JObj
                [(''maxCallsInRequest'', json_int 16), (''maxConcurrentRequests'', json_int 4),
                 (''maxConcurrentUpload'', json_int 4), (''maxObjectsInGet'', json_int 500), (''maxObjectsInSet'', json_int 500),
                 (''maxSizeRequest'', json_int (10 * 1024 * 1024)), (''maxSizeUpload'', json_int (50 * 1024 * 1024))]),
              (CapabilityMail, JObj [])])
       (JObj [(accountID, Account username True (JObj [(CapabilityMail, JObj [])]))])
       (JObj [(CapabilityMail, JStr accountID)])
       username (''http://'' @ JMAP_Addr (cfg_JMAP (jm_cfg E)) @ ''/jmap'') ''state-v1''"

definition handleSession :: "'w jmap_env \<Rightarrow> http_request \<Rightarrow> 'w jmap_state \<Rightarrow> http_response \<times> 'w jmap_state" where
  "handleSession E r s =
     (case session_user E r s of
        ((accountID, username), s) \<Rightarrow> (writeJSON 200 (session_json E accountID username), s))"

text \<open>
  The routes that \<^verbatim>\<open>NewServer\<close> registers; the router answers any other request itself. Every request goes
  through the log, which reads the status of the response and passes it on.
\<close>

definition logMiddleware :: "('q \<Rightarrow> 'w jmap_state \<Rightarrow> http_response \<times> 'w jmap_state) \<Rightarrow> 'q \<Rightarrow> 'w jmap_state \<Rightarrow> http_response \<times> 'w jmap_state" where
  "logMiddleware next_handler r s = next_handler r s"

datatype http_method = GET | POST | OtherVerb string

definition jmap_serve ::
    "'w jmap_env \<Rightarrow> http_method \<Rightarrow> string \<Rightarrow> http_request \<Rightarrow> 'w jmap_state \<Rightarrow> (http_response \<times> 'w jmap_state) option" where
  "jmap_serve E verb path r s =
     (if verb = GET \<and> path = ''/.well-known/jmap'' then Some (logMiddleware (handleSession E) r s)
      else if verb = POST \<and> path = ''/auth'' then Some (logMiddleware (handleAuth E) r s)
      else if verb = POST \<and> path = ''/jmap'' then Some (logMiddleware (authMiddleware E (handleJMAP E)) r s)
      else None)"

subsection \<open>What the code relies on\<close>

text \<open>
  \<open>verifies alg k c t\<close>: the token \<open>t\<close> carries the claims \<open>c\<close> and its signature verifies for the method and
  the key. A token carries one set of claims. Signing makes such a token, which parses back until
  it expires (for names in ASCII, which JSON keeps as they are); parsing succeeds only for a token
  that verifies for a key the caller supplied and that has not expired. A token is written in ASCII.
\<close>

definition ascii :: "string \<Rightarrow> bool" where
  "ascii s \<longleftrightarrow> list_all (\<lambda>c. (of_char c :: nat) < 128) s"

definition jwt_contract :: "jwt_lib \<Rightarrow> (jwt_alg \<Rightarrow> string \<Rightarrow> Claims \<Rightarrow> string \<Rightarrow> bool) \<Rightarrow> bool" where
  "jwt_contract L verifies \<longleftrightarrow>
     (\<forall>k c t. jwt_Sign L k c = Inr t \<longrightarrow> verifies (SigningMethodHMAC ''HS256'') k c t)
     \<and> (\<forall>k c t now kf. jwt_Sign L k c = Inr t \<longrightarrow> ascii (cl_Username c) \<longrightarrow> kf (SigningMethodHMAC ''HS256'') = Inr k \<longrightarrow>
          (\<forall>e. cl_ExpiresAt c = Some e \<longrightarrow> now < e) \<longrightarrow>
          jwt_Parse L now t kf = Inr \<lparr>tok_Claims = c, tok_Valid = True\<rparr>)
     \<and> (\<forall>now t kf tok. jwt_Parse L now t kf = Inr tok \<longrightarrow> tok_Valid tok
          \<and> (\<exists>alg k. kf alg = Inr k \<and> verifies alg k (tok_Claims tok) t)
          \<and> (\<forall>e. cl_ExpiresAt (tok_Claims tok) = Some e \<longrightarrow> now < e))
     \<and> (\<forall>a k c a' k' c' t. verifies a k c t \<longrightarrow> verifies a' k' c' t \<longrightarrow> c = c')
     \<and> (\<forall>k c t. jwt_Sign L k c = Inr t \<longrightarrow> ascii t)"

text \<open>A library that knows one token, for user 1 from time 0 on.\<close>

definition plain_claims :: Claims where
  "plain_claims = \<lparr>cl_UserID = 1, cl_Username = ''test@gomail.local'', cl_ExpiresAt = Some tokenTTL,
     cl_IssuedAt = Some 0, cl_Issuer = ''gomail-core''\<rparr>"

definition plain_jwt :: jwt_lib where
  "plain_jwt =
     \<lparr>jwt_Sign = (\<lambda>k c. if k = jwtSecret \<and> c = plain_claims then Inr ''token'' else Inl (ErrExternal ''cannot sign'')),
      jwt_Parse = (\<lambda>now t kf.
        if t = ''token'' \<and> kf (SigningMethodHMAC ''HS256'') = Inr jwtSecret \<and> now < tokenTTL
        then Inr \<lparr>tok_Claims = plain_claims, tok_Valid = True\<rparr> else Inl (ErrExternal ''invalid''))\<rparr>"

definition plain_signed :: "jwt_alg \<Rightarrow> string \<Rightarrow> Claims \<Rightarrow> string \<Rightarrow> bool" where
  "plain_signed alg k c t \<longleftrightarrow> alg = SigningMethodHMAC ''HS256'' \<and> k = jwtSecret \<and> c = plain_claims \<and> t = ''token''"

lemma plain_jwt_contract: "jwt_contract plain_jwt plain_signed"
  unfolding jwt_contract_def plain_jwt_def plain_signed_def
  by (auto simp: plain_claims_def ascii_def split: if_splits)

lemmas jwt_signed = jwt_contract_def [THEN iffD1, THEN conjunct1, rule_format]
  and jwt_parses = jwt_contract_def [THEN iffD1, THEN conjunct2, THEN conjunct1, rule_format]
  and jwt_sound = jwt_contract_def [THEN iffD1, THEN conjunct2, THEN conjunct2, THEN conjunct1, rule_format]
  and jwt_one = jwt_contract_def [THEN iffD1, THEN conjunct2, THEN conjunct2, THEN conjunct2, THEN conjunct1, rule_format]
  and jwt_ascii = jwt_contract_def [THEN iffD1, THEN conjunct2, THEN conjunct2, THEN conjunct2, THEN conjunct2, rule_format]

lemma keyfunc_key: "jwt_keyfunc alg = Inr k \<Longrightarrow> k = jwtSecret \<and> (\<exists>a. alg = SigningMethodHMAC a)"
  by (auto simp: jwt_keyfunc_def split: jwt_alg.splits)

lemma ValidateToken_sound:
  assumes "jwt_contract L verifies" "ValidateToken L now t = Inr c"
  shows "\<exists>a. verifies (SigningMethodHMAC a) jwtSecret c t \<and> (\<forall>e. cl_ExpiresAt c = Some e \<longrightarrow> now < e)"
proof -
  obtain tok where p: "jwt_Parse L now t jwt_keyfunc = Inr tok" "tok_Claims tok = c"
    using assms(2) by (auto simp: ValidateToken_def split: sum.splits if_splits)
  then obtain alg k where "jwt_keyfunc alg = Inr k" "verifies alg k c t" "\<forall>e. cl_ExpiresAt c = Some e \<longrightarrow> now < e"
    using jwt_sound [OF assms(1) p(1)] by blast
  then show ?thesis using keyfunc_key by blast
qed

lemma ValidateToken_complete:
  assumes "jwt_contract L verifies" "jwt_Sign L jwtSecret c = Inr t" "ascii (cl_Username c)"
    and "\<forall>e. cl_ExpiresAt c = Some e \<longrightarrow> now < e"
  shows "ValidateToken L now t = Inr c"
proof -
  have "jwt_keyfunc (SigningMethodHMAC ''HS256'') = Inr jwtSecret" by (simp add: jwt_keyfunc_def)
  then have "jwt_Parse L now t jwt_keyfunc = Inr \<lparr>tok_Claims = c, tok_Valid = True\<rparr>"
    using jwt_parses [OF assms(1,2,3)] assms(4) by blast
  then show ?thesis by (simp add: ValidateToken_def)
qed

subsection \<open>The calls of a request\<close>

lemma json_elements_fresh: "(\<And>x. f (g x) zero = Inr x) \<Longrightarrow> json_elements f zero (map g xs) [] = Inr xs"
  by (induction xs) simp_all

lemma json_slice_fresh:
  "(\<And>x. f (g x) zero = Inr x) \<Longrightarrow> json_slice f zero (JArr (map g xs)) ([], 0) = Inr (xs, length xs)"
  using json_elements_fresh [of f g zero xs] by simp

lemma jmap_calls_ids: "map mr_CallID (fst (jmap_calls E claims calls w)) = map mc_CallID calls"
  by (induction calls arbitrary: w) (simp_all split: prod.split, metis fst_conv)

subsection \<open>What is written can be read\<close>

lemma readable_JMAPMailbox: "readable 3 (JMAPMailbox mb)"
  by (simp add: JMAPMailbox_def)

lemma readable_JMAPEmail: "readable 3 (JMAPEmail msg)"
  by (simp add: JMAPEmail_def Address_def)

lemma readable_dispatch: "readable 5 (mr_Result (fst (jmap_dispatch E claims call w)))"
  by (simp add: jmap_dispatch_def handleMailboxGet_def handleMailboxQuery_def handleEmailGet_def handleEmailQuery_def
      fail_with_def jmap_Error_def list_all_iff readable_JMAPMailbox readable_JMAPEmail split: prod.split sum.split)

lemma jmap_calls_readable: "list_all (\<lambda>m. readable 5 (mr_Result m)) (fst (jmap_calls E claims calls w))"
proof (induction calls arbitrary: w)
  case (Cons call calls)
  obtain m w1 where d: "jmap_dispatch E claims call w = (m, w1)" by fastforce
  then show ?case using Cons [of w1] readable_dispatch [of E claims call w] by (auto split: prod.split)
qed simp

lemma readable_Response:
  "list_all (\<lambda>m. readable 5 (mr_Result m)) results \<Longrightarrow> readable 8 (Response results st)"
  by (auto simp: Response_def json_of_slice_def MarshalJSON_def list_all_iff)

lemma readable_session_json: "readable 8 (session_json E accountID username)"
  by (simp add: session_json_def SessionResponse_def Account_def)

text \<open>A response whose body is one JSON value on a line.\<close>

definition json_response :: "http_response \<Rightarrow> bool" where
  "json_response resp \<longleftrightarrow> (\<exists>v. resp_Body resp = json_text v @ [LF] \<and> read_json (resp_Body resp) = Some (received v))"

lemma read_written: "readable 8 v \<Longrightarrow> read_json (resp_Body (writeJSON st v)) = Some (received v)"
  using readable_mono [of 8 v maxNestingDepth] read_json_text [of v "[LF]"]
  by (simp add: writeJSON_def maxNestingDepth_def is_digit_def)

lemma json_response_writeJSON: "readable 8 v \<Longrightarrow> json_response (writeJSON st v)"
  using read_written [of v st] by (auto simp: json_response_def writeJSON_def)

lemma json_response_writeError [simp]: "json_response (writeError st msg)"
  unfolding writeError_def by (rule json_response_writeJSON) simp

lemma handleSession_response: "json_response (fst (handleSession E r s))"
  by (simp add: handleSession_def json_response_writeJSON readable_session_json split: prod.split)

lemma handleAuth_response: "json_response (fst (handleAuth E r s))"
  by (simp add: handleAuth_def json_response_writeJSON split: prod.split sum.split option.split)

lemma handleJMAP_response: "json_response (fst (handleJMAP E claims r w))"
proof (cases "decode_request (req_Body r)")
  case (Inr req)
  obtain results w' where "jmap_calls E claims (rq_MethodCalls req) w = (results, w')" by fastforce
  then show ?thesis
    using Inr jmap_calls_readable [of E claims "rq_MethodCalls req" w]
    by (simp add: handleJMAP_def json_response_writeJSON readable_Response)
qed (simp add: handleJMAP_def)

lemma authMiddleware_response:
  "(\<And>claims w. json_response (fst (handler claims r w))) \<Longrightarrow> json_response (fst (authMiddleware E handler r s))"
  by (simp add: authMiddleware_def Let_def split: prod.split sum.split) (metis fst_conv)

context mail_reader
begin

lemma email_list_owned:
  assumes "jm_mailboxReader E = mbx" "jm_messageReader E = msg"
    and "handleEmailGet E claims call w = (resp, w')" "mr_Name resp = ''Email/get''"
  shows "\<exists>xs. mr_Result resp = JObj [(''accountId'', JStr (account_id (cl_UserID claims))),
      (''list'', JArr (map JMAPEmail xs)), (''notFound'', JArr [])]
    \<and> (\<forall>x \<in> set xs. owner w' (Message_MailboxID x) (cl_UserID claims)) \<and> sorted (map Message_UID xs)"
proof -
  obtain inbox w1 xs where f: "FindMailbox mbx (cl_UserID claims) ''INBOX'' w = (Inr inbox, w1)"
    and l: "ListMessages msg (Mailbox_ID inbox) w1 = (Inr xs, w')"
    and r: "mr_Result resp = JObj [(''accountId'', JStr (account_id (cl_UserID claims))),
      (''list'', JArr (map JMAPEmail xs)), (''notFound'', JArr [])]"
    using assms by (auto simp: handleEmailGet_def fail_with_def split: prod.splits sum.splits)
  then show ?thesis using found_then_listed [OF f l] messages_sorted [OF l] by blast
qed

lemma mailbox_list_owned:
  assumes "jm_mailboxReader E = mbx"
    and "handleMailboxGet E claims call w = (resp, w')" "mr_Name resp = ''Mailbox/get''"
  shows "\<exists>ms. mr_Result resp = JObj [(''accountId'', JStr (account_id (cl_UserID claims))),
      (''list'', JArr (map JMAPMailbox ms)), (''notFound'', JArr [])]
    \<and> (\<forall>m \<in> set ms. owner w' (Mailbox_ID m) (cl_UserID claims))"
proof -
  obtain ms where l: "ListMailboxes mbx (cl_UserID claims) w = (Inr ms, w')"
    and r: "mr_Result resp = JObj [(''accountId'', JStr (account_id (cl_UserID claims))),
      (''list'', JArr (map JMAPMailbox ms)), (''notFound'', JArr [])]"
    using assms by (auto simp: handleMailboxGet_def fail_with_def split: prod.splits sum.splits)
  have "owner w' = owner w" using list_keeps [of "cl_UserID claims" w] l by simp
  then show ?thesis using list_owned [OF l] r by metis
qed

end

end
