(* ===== verification/Jmap_Properties.thy ===== *)
theory Jmap_Properties
  imports Jmap Storage_Properties
begin

text \<open>
  The properties of the JMAP server, each with a run of the model where its hypotheses hold. The
  runs use \<open>demo_jmap\<close>, a server over the message store of theory \<open>Storage_Properties\<close> with the token
  library \<open>plain_jwt\<close>.
\<close>

definition demo_jmap :: "(string \<rightharpoonup> bytes) MessageStore jmap_env" where
  "demo_jmap =
     \<lparr>jm_cfg = Load (\<lambda>_. []), jm_mailboxReader = store_mailboxes demo_backend,
      jm_messageReader = store_messages demo_backend, jm_domainResolver = store_domains demo_backend,
      jm_userAuth = store_users demo_backend, jm_jwt = plain_jwt, jm_Now = (\<lambda>_. 0),
      jm_bcrypt = (\<lambda>hash password. if password = ''password'' then None else Some (ErrExternal ''mismatch'')),
      jm_unicode = ascii_tables\<rparr>"

definition demo_jmap_state :: "(string \<rightharpoonup> bytes) MessageStore jmap_state" where
  "demo_jmap_state = \<lparr>js_store = demo_store, js_ticks = 0\<rparr>"

subsection \<open>Tokens\<close>

text \<open>
  C10: a handler behind the middleware runs only for a request with a bearer token that verifies
  under the server's secret with an HMAC method and has not expired, and it runs for the user of that
  token; every other request is answered 401 and leaves the storage as it was.
\<close>

theorem jmap_token_required:
  assumes "jwt_contract (jm_jwt E) verifies" "authMiddleware E handler r s = (resp, s')"
  shows "resp_Status resp = 401 \<and> js_store s' = js_store s
    \<or> (\<exists>t a c. ExtractBearerToken (req_Authorization r) = Inr t
         \<and> verifies (SigningMethodHMAC a) jwtSecret c t
         \<and> (\<forall>e. cl_ExpiresAt c = Some e \<longrightarrow> jm_Now E (js_ticks s) < e)
         \<and> handler c r (js_store s) = (resp, js_store s'))"
proof (cases "ExtractBearerToken (req_Authorization r)")
  case (Inl e)
  with assms(2) show ?thesis by (auto simp: authMiddleware_def writeError_def writeJSON_def)
next
  case (Inr t)
  show ?thesis
  proof (cases "ValidateToken (jm_jwt E) (jm_Now E (js_ticks s)) t")
    case (Inl e)
    with assms(2) Inr show ?thesis by (auto simp: authMiddleware_def writeError_def writeJSON_def Let_def)
  next
    case c: (Inr c)
    have "handler c r (js_store s) = (resp, js_store s')"
      using assms(2) Inr c by (auto simp: authMiddleware_def Let_def split: prod.splits)
    then show ?thesis using ValidateToken_sound [OF assms(1) c] Inr by blast
  qed
qed

theorem jmap_token_required_witness:
  "\<exists>resp s'. authMiddleware demo_jmap (handleJMAP demo_jmap) \<lparr>req_Authorization = [], req_Body = []\<rparr> demo_jmap_state = (resp, s')
     \<and> resp_Status resp = 401 \<and> js_store s' = js_store demo_jmap_state"
proof -
  let ?r = "\<lparr>req_Authorization = [], req_Body = []\<rparr>"
  obtain resp s' where m: "authMiddleware demo_jmap (handleJMAP demo_jmap) ?r demo_jmap_state = (resp, s')" by fastforce
  have "jwt_contract (jm_jwt demo_jmap) plain_signed" by (simp add: demo_jmap_def plain_jwt_contract)
  from jmap_token_required [OF this m] show ?thesis using m by (auto simp: ExtractBearerToken_def)
qed

text \<open>
  A token handed out at login names the same user when it comes back within 24 hours, and is
  refused from then on.
\<close>

lemma token_round_trip:
  assumes "jwt_contract L verifies" "GenerateToken L now u name n = (Inr t, n')" "ascii name"
  shows "(later < now n + 24 * 3600 \<longrightarrow>
      (\<exists>c. ValidateToken L later t = Inr c \<and> cl_UserID c = u \<and> cl_Username c = name))
    \<and> (now n + 24 * 3600 \<le> later \<longrightarrow> (\<exists>err. ValidateToken L later t = Inl err))"
proof -
  let ?c = "\<lparr>cl_UserID = u, cl_Username = name, cl_ExpiresAt = Some (now n + tokenTTL),
      cl_IssuedAt = Some (now (Suc n)), cl_Issuer = ''gomail-core''\<rparr>"
  have sg: "jwt_Sign L jwtSecret ?c = Inr t" using assms(2) by (simp add: GenerateToken_def)
  have one: "ValidateToken L later t = Inr ?c" if "later < now n + 24 * 3600"
    using ValidateToken_complete [OF assms(1) sg] assms(3) that by (simp add: tokenTTL_def)
  have two: "c = ?c \<and> later < now n + tokenTTL" if v: "ValidateToken L later t = Inr c" for c
  proof -
    obtain a where "verifies (SigningMethodHMAC a) jwtSecret c t" and e: "\<forall>e. cl_ExpiresAt c = Some e \<longrightarrow> later < e"
      using ValidateToken_sound [OF assms(1) v] by blast
    moreover have "verifies (SigningMethodHMAC ''HS256'') jwtSecret ?c t"
      by (rule jwt_signed [OF assms(1) sg])
    ultimately have "c = ?c" using jwt_one [OF assms(1)] by blast
    with e show ?thesis by simp
  qed
  have "\<exists>err. ValidateToken L later t = Inl err" if "now n + 24 * 3600 \<le> later"
    using two that by (cases "ValidateToken L later t") (auto simp: tokenTTL_def)
  then show ?thesis using one by auto
qed

text \<open>What a login that is answered 200 has done.\<close>

lemma handleAuth_ok:
  assumes "handleAuth E r s = (resp, s')" "resp_Status resp = 200"
  obtains username password lp dn d w1 user w2 t n where
    "decode_auth (req_Body r) = Inr (username, password)" "jmap_parseAddress username = Some (lp, dn)"
    "FindDomain (jm_domainResolver E) dn (js_store s) = (Inr d, w1)" "FindUser (jm_userAuth E) lp (Domain_ID d) w1 = (Inr user, w2)"
    "jmap_checkPassword E password (User_PasswordHash user)"
    "GenerateToken (jm_jwt E) (jm_Now E) (User_ID user) username (js_ticks s) = (Inr t, n)"
    "resp = writeJSON 200 (JObj [(''accountId'', JStr (account_id (User_ID user))), (''token'', JStr t)])"
proof -
  note err = writeError_def writeJSON_def
  obtain username password where da: "decode_auth (req_Body r) = Inr (username, password)"
    using assms by (auto simp: handleAuth_def err split: sum.splits)
  obtain lp dn where pa: "jmap_parseAddress username = Some (lp, dn)"
    using assms da by (auto simp: handleAuth_def err split: option.splits)
  obtain d w1 where fd: "FindDomain (jm_domainResolver E) dn (js_store s) = (Inr d, w1)"
    using assms da pa by (auto simp: handleAuth_def err split: sum.splits prod.splits)
  obtain user w2 where fu: "FindUser (jm_userAuth E) lp (Domain_ID d) w1 = (Inr user, w2)"
    using assms da pa fd by (auto simp: handleAuth_def err split: sum.splits prod.splits)
  have pw: "jmap_checkPassword E password (User_PasswordHash user)"
    using assms da pa fd fu by (auto simp: handleAuth_def err split: if_splits)
  obtain t n where gt: "GenerateToken (jm_jwt E) (jm_Now E) (User_ID user) username (js_ticks s) = (Inr t, n)"
    and body: "resp = writeJSON 200 (JObj [(''accountId'', JStr (account_id (User_ID user))), (''token'', JStr t)])"
    using assms da pa fd fu pw by (auto simp: handleAuth_def err split: sum.splits prod.splits)
  show thesis using that [OF da pa fd fu pw gt body] .
qed

text \<open>
  C27: the login answers 200 only for a name and a password that the directory and bcrypt accept, and
  the token in the answer is signed with the server's secret for that user.
\<close>

theorem jmap_auth_exact:
  assumes "jwt_contract (jm_jwt E) verifies" "handleAuth E r s = (resp, s')" "resp_Status resp = 200"
  shows "\<exists>username password localPart domain d w1 user w2 t c a.
      decode_auth (req_Body r) = Inr (username, password)
    \<and> jmap_parseAddress username = Some (localPart, domain)
    \<and> FindDomain (jm_domainResolver E) domain (js_store s) = (Inr d, w1)
    \<and> FindUser (jm_userAuth E) localPart (Domain_ID d) w1 = (Inr user, w2)
    \<and> jmap_checkPassword E password (User_PasswordHash user)
    \<and> verifies (SigningMethodHMAC a) jwtSecret c t \<and> cl_UserID c = User_ID user \<and> cl_Username c = username
    \<and> resp_Body resp = json_text (JObj [(''accountId'', JStr (account_id (User_ID user))), (''token'', JStr t)]) @ [LF]"
  using assms(2,3)
proof (rule handleAuth_ok)
  fix username password lp dn d w1 user w2 t n
  assume h: "decode_auth (req_Body r) = Inr (username, password)" "jmap_parseAddress username = Some (lp, dn)"
    "FindDomain (jm_domainResolver E) dn (js_store s) = (Inr d, w1)" "FindUser (jm_userAuth E) lp (Domain_ID d) w1 = (Inr user, w2)"
    "jmap_checkPassword E password (User_PasswordHash user)"
    "GenerateToken (jm_jwt E) (jm_Now E) (User_ID user) username (js_ticks s) = (Inr t, n)"
    "resp = writeJSON 200 (JObj [(''accountId'', JStr (account_id (User_ID user))), (''token'', JStr t)])"
  obtain c where "jwt_Sign (jm_jwt E) jwtSecret c = Inr t" "cl_UserID c = User_ID user" "cl_Username c = username"
    using h(6) by (auto simp: GenerateToken_def)
  moreover from this have "verifies (SigningMethodHMAC ''HS256'') jwtSecret c t"
    using jwt_signed [OF assms(1)] by blast
  moreover have "resp_Body resp = json_text (JObj [(''accountId'', JStr (account_id (User_ID user))), (''token'', JStr t)]) @ [LF]"
    by (simp only: h(7) writeJSON_def http_response.select_convs)
  ultimately show ?thesis using h(1-5) by blast
qed

definition demo_login :: http_request where
  "demo_login = \<lparr>req_Authorization = [],
     req_Body = json_text (JObj [(''username'', JStr ''test@gomail.local''), (''password'', JStr ''password'')])\<rparr>"

lemma decode_demo_login: "decode_auth (req_Body demo_login) = Inr (''test@gomail.local'', ''password'')"
proof -
  let ?v = "JObj [(''username'', JStr ''test@gomail.local''), (''password'', JStr ''password'')]"
  have "received ?v = ?v" by code_simp
  then have "read_json (json_text ?v) = Some ?v"
    using read_json_text [of ?v "[]"] by (simp add: maxNestingDepth_def)
  moreover have "auth_fields [(''username'', JStr ''test@gomail.local''), (''password'', JStr ''password'')] ([], [])
    = Inr (''test@gomail.local'', ''password'')"
    by code_simp
  ultimately show ?thesis by (simp add: decode_auth_def demo_login_def)
qed

lemma demo_auth:
  "\<exists>s'. handleAuth demo_jmap demo_login demo_jmap_state =
     (writeJSON 200 (JObj [(''accountId'', JStr (account_id 1)), (''token'', JStr ''token'')]), s')"
proof -
  have "jmap_parseAddress ''test@gomail.local'' = Some (''test'', ''gomail.local'')" by code_simp
  then show ?thesis
    by (simp add: handleAuth_def demo_jmap_def demo_jmap_state_def jmap_checkPassword_def store_domains_def store_users_def
        storage_FindDomain_def storage_FindUser_def map_result_def to_Domain_def to_User_def run_sql Let_def
        demo_backend_def demo_store_def demo_db_def GenerateToken_def plain_jwt_def plain_claims_def decode_demo_login)
qed

theorem jmap_auth_exact_witness:
  "\<exists>resp s' t. handleAuth demo_jmap demo_login demo_jmap_state = (resp, s')
     \<and> resp_Body resp = json_text (JObj [(''accountId'', JStr (account_id 1)), (''token'', JStr t)]) @ [LF]"
proof -
  obtain s' where a: "handleAuth demo_jmap demo_login demo_jmap_state =
     (writeJSON 200 (JObj [(''accountId'', JStr (account_id 1)), (''token'', JStr ''token'')]), s')"
    using demo_auth by blast
  have "jwt_contract (jm_jwt demo_jmap) plain_signed" by (simp add: demo_jmap_def plain_jwt_contract)
  from jmap_auth_exact [OF this a] have "resp_Body (writeJSON 200 (JObj [(''accountId'', JStr (account_id 1)), (''token'', JStr ''token'')]))
      = json_text (JObj [(''accountId'', JStr (account_id 1)), (''token'', JStr ''token'')]) @ [LF]"
    by (simp add: writeJSON_def)
  then show ?thesis using a by blast
qed

lemma ExtractBearerToken_bearer: "ExtractBearerToken (''Bearer '' @ t) = Inr t"
proof -
  have "SplitN2 SPC (''Bearer'' @ SPC # t) = [''Bearer'', t]" by (rule SplitN2_found) simp
  moreover have "EqualFold_ascii ''Bearer'' ''Bearer''" by code_simp
  ultimately show ?thesis by (simp add: ExtractBearerToken_def)
qed

lemma ascii_account_id: "ascii (account_id u)"
  using fmt_nat_digits [of "unat u"] by (auto simp: ascii_def account_id_def fmt_u_def list_all_iff)

lemma read_login_answer:
  assumes "read_json (resp_Body (writeJSON 200 (JObj [(''accountId'', JStr (account_id u)), (''token'', JStr t)])))
      = Some (JObj [(''accountId'', JStr aid), (''token'', JStr t')])" "ascii t"
  shows "aid = account_id u \<and> t' = t"
proof -
  have "valid_utf8 (account_id u) = account_id u" "valid_utf8 t = t"
    using ascii_account_id [of u] assms(2) valid_utf8_ascii by (simp_all add: ascii_def)
  then show ?thesis using assms(1) by (simp add: read_written)
qed

text \<open>
  C28: the token a client reads from the answer to its login opens the server for 24 hours: a request that bears
  it runs for the account that the answer names, under the name that logged in; from then on it is answered 401
  and changes nothing.
\<close>

theorem jmap_login_opens:
  assumes "jwt_contract (jm_jwt E) verifies" "handleAuth E r s = (resp, s')" "resp_Status resp = 200"
    and "decode_auth (req_Body r) = Inr (username, password)" "ascii username"
    and "read_json (resp_Body resp) = Some (JObj [(''accountId'', JStr accountId), (''token'', JStr t)])"
    and "req_Authorization r2 = ''Bearer '' @ t"
  shows "\<exists>claims. account_id (cl_UserID claims) = accountId \<and> cl_Username claims = username
    \<and> (jm_Now E (js_ticks s2) < jm_Now E (js_ticks s) + 24 * 3600 \<longrightarrow>
        authMiddleware E handler r2 s2 =
          (case handler claims r2 (js_store s2) of (resp2, w) \<Rightarrow> (resp2, s2\<lparr>js_ticks := Suc (js_ticks s2), js_store := w\<rparr>)))
    \<and> (jm_Now E (js_ticks s) + 24 * 3600 \<le> jm_Now E (js_ticks s2) \<longrightarrow>
        resp_Status (fst (authMiddleware E handler r2 s2)) = 401 \<and> js_store (snd (authMiddleware E handler r2 s2)) = js_store s2)"
  using assms(2,3)
proof (rule handleAuth_ok)
  fix username' password' lp dn d w1 user w2 t' n
  assume h: "decode_auth (req_Body r) = Inr (username', password')"
    "GenerateToken (jm_jwt E) (jm_Now E) (User_ID user) username' (js_ticks s) = (Inr t', n)"
    "resp = writeJSON 200 (JObj [(''accountId'', JStr (account_id (User_ID user))), (''token'', JStr t')])"
  have "ascii t'" using jwt_ascii [OF assms(1)] h(2) by (auto simp: GenerateToken_def)
  then have a: "accountId = account_id (User_ID user)" "t' = t" using read_login_answer assms(6) h(3) by blast+
  let ?now = "jm_Now E (js_ticks s2)" and ?expiry = "jm_Now E (js_ticks s) + 24 * 3600"
  have b: "ExtractBearerToken (req_Authorization r2) = Inr t" unfolding assms(7) by (rule ExtractBearerToken_bearer)
  have g: "GenerateToken (jm_jwt E) (jm_Now E) (User_ID user) username (js_ticks s) = (Inr t, n)"
    using h(1,2) a(2) assms(4) by simp
  note v = token_round_trip [OF assms(1) g assms(5), of ?now]
  show ?thesis
  proof (cases "?now < ?expiry")
    case True
    then obtain c where "ValidateToken (jm_jwt E) ?now t = Inr c" "cl_UserID c = User_ID user" "cl_Username c = username" using v by auto
    then show ?thesis using True a b by (intro exI [of _ c]) (simp add: authMiddleware_def split: prod.split)
  next
    case False
    then obtain err where "ValidateToken (jm_jwt E) ?now t = Inl err" using v by auto
    then show ?thesis
      using False a b
      by (intro exI [of _ "plain_claims\<lparr>cl_UserID := User_ID user, cl_Username := username\<rparr>"])
        (simp add: authMiddleware_def writeError_def writeJSON_def)
  qed
qed

definition demo_bearer :: http_request where
  "demo_bearer = \<lparr>req_Authorization = ''Bearer token'', req_Body = []\<rparr>"

theorem jmap_login_opens_witness:
  "\<exists>resp s' claims. handleAuth demo_jmap demo_login demo_jmap_state = (resp, s')
     \<and> account_id (cl_UserID claims) = account_id 1
     \<and> authMiddleware demo_jmap (handleJMAP demo_jmap) demo_bearer s' =
          (case handleJMAP demo_jmap claims demo_bearer (js_store s') of (resp2, w) \<Rightarrow> (resp2, s'\<lparr>js_ticks := Suc (js_ticks s'), js_store := w\<rparr>))"
proof -
  let ?v = "JObj [(''accountId'', JStr (account_id 1)), (''token'', JStr ''token'')]"
  obtain s' where a: "handleAuth demo_jmap demo_login demo_jmap_state = (writeJSON 200 ?v, s')" using demo_auth by blast
  have "valid_utf8 (account_id 1) = account_id 1" using ascii_account_id [of 1] valid_utf8_ascii by (simp add: ascii_def)
  then have v: "read_json (resp_Body (writeJSON 200 ?v)) = Some ?v" by (simp add: read_written valid_utf8_ascii)
  have c: "jwt_contract (jm_jwt demo_jmap) plain_signed" "resp_Status (writeJSON 200 ?v) = 200" "ascii ''test@gomail.local''"
    "req_Authorization demo_bearer = ''Bearer '' @ ''token''" "jm_Now demo_jmap n = 0" for n
    by (simp_all add: demo_jmap_def plain_jwt_contract writeJSON_def ascii_def demo_bearer_def)
  from jmap_login_opens [OF c(1) a c(2) decode_demo_login c(3) v c(4), of s' "handleJMAP demo_jmap"]
  show ?thesis using a c(5) by (elim exE conjE) (intro exI conjI; simp)
qed

subsection \<open>Calls\<close>

definition call_json :: "MethodCall \<Rightarrow> json" where
  "call_json c = JArr [JStr (mc_Name c), (case mc_Args c of None \<Rightarrow> JNull | Some a \<Rightarrow> JObj a), JStr (mc_CallID c)]"

definition request_json :: "string list \<Rightarrow> MethodCall list \<Rightarrow> json" where
  "request_json u calls = JObj [(''using'', JArr (map JStr u)), (''methodCalls'', JArr (map call_json calls))]"

lemma Unmarshal_call_json: "floats_fit (call_json c) \<Longrightarrow> UnmarshalJSON (call_json c) no_call = Inr c"
  by (cases "mc_Args c") (simp_all add: UnmarshalJSON_def call_json_def no_call_def)

lemma decode_request_json:
  assumes "read_json body = Some (request_json u calls)" "\<forall>c \<in> set calls. floats_fit (call_json c)"
  shows "decode_request body = Inr \<lparr>rq_Using = u, rq_MethodCalls = calls\<rparr>"
proof -
  have fold: "EqualFold_ascii ''using'' ''using''" "\<not> EqualFold_ascii ''methodCalls'' ''using''" "EqualFold_ascii ''methodCalls'' ''methodCalls''"
    by code_simp+
  have "json_elements UnmarshalJSON no_call (map call_json calls) [] = Inr calls"
    using assms(2) by (induction calls) (simp_all add: Unmarshal_call_json)
  then have "json_slice UnmarshalJSON no_call (JArr (map call_json calls)) ([], 0) = Inr (calls, length calls)" by simp
  moreover have "json_slice json_string [] (JArr (map JStr u)) ([], 0) = Inr (u, length u)"
    by (rule json_slice_fresh) simp
  ultimately show ?thesis
    using fold assms(1) by (simp add: decode_request_def request_json_def del: json_slice.simps)
qed

text \<open>The identifiers of a request that was read are UTF-8 already.\<close>

lemma read_ids_valid:
  assumes "read_json body = Some (request_json u calls)" "c \<in> set calls"
  shows "valid_utf8 (mc_CallID c) = mc_CallID c"
proof -
  have "received (request_json u calls) = request_json u calls"
    using read_json_again [OF assms(1)] by simp
  then have "map (received \<circ> call_json) calls = map call_json calls" by (simp add: request_json_def)
  then have "received (call_json c) = call_json c" using assms(2) by (simp add: map_eq_conv)
  then show ?thesis by (simp add: call_json_def)
qed

text \<open>
  C29: every call of a request is answered once, in the order of the request; the client reads the
  answers from the body, each with the identifier it gave the call.
\<close>

theorem jmap_responses_in_order:
  assumes "read_json (req_Body r) = Some (request_json u calls)" "calls \<noteq> []" "\<forall>c \<in> set calls. floats_fit (call_json c)"
    and "handleJMAP E claims r w = (resp, w')"
  shows "resp_Status resp = 200
    \<and> (\<exists>results. jmap_calls E claims calls w = (results, w') \<and> map mr_CallID results = map mc_CallID calls
         \<and> read_json (resp_Body resp) = Some (JObj
             [(''methodResponses'',
               JArr (map (\<lambda>m. JArr [JStr (valid_utf8 (mr_Name m)), received (mr_Result m), JStr (mr_CallID m)]) results)),
              (''sessionState'', JStr ''state-v1'')]))"
proof -
  obtain results w1 where run: "jmap_calls E claims calls w = (results, w1)" by fastforce
  have ids: "map mr_CallID results = map mc_CallID calls"
    using jmap_calls_ids [of E claims calls w] run by simp
  have resp: "resp = writeJSON 200 (Response results ''state-v1'')" "w' = w1"
    using assms(4) run decode_request_json [OF assms(1,3)] by (simp_all add: handleJMAP_def)
  have "valid_utf8 (mr_CallID m) = mr_CallID m" if "m \<in> set results" for m
  proof -
    have "mr_CallID m \<in> mc_CallID ` set calls" using that ids by (metis image_eqI image_set)
    then show ?thesis using read_ids_valid [OF assms(1)] by auto
  qed
  moreover have "results \<noteq> []" using assms(2) ids by auto
  moreover have "valid_utf8 s = s" if "s \<in> {''methodResponses'', ''sessionState'', ''state-v1''}" for s
    using that by (auto simp: valid_utf8_ascii)
  ultimately have "received (Response results ''state-v1'') = JObj
      [(''methodResponses'', JArr (map (\<lambda>m. JArr [JStr (valid_utf8 (mr_Name m)), received (mr_Result m), JStr (mr_CallID m)]) results)),
       (''sessionState'', JStr ''state-v1'')]"
    by (simp add: Response_def json_of_slice_def MarshalJSON_def)
  then show ?thesis
    using run ids resp read_written [OF readable_Response, of results 200 "''state-v1''"] jmap_calls_readable [of E claims calls w]
    by (simp add: writeJSON_def)
qed

definition demo_calls :: "MethodCall list" where
  "demo_calls = [\<lparr>mc_Name = ''Mailbox/get'', mc_Args = None, mc_CallID = ''c1''\<rparr>,
     \<lparr>mc_Name = ''Email/get'', mc_Args = Some [], mc_CallID = ''c2''\<rparr>]"

definition demo_request :: http_request where
  "demo_request = \<lparr>req_Authorization = ''Bearer token'', req_Body = json_text (request_json [CapabilityMail] demo_calls)\<rparr>"

lemma read_demo_request: "read_json (req_Body demo_request) = Some (request_json [CapabilityMail] demo_calls)"
proof -
  have "received (request_json [CapabilityMail] demo_calls) = request_json [CapabilityMail] demo_calls" by code_simp
  moreover have "readable maxNestingDepth (request_json [CapabilityMail] demo_calls)"
    by (simp add: request_json_def call_json_def demo_calls_def maxNestingDepth_def)
  ultimately show ?thesis using read_json_text [of "request_json [CapabilityMail] demo_calls" "[]"] by (simp add: demo_request_def)
qed

theorem jmap_responses_in_order_witness:
  "\<exists>resp w' (results :: MethodResponse list). handleJMAP demo_jmap plain_claims demo_request demo_store = (resp, w') \<and> resp_Status resp = 200
     \<and> map mr_CallID results = [''c1'', ''c2'']
     \<and> read_json (resp_Body resp) = Some (JObj
          [(''methodResponses'',
            JArr (map (\<lambda>m. JArr [JStr (valid_utf8 (mr_Name m)), received (mr_Result m), JStr (mr_CallID m)]) results)),
           (''sessionState'', JStr ''state-v1'')])"
proof -
  obtain resp w' where h: "handleJMAP demo_jmap plain_claims demo_request demo_store = (resp, w')" by fastforce
  have c: "demo_calls \<noteq> []" "\<forall>c \<in> set demo_calls. floats_fit (call_json c)" by (simp_all add: demo_calls_def call_json_def)
  have ids: "map mc_CallID demo_calls = [''c1'', ''c2'']" by (simp add: demo_calls_def)
  from jmap_responses_in_order [OF read_demo_request c h, unfolded ids] h show ?thesis
    by (elim conjE exE) (intro exI conjI; assumption)
qed

text \<open>
  C30: whatever is asked, each route answers with one of four statuses and with a body that is one JSON value and a
  line end; what a client reads from it is the value that was written, up to bytes that are no UTF-8.
\<close>

theorem jmap_serve_writes_json:
  assumes "jmap_serve E verb path r s = Some (resp, s')"
  shows "resp_Status resp \<in> {200, 400, 401, 500}
    \<and> (\<exists>v. resp_Body resp = json_text v @ [LF] \<and> read_json (resp_Body resp) = Some (received v))"
proof -
  have "json_response (fst (authMiddleware E (handleJMAP E) r s))" by (rule authMiddleware_response) (rule handleJMAP_response)
  then have "json_response resp"
    using assms handleSession_response [of E r s] handleAuth_response [of E r s]
    by (auto simp: jmap_serve_def logMiddleware_def split: if_splits)
  moreover have "resp_Status resp \<in> {200, 400, 401, 500}"
    using assms unfolding jmap_serve_def logMiddleware_def
    by (auto simp: handleSession_def handleAuth_def authMiddleware_def handleJMAP_def writeError_def writeJSON_def Let_def
        split: if_splits prod.splits sum.splits option.splits)
  ultimately show ?thesis by (simp add: json_response_def)
qed

theorem jmap_serve_writes_json_witness:
  "\<exists>resp s' v. jmap_serve demo_jmap POST ''/auth'' demo_login demo_jmap_state = Some (resp, s')
     \<and> resp_Body resp = json_text v @ [LF] \<and> read_json (resp_Body resp) = Some (received v)"
proof -
  obtain resp s' where h: "jmap_serve demo_jmap POST ''/auth'' demo_login demo_jmap_state = Some (resp, s')"
    using demo_auth by (auto simp: jmap_serve_def logMiddleware_def)
  show ?thesis using jmap_serve_writes_json [OF h] h by auto
qed

text \<open>
  A request without calls is answered with a null in place of the array of responses.
\<close>

lemma jmap_no_calls_null:
  assumes "decode_request (req_Body r) = Inr req" "rq_MethodCalls req = []"
  shows "handleJMAP E claims r w =
    (writeJSON 200 (JObj [(''methodResponses'', JNull), (''sessionState'', JStr ''state-v1'')]), w)"
  using assms by (simp add: handleJMAP_def Response_def json_of_slice_def)

lemma jmap_no_calls_null_run:
  "handleJMAP demo_jmap plain_claims \<lparr>req_Authorization = [], req_Body = ''{}''\<rparr> demo_store =
    (writeJSON 200 (JObj [(''methodResponses'', JNull), (''sessionState'', JStr ''state-v1'')]), demo_store)"
proof (rule jmap_no_calls_null [where req = "\<lparr>rq_Using = [], rq_MethodCalls = []\<rparr>"])
  have "read_json ''{}'' = Some (JObj [])" using read_json_text [of "JObj []" "[]"] by (simp add: maxNestingDepth_def)
  then show "decode_request (req_Body \<lparr>req_Authorization = [], req_Body = ''{}''\<rparr>) = Inr \<lparr>rq_Using = [], rq_MethodCalls = []\<rparr>"
    by (simp add: decode_request_def)
qed simp

end
