(* ===== verification/Server.thy ===== *)
theory Server
  imports Smtp Imap Jmap Storage
begin

text \<open>
  The servers around the sessions: \<^verbatim>\<open>internal/smtp/server.go\<close>, \<^verbatim>\<open>internal/imap/server.go\<close> (listeners and accept
  loops) and the start-up of \<^verbatim>\<open>cmd/smtp\<close>, \<^verbatim>\<open>cmd/imap\<close> and \<^verbatim>\<open>cmd/jmap\<close>.

  Opening a listener, a connection to a store or a logger is outside of the repository: each is a
  parameter that gives an error or succeeds. A listener is the list of what \<^verbatim>\<open>Accept\<close> returns; with an error comes
  whether the context was done by then. The connections of \<^verbatim>\<open>net.Listen\<close> are plain, those of \<^verbatim>\<open>tls.Listen\<close> are
  \<^verbatim>\<open>*tls.Conn\<close>; the SMTP session finds out which it has, the IMAP session is told. A connection's session is started on a goroutine of its own,
  so the loops return the goroutines to run, each as the pair of the session with the environment it
  runs in, not their results; theory \<open>Mail_System\<close> runs them against each other.
\<close>

datatype net_conn = TCPConn stream | TLSConn stream

primrec conn_stream :: "net_conn \<Rightarrow> stream" where
  "conn_stream (TCPConn c) = c"
| "conn_stream (TLSConn c) = c"

primrec is_tls_Conn :: "net_conn \<Rightarrow> bool" where
  "is_tls_Conn (TCPConn c) = False"
| "is_tls_Conn (TLSConn c) = True"

datatype 'c accept_result = Accepted 'c | AcceptErr bool

fun acceptLoop :: "('c \<Rightarrow> 's) \<Rightarrow> 'c accept_result list \<Rightarrow> 's list" where
  "acceptLoop session [] = []"
| "acceptLoop session (Accepted c # rs) = session c # acceptLoop session rs"
| "acceptLoop session (AcceptErr done_now # rs) = (if done_now then [] else acceptLoop session rs)"

record listening =
  lst_plain :: "string \<Rightarrow> go_error option"
  lst_tls :: "string \<Rightarrow> string tls_config \<Rightarrow> go_error option"
  acc_plain :: "stream accept_result list"
  acc_tls :: "stream accept_result list"

text \<open>The plain listener, the TLS listener when there is a TLS configuration, and the two accept loops.\<close>

definition Start ::
    "string \<Rightarrow> string \<Rightarrow> string tls_config option \<Rightarrow> (bool \<Rightarrow> net_conn accept_result list \<Rightarrow> 's list) \<Rightarrow> listening \<Rightarrow> 's list result" where
  "Start addr addrTLS tlsCfg loop net =
     (case lst_plain net addr of
        Some err \<Rightarrow> Inl err
      | None \<Rightarrow>
          (case tlsCfg of
             None \<Rightarrow> Inr (loop False (map (map_accept_result TCPConn) (acc_plain net)))
           | Some tc \<Rightarrow>
               (case lst_tls net addrTLS tc of
                  Some err \<Rightarrow> Inl err
                | None \<Rightarrow>
                    Inr (loop True (map (map_accept_result TLSConn) (acc_tls net))
                         @ loop False (map (map_accept_result TCPConn) (acc_plain net))))))"

subsection \<open>The SMTP server\<close>

record 'w smtp_Server =
  ss_cfg :: Config
  ss_delivery :: "'w DeliveryPipeline"
  ss_tlsCfg :: "string tls_config option"

definition smtp_NewServer :: "Config \<Rightarrow> 'w DeliveryPipeline \<Rightarrow> string tls_config option \<Rightarrow> 'w smtp_Server" where
  "smtp_NewServer cfg delivery tlsCfg = \<lparr>ss_cfg = cfg, ss_delivery = delivery, ss_tlsCfg = tlsCfg\<rparr>"

record smtp_libs =
  sl_Event :: "(smtp_State, SMTPEvent) fsm_Event"
  sl_Handshake :: "string tls_config \<Rightarrow> stream \<Rightarrow> nat \<times> stream option"
  sl_Now :: "nat \<Rightarrow> time"

text \<open>What a session gets of its server, beside the connection.\<close>

definition smtp_env_of :: "smtp_libs \<Rightarrow> 'w smtp_Server \<Rightarrow> 'w smtp_env" where
  "smtp_env_of L srv = \<lparr>smtp_cfg = ss_cfg srv, smtp_tlsCfg = ss_tlsCfg srv, smtp_delivery = ss_delivery srv,
     smtp_Event = sl_Event L, smtp_Handshake = sl_Handshake L, smtp_Now = sl_Now L\<rparr>"

text \<open>The flag of the listener is only logged.\<close>

definition smtp_acceptLoop ::
    "smtp_libs \<Rightarrow> 'w smtp_Server \<Rightarrow> 'w \<Rightarrow> bool \<Rightarrow> net_conn accept_result list \<Rightarrow> ('w smtp_env \<times> 'w smtp_session) list" where
  "smtp_acceptLoop L srv w overTLS =
     acceptLoop (\<lambda>c. (smtp_env_of L srv, smtp_NewSession (conn_stream c) (is_tls_Conn c) w))"

definition smtp_Start :: "smtp_libs \<Rightarrow> 'w smtp_Server \<Rightarrow> listening \<Rightarrow> 'w \<Rightarrow> ('w smtp_env \<times> 'w smtp_session) list result" where
  "smtp_Start L srv net w =
     Start (SMTP_Addr (cfg_SMTP (ss_cfg srv))) (SMTP_AddrTLS (cfg_SMTP (ss_cfg srv))) (ss_tlsCfg srv)
       (smtp_acceptLoop L srv w) net"

subsection \<open>The IMAP server\<close>

record 'w imap_Server =
  is_cfg :: Config
  is_mailboxReader :: "'w MailboxReader"
  is_messageReader :: "'w MessageReader"
  is_domainResolver :: "'w DomainResolver"
  is_userAuth :: "'w UserAuthenticator"
  is_tlsCfg :: "string tls_config option"

definition imap_NewServer ::
    "Config \<Rightarrow> 'w MailboxReader \<Rightarrow> 'w MessageReader \<Rightarrow> 'w DomainResolver \<Rightarrow> 'w UserAuthenticator
     \<Rightarrow> string tls_config option \<Rightarrow> 'w imap_Server" where
  "imap_NewServer cfg mailboxReader messageReader domainResolver userAuth tlsCfg =
     \<lparr>is_cfg = cfg, is_mailboxReader = mailboxReader, is_messageReader = messageReader,
      is_domainResolver = domainResolver, is_userAuth = userAuth, is_tlsCfg = tlsCfg\<rparr>"

record imap_libs =
  il_Event :: "(imap_State, IMAPEvent) fsm_Event"
  il_Handshake :: "string tls_config \<Rightarrow> stream \<Rightarrow> nat \<times> stream option"
  il_bcrypt :: "string \<Rightarrow> string \<Rightarrow> go_error option"
  il_unicode :: unicode

definition imap_env_of :: "imap_libs \<Rightarrow> 'w imap_Server \<Rightarrow> 'w imap_env" where
  "imap_env_of L srv = \<lparr>im_cfg = is_cfg srv, im_tlsCfg = is_tlsCfg srv, im_mailboxReader = is_mailboxReader srv,
     im_messageReader = is_messageReader srv, im_domainResolver = is_domainResolver srv, im_userAuth = is_userAuth srv,
     im_Event = il_Event L, im_Handshake = il_Handshake L, im_bcrypt = il_bcrypt L, im_unicode = il_unicode L\<rparr>"

definition imap_acceptLoop ::
    "imap_libs \<Rightarrow> 'w imap_Server \<Rightarrow> 'w \<Rightarrow> bool \<Rightarrow> net_conn accept_result list \<Rightarrow> ('w imap_env \<times> 'w imap_session) list" where
  "imap_acceptLoop L srv w overTLS =
     acceptLoop (\<lambda>c. (imap_env_of L srv, imap_newSession (conn_stream c) overTLS w))"

definition imap_Start :: "imap_libs \<Rightarrow> 'w imap_Server \<Rightarrow> listening \<Rightarrow> 'w \<Rightarrow> ('w imap_env \<times> 'w imap_session) list result" where
  "imap_Start L srv net w =
     Start (IMAP_Addr (cfg_IMAP (is_cfg srv))) (IMAP_AddrTLS (cfg_IMAP (is_cfg srv))) (is_tlsCfg srv)
       (imap_acceptLoop L srv w) net"

subsection \<open>The JMAP server\<close>

record jmap_libs =
  jl_jwt :: jwt_lib
  jl_Now :: "nat \<Rightarrow> time"
  jl_bcrypt :: "string \<Rightarrow> string \<Rightarrow> go_error option"
  jl_unicode :: unicode

text \<open>The routes are those of \<open>jmap_serve\<close>.\<close>

definition jmap_NewServer ::
    "jmap_libs \<Rightarrow> Config \<Rightarrow> 'w MailboxReader \<Rightarrow> 'w MessageReader \<Rightarrow> 'w DomainResolver \<Rightarrow> 'w UserAuthenticator
     \<Rightarrow> 'w jmap_env" where
  "jmap_NewServer L cfg mailboxReader messageReader domainResolver userAuth =
     \<lparr>jm_cfg = cfg, jm_mailboxReader = mailboxReader, jm_messageReader = messageReader,
      jm_domainResolver = domainResolver, jm_userAuth = userAuth, jm_jwt = jl_jwt L, jm_Now = jl_Now L,
      jm_bcrypt = jl_bcrypt L, jm_unicode = jl_unicode L\<rparr>"

subsection \<open>Start-up\<close>

record outside =
  zap_Development :: "go_error option"
  zap_NewProduction :: "go_error option"
  sqlx_Connect :: "string \<Rightarrow> go_error option"
  redis_Ping :: "string \<Rightarrow> string \<Rightarrow> int \<Rightarrow> go_error option"
  load_pair :: "string \<Rightarrow> string \<Rightarrow> string result"
  jmap_listen :: "string \<Rightarrow> go_error option"

text \<open>How a process ends: by a panic, by \<^verbatim>\<open>log.Fatal\<close> with its message, or in an orderly way.\<close>

datatype 'a ending = Panicked go_error | Fatal string go_error | Stopped 'a

definition startup_tls :: "outside \<Rightarrow> Config \<Rightarrow> string tls_config option" where
  "startup_tls os cfg =
     (if TLS_Enabled (cfg_TLS cfg)
      then (case LoadTLSConfig (load_pair os) (TLS_CertFile (cfg_TLS cfg)) (TLS_KeyFile (cfg_TLS cfg)) of
              Inl err \<Rightarrow> None
            | Inr tlsCfg \<Rightarrow> Some tlsCfg)
      else None)"

definition NewLogger :: "outside \<Rightarrow> string \<Rightarrow> go_error option" where
  "NewLogger os env = (if env = ''development'' then zap_Development os else zap_NewProduction os)"

definition open_stores :: "outside \<Rightarrow> Config \<Rightarrow> 'a ending \<Rightarrow> 'a ending" where
  "open_stores os cfg rest =
     (case NewLogger os (cfg_Env cfg) of
        Some err \<Rightarrow> Panicked err
      | None \<Rightarrow>
          (case mysql_New (sqlx_Connect os) (MySQL_DSN (cfg_MySQL cfg)) of
             Some err \<Rightarrow> Fatal ''mysql init failed'' err
           | None \<Rightarrow>
               (case redis_New (redis_Ping os) (Redis_Addr (cfg_Redis cfg)) (Redis_Password (cfg_Redis cfg)) (Redis_DB (cfg_Redis cfg)) of
                  Some err \<Rightarrow> Fatal ''redis init failed'' err
                | None \<Rightarrow> rest)))"

text \<open>The message store of the opened backends stands behind every port of the three servers.\<close>

definition smtp_main ::
    "outside \<Rightarrow> environ \<Rightarrow> smtp_libs \<Rightarrow> 'r backend \<Rightarrow> listening \<Rightarrow> 'r MessageStore
     \<Rightarrow> ('r MessageStore smtp_env \<times> 'r MessageStore smtp_session) list ending" where
  "smtp_main os env L B net w =
     (let cfg = Load env
      in open_stores os cfg
           (let server = smtp_NewServer cfg (store_delivery B) (startup_tls os cfg)
            in case smtp_Start L server net w of
                 Inl err \<Rightarrow> Fatal ''smtp server failed'' err
               | Inr sessions \<Rightarrow> Stopped sessions))"

definition imap_main ::
    "outside \<Rightarrow> environ \<Rightarrow> imap_libs \<Rightarrow> 'r backend \<Rightarrow> listening \<Rightarrow> 'r MessageStore
     \<Rightarrow> ('r MessageStore imap_env \<times> 'r MessageStore imap_session) list ending" where
  "imap_main os env L B net w =
     (let cfg = Load env
      in open_stores os cfg
           (let server = imap_NewServer cfg (store_mailboxes B) (store_messages B) (store_domains B) (store_users B)
                           (startup_tls os cfg)
            in case imap_Start L server net w of
                 Inl err \<Rightarrow> Fatal ''imap server failed'' err
               | Inr sessions \<Rightarrow> Stopped sessions))"

text \<open>\<^verbatim>\<open>http.ErrServerClosed\<close>, the result of an orderly shutdown, is no error.\<close>

definition ErrServerClosed :: go_error where
  "ErrServerClosed = ErrExternal ''http: Server closed''"

definition jmap_Start :: "outside \<Rightarrow> Config \<Rightarrow> go_error option" where
  "jmap_Start os cfg =
     (case jmap_listen os (JMAP_Addr (cfg_JMAP cfg)) of
        Some err \<Rightarrow> if err \<noteq> ErrServerClosed then Some err else None
      | None \<Rightarrow> None)"

definition jmap_main :: "outside \<Rightarrow> environ \<Rightarrow> jmap_libs \<Rightarrow> 'r backend \<Rightarrow> 'r MessageStore jmap_env ending" where
  "jmap_main os env L B =
     (let cfg = Load env
      in open_stores os cfg
           (let server = jmap_NewServer L cfg (store_mailboxes B) (store_messages B) (store_domains B) (store_users B)
            in case jmap_Start os cfg of
                 Some err \<Rightarrow> Fatal ''jmap server failed'' err
               | None \<Rightarrow> Stopped server))"

subsection \<open>Which sessions a server runs\<close>

text \<open>
  The connections of a listener that get a session: those accepted before an error at a moment when the
  context is done.
\<close>

definition accepted :: "stream accept_result list \<Rightarrow> stream list" where
  "accepted rs = List.map_filter (\<lambda>r. case r of Accepted c \<Rightarrow> Some c | AcceptErr _ \<Rightarrow> None) (takeWhile (\<lambda>r. r \<noteq> AcceptErr True) rs)"

lemma acceptLoop_accepted: "acceptLoop f (map (map_accept_result g) rs) = map (f \<circ> g) (accepted rs)"
proof (induction rs)
  case (Cons r rs)
  then show ?case by (cases r) (simp_all add: accepted_def map_filter_simps)
qed (simp add: accepted_def map_filter_simps)

text \<open>TLS is offered when it is enabled and the certificate loads.\<close>

definition offers_tls :: "outside \<Rightarrow> Config \<Rightarrow> bool" where
  "offers_tls os cfg \<longleftrightarrow> TLS_Enabled (cfg_TLS cfg)
     \<and> (\<exists>pair. load_pair os (TLS_CertFile (cfg_TLS cfg)) (TLS_KeyFile (cfg_TLS cfg)) = Inr pair)"

lemma startup_tls_offers: "startup_tls os cfg \<noteq> None \<longleftrightarrow> offers_tls os cfg"
  by (auto simp: startup_tls_def offers_tls_def LoadTLSConfig_def split: sum.splits)

lemma startup_tls_version: "startup_tls os cfg = Some tc \<Longrightarrow> MinVersion tc = VersionTLS12"
  by (auto simp: startup_tls_def LoadTLSConfig_def split: if_splits sum.splits)

lemma Start_Inr:
  "Start addr addrTLS tlsCfg loop net = Inr ss \<Longrightarrow>
     ss = (if tlsCfg \<noteq> None then loop True (map (map_accept_result TLSConn) (acc_tls net)) else [])
       @ loop False (map (map_accept_result TCPConn) (acc_plain net))"
  by (auto simp: Start_def split: option.splits)

lemma open_stores_Stopped: "open_stores os cfg rest = Stopped x \<Longrightarrow> rest = Stopped x"
  by (auto simp: open_stores_def split: option.splits)

text \<open>The sessions a program runs: their connections, and whether they are over TLS.\<close>

definition served :: "outside \<Rightarrow> Config \<Rightarrow> listening \<Rightarrow> (stream \<times> bool) list" where
  "served os cfg net =
     (if offers_tls os cfg then map (\<lambda>c. (c, True)) (accepted (acc_tls net)) else [])
     @ map (\<lambda>c. (c, False)) (accepted (acc_plain net))"

lemma smtp_main_sessions:
  assumes "smtp_main os env L B net w = Stopped sessions"
  shows "sessions = map (\<lambda>(c, tls). (smtp_env_of L (smtp_NewServer (Load env) (store_delivery B) (startup_tls os (Load env))),
    smtp_NewSession c tls w)) (served os (Load env) net)"
proof -
  let ?srv = "smtp_NewServer (Load env) (store_delivery B) (startup_tls os (Load env))"
  have "smtp_Start L ?srv net w = Inr sessions"
    using assms unfolding smtp_main_def Let_def by (auto dest!: open_stores_Stopped split: sum.splits)
  then show ?thesis
    unfolding smtp_Start_def smtp_acceptLoop_def
    by (auto dest!: Start_Inr simp: acceptLoop_accepted served_def startup_tls_offers [symmetric] smtp_NewServer_def o_def)
qed

lemma imap_main_sessions:
  assumes "imap_main os env L B net w = Stopped sessions"
  shows "sessions = map (\<lambda>(c, tls). (imap_env_of L (imap_NewServer (Load env) (store_mailboxes B) (store_messages B)
    (store_domains B) (store_users B) (startup_tls os (Load env))), imap_newSession c tls w)) (served os (Load env) net)"
proof -
  let ?srv = "imap_NewServer (Load env) (store_mailboxes B) (store_messages B) (store_domains B) (store_users B) (startup_tls os (Load env))"
  have "imap_Start L ?srv net w = Inr sessions"
    using assms unfolding imap_main_def Let_def by (auto dest!: open_stores_Stopped split: sum.splits)
  then show ?thesis
    unfolding imap_Start_def imap_acceptLoop_def
    by (auto dest!: Start_Inr simp: acceptLoop_accepted served_def startup_tls_offers [symmetric] imap_NewServer_def o_def)
qed

text \<open>
  C40: what the programs run. An SMTP or IMAP program that comes up runs one session for every connection
  accepted before the context is done, marked as being over TLS exactly for those of the TLS listener; that
  listener is there, and STARTTLS is offered with TLS 1.2 as the least version, exactly when TLS is enabled
  and the certificate loads. Every session works with the configuration of the environment over the
  message store, and begins fresh: nobody is logged in, nothing is selected, the envelope is empty.
\<close>

theorem programs_wired:
  "(\<forall>sessions. smtp_main os env L B net w = Stopped sessions \<longrightarrow>
      map (\<lambda>(E, s). (conn s, isTLS s)) sessions = served os (Load env) net
      \<and> (\<forall>(E, s) \<in> set sessions.
           smtp_cfg E = Load env \<and> smtp_delivery E = \<lparr>Deliver = storage_Deliver B\<rparr>
           \<and> (smtp_tlsCfg E \<noteq> None \<longleftrightarrow> offers_tls os (Load env)) \<and> (\<forall>tc. smtp_tlsCfg E = Some tc \<longrightarrow> MinVersion tc = VersionTLS12)
           \<and> store s = w \<and> smtp_currentState s = StateInit \<and> env_From (envelope s) = [] \<and> env_To (envelope s) = []
           \<and> reader s = [] \<and> sent s = []))
   \<and> (\<forall>sessions. imap_main os env L' B net w = Stopped sessions \<longrightarrow>
      map (\<lambda>(E, s). (im_conn s, im_isTLS s)) sessions = served os (Load env) net
      \<and> (\<forall>(E, s) \<in> set sessions.
           im_cfg E = Load env
           \<and> im_mailboxReader E = \<lparr>FindMailbox = storage_FindMailbox B, ListMailboxes = storage_ListMailboxes B,
                                   GetMailboxByID = storage_GetMailboxByID B\<rparr>
           \<and> im_messageReader E = \<lparr>GetMessageBody = storage_GetMessageBody B, ListMessages = storage_ListMessages B,
                                   GetMessageByUID = storage_GetMessageByUID B\<rparr>
           \<and> im_domainResolver E = \<lparr>FindDomain = storage_FindDomain B\<rparr> \<and> im_userAuth E = \<lparr>FindUser = storage_FindUser B\<rparr>
           \<and> (im_tlsCfg E \<noteq> None \<longleftrightarrow> offers_tls os (Load env)) \<and> (\<forall>tc. im_tlsCfg E = Some tc \<longrightarrow> MinVersion tc = VersionTLS12)
           \<and> im_store s = w \<and> imap_state s = StateNotAuthenticated \<and> im_selected s = None \<and> im_sent s = []))"
proof (intro conjI allI impI)
  fix sessions
  assume "smtp_main os env L B net w = Stopped sessions"
  note ss = smtp_main_sessions [OF this]
  show "map (\<lambda>(E, s). (conn s, isTLS s)) sessions = served os (Load env) net"
    unfolding ss by (simp add: comp_def case_prod_unfold smtp_NewSession_def)
  show "\<forall>(E, s) \<in> set sessions. smtp_cfg E = Load env \<and> smtp_delivery E = \<lparr>Deliver = storage_Deliver B\<rparr>
      \<and> (smtp_tlsCfg E \<noteq> None \<longleftrightarrow> offers_tls os (Load env)) \<and> (\<forall>tc. smtp_tlsCfg E = Some tc \<longrightarrow> MinVersion tc = VersionTLS12)
      \<and> store s = w \<and> smtp_currentState s = StateInit \<and> env_From (envelope s) = [] \<and> env_To (envelope s) = []
      \<and> reader s = [] \<and> sent s = []"
    unfolding ss by (auto simp: smtp_env_of_def smtp_NewServer_def store_delivery_def smtp_NewSession_def emptyEnvelope_def
        smtp_currentState_def newSMTPFSM_def startup_tls_offers [symmetric] startup_tls_version)
next
  fix sessions
  assume "imap_main os env L' B net w = Stopped sessions"
  note ss = imap_main_sessions [OF this]
  show "map (\<lambda>(E, s). (im_conn s, im_isTLS s)) sessions = served os (Load env) net"
    unfolding ss by (simp add: comp_def case_prod_unfold imap_newSession_def)
  show "\<forall>(E, s) \<in> set sessions. im_cfg E = Load env
      \<and> im_mailboxReader E = \<lparr>FindMailbox = storage_FindMailbox B, ListMailboxes = storage_ListMailboxes B,
                              GetMailboxByID = storage_GetMailboxByID B\<rparr>
      \<and> im_messageReader E = \<lparr>GetMessageBody = storage_GetMessageBody B, ListMessages = storage_ListMessages B,
                              GetMessageByUID = storage_GetMessageByUID B\<rparr>
      \<and> im_domainResolver E = \<lparr>FindDomain = storage_FindDomain B\<rparr> \<and> im_userAuth E = \<lparr>FindUser = storage_FindUser B\<rparr>
      \<and> (im_tlsCfg E \<noteq> None \<longleftrightarrow> offers_tls os (Load env)) \<and> (\<forall>tc. im_tlsCfg E = Some tc \<longrightarrow> MinVersion tc = VersionTLS12)
      \<and> im_store s = w \<and> imap_state s = StateNotAuthenticated \<and> im_selected s = None \<and> im_sent s = []"
    unfolding ss by (auto simp: imap_env_of_def imap_NewServer_def store_mailboxes_def store_messages_def store_domains_def
        store_users_def imap_newSession_def imap_state_def startup_tls_offers [symmetric] startup_tls_version)
qed

text \<open>A machine with a certificate, where TLS is enabled and each listener accepts one connection.\<close>

definition demo_outside :: outside where
  "demo_outside = \<lparr>zap_Development = None, zap_NewProduction = None, sqlx_Connect = (\<lambda>_. None),
     redis_Ping = (\<lambda>_ _ _. None),
     load_pair = (\<lambda>_ _. Inr ''pair''), jmap_listen = (\<lambda>_. None)\<rparr>"

lemma demo_outside_fields:
  "zap_Development demo_outside = None" "zap_NewProduction demo_outside = None" "sqlx_Connect demo_outside d = None"
  "redis_Ping demo_outside a p n = None" "load_pair demo_outside x y = Inr ''pair''"
  by (simp_all add: demo_outside_def)

definition demo_environ :: environ where
  "demo_environ k = (if k = ''GOMAIL_TLS_ENABLED'' then ''true'' else [])"

definition demo_net :: listening where
  "demo_net = \<lparr>lst_plain = (\<lambda>_. None), lst_tls = (\<lambda>_ _. None),
     acc_plain = [Accepted [Chunk ''a''], AcceptErr False, Accepted [], AcceptErr True, Accepted [ReadErr]], acc_tls = [Accepted [Chunk ''b'']]\<rparr>"

definition demo_smtp_libs :: smtp_libs where
  "demo_smtp_libs = \<lparr>sl_Event = table_event, sl_Handshake = (\<lambda>tc c. (0, None)), sl_Now = int\<rparr>"

definition demo_start :: "((string \<rightharpoonup> bytes) MessageStore smtp_env \<times> (string \<rightharpoonup> bytes) MessageStore smtp_session) list ending" where
  "demo_start = smtp_main demo_outside demo_environ demo_smtp_libs
     \<lparr>be_mysql = \<lparr>collate = (=), faults = (\<lambda>_. NoFault), sql_unicode = ascii_tables\<rparr>, be_redis = map_redis, be_Now = int\<rparr>
     demo_net \<lparr>ms_sql = \<lparr>domains = [], users = [], mailboxes = [], messages = [], next_id = 1, stmts = 0\<rparr>,
               ms_redis = Map.empty, ms_ticks = 0\<rparr>"

theorem programs_wired_witness:
  "\<exists>sessions. demo_start = Stopped sessions
     \<and> map (\<lambda>(E, s). (conn s, isTLS s)) sessions = [([Chunk ''b''], True), ([Chunk ''a''], False), ([], False)]
     \<and> (\<forall>(E, s) \<in> set sessions. smtp_tlsCfg E \<noteq> None)"
proof -
  have on: "offers_tls demo_outside (Load demo_environ)"
    by (simp add: offers_tls_def demo_outside_fields Load_def demo_environ_def getEnvBool_def ParseBool_def)
  then obtain tc where "startup_tls demo_outside (Load demo_environ) = Some tc"
    by (auto simp: startup_tls_offers [symmetric])
  then obtain sessions where s: "demo_start = Stopped sessions"
    by (simp add: demo_start_def smtp_main_def open_stores_def NewLogger_def mysql_New_def redis_New_def Let_def smtp_Start_def Start_def
        smtp_NewServer_def demo_net_def demo_outside_fields)
  have "served demo_outside (Load demo_environ) demo_net = [([Chunk ''b''], True), ([Chunk ''a''], False), ([], False)]"
    using on by (simp add: served_def accepted_def demo_net_def map_filter_simps)
  then show ?thesis
    using programs_wired s on unfolding demo_start_def by (fastforce simp: case_prod_unfold)
qed

end
