(* ===== verification/Smtp_Outbox.thy ===== *)
theory Smtp_Outbox
  imports Smtp_Correct
begin

text \<open>
  A session seen without its storage. A delivery port that never reports an error cannot influence
  what the session says or which events it hands over: over such a port the session is the one over
  \<open>outbox\<close>, the port that only writes events down, followed by the delivery of the events written.
  The contract is the locale \<open>silent_pipeline\<close>; \<open>over v s\<close> is the session \<open>s\<close> with \<open>v\<close> in place of its
  storage, and each handler commutes with it.
\<close>

definition outbox :: "MessageReceived list DeliveryPipeline" where
  "outbox = \<lparr>Deliver = (\<lambda>e evs. (None, evs @ [e]))\<rparr>"

definition with_outbox :: "'w smtp_env \<Rightarrow> MessageReceived list smtp_env" where
  "with_outbox E = \<lparr>smtp_cfg = smtp_cfg E, smtp_tlsCfg = smtp_tlsCfg E, smtp_delivery = outbox,
     smtp_Event = smtp_Event E, smtp_Handshake = smtp_Handshake E, smtp_Now = smtp_Now E\<rparr>"

definition over :: "'v \<Rightarrow> 'w smtp_session \<Rightarrow> 'v smtp_session" where
  "over v s = \<lparr>conn = conn s, reader = reader s, fsm = fsm s, envelope = envelope s, isTLS = isTLS s,
     sent = sent s, store = v, ticks = ticks s\<rparr>"

lemma with_outbox_fields [simp]:
  "smtp_cfg (with_outbox E) = smtp_cfg E" "smtp_tlsCfg (with_outbox E) = smtp_tlsCfg E"
  "smtp_delivery (with_outbox E) = outbox" "smtp_Event (with_outbox E) = smtp_Event E"
  "smtp_Handshake (with_outbox E) = smtp_Handshake E" "smtp_Now (with_outbox E) = smtp_Now E"
  by (simp_all add: with_outbox_def)

lemma over_fields [simp]:
  "conn (over v s) = conn s" "reader (over v s) = reader s" "fsm (over v s) = fsm s"
  "envelope (over v s) = envelope s" "isTLS (over v s) = isTLS s" "sent (over v s) = sent s"
  "store (over v s) = v" "ticks (over v s) = ticks s" "smtp_currentState (over v s) = smtp_currentState s"
  by (simp_all add: over_def smtp_currentState_def)

lemma over_updates:
  "(over v s)\<lparr>conn := c\<rparr> = over v (s\<lparr>conn := c\<rparr>)" "(over v s)\<lparr>reader := b\<rparr> = over v (s\<lparr>reader := b\<rparr>)"
  "(over v s)\<lparr>fsm := f\<rparr> = over v (s\<lparr>fsm := f\<rparr>)" "(over v s)\<lparr>envelope := e\<rparr> = over v (s\<lparr>envelope := e\<rparr>)"
  "(over v s)\<lparr>isTLS := t\<rparr> = over v (s\<lparr>isTLS := t\<rparr>)" "(over v s)\<lparr>ticks := n\<rparr> = over v (s\<lparr>ticks := n\<rparr>)"
  "(over v s)\<lparr>sent := l\<rparr> = over v (s\<lparr>sent := l\<rparr>)" "(over v s)\<lparr>store := v'\<rparr> = over v' s"
  "over v (s\<lparr>store := w\<rparr>) = over v s"
  by (simp_all add: over_def)

lemma over_NewSession: "smtp_NewSession c t v = over v (smtp_NewSession c t w)"
  by (simp add: over_def smtp_NewSession_def)

lemma over_write: "smtp_write l (over v s) = over v (smtp_write l s)"
  by (simp add: smtp_write_def over_updates)

lemma over_transition:
  "smtp_transition (with_outbox E) ev (over v s) = map_prod id (over v) (smtp_transition E ev s)"
  by (simp add: smtp_transition_def over_updates over_write split: prod.split option.split)

lemma store_later:
  "smtp_write l (s\<lparr>store := w\<rparr>) = (smtp_write l s)\<lparr>store := w\<rparr>"
  "snd (smtp_transition E ev (s\<lparr>store := w\<rparr>)) = (snd (smtp_transition E ev s))\<lparr>store := w\<rparr>"
  by (simp_all add: smtp_transition_def smtp_write_def split: prod.split option.split)

lemmas over_simps = over_updates over_write over_transition

lemma over_transitionRcptTo:
  "smtp_transitionRcptTo (with_outbox E) (over v s) = map_prod id (over v) (smtp_transitionRcptTo E s)"
  by (simp add: smtp_transitionRcptTo_def over_transition)

lemma over_handlers:
  "handleEHLO (with_outbox E) args (over v s) = over v (handleEHLO E args s)"
  "handleMAIL (with_outbox E) args (over v s) = over v (handleMAIL E args s)"
  "handleRCPT (with_outbox E) args (over v s) = over v (handleRCPT E args s)"
  "handleRSET (with_outbox E) (over v s) = over v (handleRSET E s)"
  "handleQUIT (with_outbox E) (over v s) = over v (handleQUIT E s)"
  "smtp_handleSTARTTLS (with_outbox E) (over v s) = over v (smtp_handleSTARTTLS E s)"
proof -
  show "handleEHLO (with_outbox E) args (over v s) = over v (handleEHLO E args s)"
    by (simp add: handleEHLO_def Let_def over_simps split: prod.split bool.split)
  show "handleMAIL (with_outbox E) args (over v s) = over v (handleMAIL E args s)"
    by (simp add: handleMAIL_def over_simps split: prod.split bool.split option.split)
  show "handleRCPT (with_outbox E) args (over v s) = over v (handleRCPT E args s)"
    by (simp add: handleRCPT_def over_simps over_transitionRcptTo split: prod.split bool.split option.split)
  show "handleRSET (with_outbox E) (over v s) = over v (handleRSET E s)"
    by (simp add: handleRSET_def over_simps split: prod.split bool.split)
  show "handleQUIT (with_outbox E) (over v s) = over v (handleQUIT E s)"
    by (simp add: handleQUIT_def over_simps)
  show "smtp_handleSTARTTLS (with_outbox E) (over v s) = over v (smtp_handleSTARTTLS E s)"
    by (simp add: smtp_handleSTARTTLS_def Let_def over_simps split: option.split prod.split)
qed

text \<open>\<open>matches\<close>: the same session, where the outbox has got the events that the storage has got.\<close>

definition matches :: "'w DeliveryPipeline \<Rightarrow> 'w \<Rightarrow> 'w smtp_session \<Rightarrow> MessageReceived list smtp_session \<Rightarrow> bool" where
  "matches pipe w0 s t \<longleftrightarrow> (\<exists>evs. t = over evs s \<and> store s = deliver_all pipe evs w0)"

context silent_pipeline
begin

lemma silentD: "Deliver pipe e w = (err, w') \<Longrightarrow> err = None"
  using silent by (metis fst_conv)

lemma handleDATA_matches:
  assumes "smtp_delivery E = pipe" "matches pipe w0 s t"
  shows "matches pipe w0 (handleDATA E s) (handleDATA (with_outbox E) t)"
proof -
  obtain evs where t: "t = over evs s" and st: "store s = deliver_all pipe evs w0"
    using assms(2) by (auto simp: matches_def)
  obtain b s1 where tr: "smtp_transition E EventData s = (b, s1)" by fastforce
  have s1: "conn s1 = conn s" "store s1 = store s" using transition_frame [OF tr] by simp_all
  obtain r buf c where dl: "data_loop (maxSize E) [] (conn s) [] = (r, buf, c)" by (metis prod_cases3)
  show ?thesis
  proof (cases "b = False \<or> r = DataReadError \<or> r = DataTooBig")
    case True
    then have "handleDATA (with_outbox E) t = over evs (handleDATA E s) \<and> store (handleDATA E s) = store s"
      using tr dl s1 by (auto simp: t handleDATA_def Let_def over_simps split: bool.splits)
    then show ?thesis using st by (auto simp: matches_def)
  next
    case False
    then obtain body where body: "r = DataComplete body" and b by (cases r) auto
    let ?ev = "data_event E s1 body"
    obtain w' where w': "Deliver pipe ?ev (store s) = (None, w')" using silentD by (metis surj_pair)
    have "handleDATA (with_outbox E) t = over (evs @ [?ev]) (handleDATA E s) \<and> store (handleDATA E s) = w'"
      using tr dl s1 body \<open>b\<close> w' assms(1)
      by (simp add: t handleDATA_def Let_def over_simps store_later data_event_def outbox_def)
    then show ?thesis using st w' by (auto simp: matches_def)
  qed
qed

lemma smtp_dispatch_matches:
  assumes "smtp_delivery E = pipe" "matches pipe w0 s t" "smtp_dispatch E line s = (s', q)"
  shows "\<exists>t'. smtp_dispatch (with_outbox E) line t = (t', q) \<and> matches pipe w0 s' t'"
proof -
  obtain evs where t: "t = over evs s" and st: "store s = deliver_all pipe evs w0"
    using assms(2) by (auto simp: matches_def)
  have same: "matches pipe w0 u (over evs u)" if "store u = store s" for u
    using that st by (auto simp: matches_def)
  obtain cmd args f where cut: "Cut SPC line = (cmd, args, f)" by (metis prod_cases3)
  show ?thesis
    using assms(3) handleDATA_matches [OF assms(1,2)]
    by (auto simp: smtp_dispatch_def Let_def cut t over_handlers over_write frame intro!: same split: if_splits)
qed

lemma smtp_step_matches:
  assumes "smtp_delivery E = pipe" "matches pipe w0 s t" "smtp_step E s = (s', q)"
  shows "\<exists>t'. smtp_step (with_outbox E) t = (t', q) \<and> matches pipe w0 s' t'"
proof -
  have io: "reader t = reader s" "conn t = conn s" using assms(2) by (auto simp: matches_def)
  have m: "matches pipe w0 (s\<lparr>reader := b, conn := c\<rparr>) (t\<lparr>reader := b, conn := c\<rparr>)" for b c
    using assms(2) by (auto simp: matches_def over_updates)
  show ?thesis
    using assms(3) m smtp_dispatch_matches [OF assms(1) m]
    by (auto simp: smtp_step_def Let_def io split: prod.splits option.splits if_splits)
qed

lemma smtp_loop_matches:
  assumes "smtp_delivery E = pipe" "matches pipe w0 s t"
  shows "matches pipe w0 (smtp_loop E s) (smtp_loop (with_outbox E) t)"
  using assms(2)
proof (induction s arbitrary: t rule: smtp_turns_induct [of E])
  case (turn s)
  obtain s' q where s': "smtp_step E s = (s', q)" by fastforce
  then obtain t' where "smtp_step (with_outbox E) t = (t', q)" "matches pipe w0 s' t'"
    using smtp_step_matches [OF assms(1) turn.prems] by blast
  then show ?case using turn.IH s' by (cases q) (simp_all add: smtp_loop_step [of _ s] smtp_loop_step [of _ t])
qed

lemma smtp_Handle_outbox:
  assumes "smtp_delivery E = pipe"
  shows "sent (smtp_Handle E (smtp_NewSession c t w)) = sent (smtp_Handle (with_outbox E) (smtp_NewSession c t []))
    \<and> store (smtp_Handle E (smtp_NewSession c t w))
        = deliver_all pipe (store (smtp_Handle (with_outbox E) (smtp_NewSession c t []))) w"
proof -
  have "matches pipe w (smtp_write l (smtp_NewSession c t w)) (smtp_write l (smtp_NewSession c t []))" for l
    by (auto simp: matches_def over_NewSession [of c t "[]" w] over_write smtp_NewSession_def intro!: exI [of _ "[]"])
  then have "matches pipe w (smtp_Handle E (smtp_NewSession c t w)) (smtp_Handle (with_outbox E) (smtp_NewSession c t []))"
    unfolding smtp_Handle_def with_outbox_fields by (rule smtp_loop_matches [OF assms])
  then show ?thesis by (auto simp: matches_def)
qed

end

end
