(* ===== verification/Storage_Ports.thy ===== *)
theory Storage_Ports
  imports Storage_Correct Imap_Correct Jmap
begin

text \<open>
  The message store fulfils the contracts of the reading ports (theory \<open>Ports\<close>): the interpretations
  of \<open>mail_reader\<close>, \<open>quiet_ports\<close> and \<open>account_reader\<close> on the store's own operations, which carry the lemmas that the
  IMAP and JMAP servers prove under these contracts over to the servers as they are wired.
\<close>

interpretation store_reader: mail_reader "store_mailboxes B" "store_messages B" owns
  for B :: "'r backend"
proof unfold_locales
  fix u n and w w' :: "'r MessageStore" and m
  assume "FindMailbox (store_mailboxes B) u n w = (Inr m, w')"
  then show "Mailbox_UserID m = u \<and> owns w (Mailbox_ID m) u"
    by (auto simp: store_mailboxes_def storage_FindMailbox_def map_result_Inr to_Mailbox_def owns_def
        dest!: mysql_FindMailbox_spec(2) [OF _ refl])
next
  fix u and w w' :: "'r MessageStore" and ms m
  assume "ListMailboxes (store_mailboxes B) u w = (Inr ms, w')" "m \<in> set ms"
  then show "Mailbox_UserID m = u \<and> owns w (Mailbox_ID m) u"
    by (auto simp: store_mailboxes_def storage_ListMailboxes_def map_result_Inr to_Mailbox_def owns_def
        dest!: mysql_ListMailboxes_spec(2) [OF _ refl])
next
  fix b and w w' :: "'r MessageStore" and xs x
  assume "ListMessages (store_messages B) b w = (Inr xs, w')" "x \<in> set xs"
  then show "Message_MailboxID x = b"
    by (auto simp: store_messages_def storage_ListMessages_def map_result_Inr to_Message_def
        dest!: mysql_ListMessages_spec(2) [OF _ refl])
next
  fix b and w w' :: "'r MessageStore" and xs
  assume "ListMessages (store_messages B) b w = (Inr xs, w')"
  then obtain ys where "xs = map to_Message (sort_key msg_uid ys)"
    by (auto simp: store_messages_def storage_ListMessages_def map_result_Inr
        dest!: mysql_ListMessages_spec(2) [OF _ refl])
  moreover have "map Message_UID (map to_Message zs) = map msg_uid zs" for zs
    by (simp add: to_Message_def)
  ultimately show "sorted (map Message_UID xs)" by (simp only: sorted_sort_key)
qed (simp_all add: store_mailboxes_def store_messages_def storage_FindMailbox_def storage_ListMailboxes_def
  storage_ListMessages_def storage_GetMessageBody_def owns_read read_only_ops,
  auto simp: owns_def on_redis_def fun_eq_iff split: prod.split)

text \<open>Reading changes no account: the tables stay, but for the count of statements.\<close>

lemma on_sql_grows: "on_sql f s = (x, s') \<Longrightarrow> read_only f \<Longrightarrow> grows (ms_sql s) (ms_sql s')"
  by (auto dest!: on_sql_read simp: same_tables_grows)

lemma map_result_grows: "read_only f \<Longrightarrow> grows (ms_sql w) (ms_sql (snd (map_result g (on_sql f) w)))"
  using on_sql_grows by (auto simp: map_result_def split: prod.split)

lemma storage_reads_grow:
  "grows (ms_sql w) (ms_sql (snd (storage_FindDomain B n w)))"
  "grows (ms_sql w) (ms_sql (snd (storage_FindUser B n d w)))"
  "grows (ms_sql w) (ms_sql (snd (storage_FindMailbox B u n w)))"
  "grows (ms_sql w) (ms_sql (snd (storage_ListMailboxes B u w)))"
  "grows (ms_sql w) (ms_sql (snd (storage_GetMailboxByID B b w)))"
  "grows (ms_sql w) (ms_sql (snd (storage_ListMessages B b w)))"
  "grows (ms_sql w) (ms_sql (snd (storage_GetMessageByUID B b v w)))"
  "grows (ms_sql w) (ms_sql (snd (storage_GetMessageBody B i w)))"
  by (simp_all add: storage_FindDomain_def storage_FindUser_def storage_FindMailbox_def
      storage_ListMailboxes_def storage_GetMailboxByID_def storage_ListMessages_def storage_GetMessageByUID_def
      storage_GetMessageBody_def map_result_grows read_only_ops on_redis_def split: prod.split)

lemma owns_grows: "grows (ms_sql w) (ms_sql w') \<Longrightarrow> owns w' = owns w"
proof -
  assume g: "grows (ms_sql w) (ms_sql w')"
  have "map (\<lambda>r. (mbx_id r, mbx_user_id r)) (mailboxes d) = map (\<lambda>(i, u, n). (i, u)) (mailbox_keys d)" for d
    by (simp add: mailbox_keys_def)
  then show ?thesis using g by (simp add: owns_def grows_def fun_eq_iff)
qed

text \<open>The active users of the active domains.\<close>

definition directory :: "'r backend \<Rightarrow> 'r MessageStore \<Rightarrow> string \<Rightarrow> string \<Rightarrow> User \<Rightarrow> bool" where
  "directory B w n dn u \<longleftrightarrow>
     (\<exists>did. domain_of (be_mysql B) (ms_sql w) dn did
        \<and> (\<exists>x \<in> set (users (ms_sql w)). collate (be_mysql B) (usr_username x) n \<and> usr_domain_id x = did \<and> usr_active x
              \<and> u = to_User (mysql_User.truncate x)))"

lemma directory_grows: "grows (ms_sql w) (ms_sql w') \<Longrightarrow> directory B w' = directory B w"
  by (simp add: directory_def fun_eq_iff accounts_grow) (simp add: grows_def)

lemma directory_answers:
  assumes "storage_FindDomain B dn w = (Inr d, w1)" "storage_FindUser B n (Domain_ID d) w2 = (Inr u, w3)"
    and "grows (ms_sql w1) (ms_sql w2)"
  shows "directory B w n dn u"
proof -
  have "grows (ms_sql w) (ms_sql w1)" using storage_reads_grow(1) [where w = w] assms(1) by (metis snd_conv)
  then have same: "users (ms_sql w2) = users (ms_sql w)" using assms(3) by (simp add: grows_def)
  obtain D x where D: "mysql_FindDomain (be_mysql B) dn (ms_sql w) = (Inr D, ms_sql w1)" "d = to_Domain D"
    and x: "mysql_FindUser (be_mysql B) n (Domain_ID d) (ms_sql w2) = (Inr x, ms_sql w3)" "u = to_User x"
    using assms by (auto simp: storage_FindDomain_def storage_FindUser_def map_result_Inr)
  have "domain_of (be_mysql B) (ms_sql w) dn (Domain_ID d)"
    using mysql_FindDomain_spec(2) [OF D(1) refl] D(2) by (auto simp: domain_of_def to_Domain_def mysql_Domain.truncate_def)
  then show ?thesis
    using mysql_FindUser_spec(2) [OF x(1) refl] x(2) same by (auto simp: directory_def)
qed

lemmas store_ports = store_mailboxes_def store_messages_def store_domains_def store_users_def

interpretation store_quiet: quiet_ports "store_mailboxes B" "store_messages B" "store_domains B" "store_users B"
    "\<lambda>w. (owns w, directory B w)"
  for B :: "'r backend"
proof -
  have same: "(owns w', directory B w') = (owns w, directory B w)" if "grows (ms_sql w) (ms_sql w')" for w w' :: "'r MessageStore"
    using owns_grows [OF that] directory_grows [OF that] by simp
  show "quiet_ports (store_mailboxes B) (store_messages B) (store_domains B) (store_users B) (\<lambda>w. (owns w, directory B w))"
    by unfold_locales (rule same, simp add: store_ports, metis storage_reads_grow snd_conv)+
qed

interpretation store_accounts: account_reader "store_mailboxes B" "store_messages B" owns "store_domains B" "store_users B"
    "directory B"
  for B :: "'r backend"
proof unfold_locales
  fix dn n d u and w w1 w2 :: "'r MessageStore"
  assume f: "FindDomain (store_domains B) dn w = (Inr d, w1)" "FindUser (store_users B) n (Domain_ID d) w1 = (Inr u, w2)"
  then have "directory B w n dn u" using directory_answers [OF _ _ grows_refl] by (simp add: store_ports)
  then show "directory B w2 n dn u"
    using store_quiet.quiet_domain [OF f(1)] store_quiet.quiet_user [OF f(2)] by simp
qed

subsection \<open>The message filed last\<close>

lemma insort_key_append_max: "f x \<le> f m \<Longrightarrow> insort_key f x (ys @ [m]) = insort_key f x ys @ [m]"
  by (induction ys) auto

lemma sort_key_append_max: "\<forall>x \<in> set xs. f x \<le> f m \<Longrightarrow> sort_key f (xs @ [m]) = sort_key f xs @ [m]"
  by (induction xs) (simp_all add: insort_key_append_max)

text \<open>A message under the next UID of its mailbox is the last one that a listing of the mailbox shows.\<close>

lemma ListMessages_filed:
  assumes H: "healthy (be_mysql B)" and inv: "uid_inv d []" and I: "I \<in> set (mailboxes d)"
    and w: "messages (ms_sql w) = messages d @ [m]" "msg_mailbox_id m = mbx_id I" "msg_uid m = mbx_uid_next I"
  shows "\<exists>xs w'. storage_ListMessages B (mbx_id I) w = (Inr (xs @ [to_Message m]), w')
    \<and> length xs = length (filter (\<lambda>r. msg_mailbox_id r = mbx_id I) (messages d)) \<and> ms_redis w' = ms_redis w"
proof -
  let ?in = "\<lambda>ms. filter (\<lambda>r. msg_mailbox_id r = mbx_id I) ms"
  have "msg_uid r \<le> msg_uid m" if "r \<in> set (?in (messages d))" for r
  proof -
    have "below_next d (mbx_id I, msg_uid r)" using inv that by (auto simp: uid_inv_def used_uids_def)
    then obtain J where J: "J \<in> set (mailboxes d)" "mbx_id J = mbx_id I" "msg_uid r < mbx_uid_next J"
      by (auto simp: below_next_def)
    moreover have "J = I" using inv I J(1,2) by (auto simp: uid_inv_def distinct_map dest: inj_onD)
    ultimately show ?thesis using w(3) by simp
  qed
  then have sorted_last: "sort_key msg_uid (?in (messages (ms_sql w))) = sort_key msg_uid (?in (messages d)) @ [m]"
    using w(1,2) sort_key_append_max [of "?in (messages d)" msg_uid m] by simp
  obtain d' where "mysql_ListMessages (be_mysql B) (mbx_id I) (ms_sql w) = (Inr (sort_key msg_uid (?in (messages (ms_sql w)))), d')"
    by (simp add: mysql_ListMessages_def exec_sql_healthy [OF H])
  then show ?thesis
    using sorted_last by (intro exI [of _ "map to_Message (sort_key msg_uid (?in (messages d)))"] exI [of _ "w\<lparr>ms_sql := d'\<rparr>"])
      (simp add: storage_ListMessages_def map_result_def on_sql_def)
qed

end
