(* ===== verification/Mail_System.thy ===== *)
theory Mail_System
  imports Smtp_Outbox Storage_Ports
begin

text \<open>
  The running system: any number of SMTP sessions over one message store, together with the reading
  clients. A session takes a line, and when the line ends a message it delivers it to one recipient
  after the other, call by call; between any two calls the other sessions move. A session over the
  outbox says what the session over the store says (theory \<open>Smtp_Outbox\<close>), so a process carries such a
  session and the deliveries it has still to make; the lines of a command show when it is done.

  \<open>system\<close> is the step relation, \<open>play\<close> runs a schedule of actions. The system keeps the invariant of
  the store whatever the schedule, and a session that runs alone does what \<open>smtp_Handle\<close> does.

  For the reading servers, \<open>amid\<close> puts the moves of the system before every call of a port: an IMAP
  command or a JMAP request then runs while mail is being delivered.
\<close>

interpretation store_silent: silent_pipeline "store_delivery B" for B :: "'r backend"
  by unfold_locales (simp add: store_delivery_def storage_Deliver_def)

subsection \<open>Processes\<close>

datatype smtp_proc =
    Ready "MessageReceived list smtp_session"
  | Delivering "MessageReceived list smtp_session" bool "dlv list"
  | Closed "MessageReceived list smtp_session"

fun proc_queue :: "smtp_proc \<Rightarrow> dlv list" where
  "proc_queue (Delivering s stop q) = q"
| "proc_queue _ = []"

fun proc_session :: "smtp_proc \<Rightarrow> MessageReceived list smtp_session" where
  "proc_session (Ready s) = s"
| "proc_session (Delivering s stop q) = s"
| "proc_session (Closed s) = s"

definition settle :: "MessageReceived list smtp_session \<Rightarrow> bool \<Rightarrow> dlv list \<Rightarrow> smtp_proc" where
  "settle s stop q = (if q \<noteq> [] then Delivering s stop q else if stop then Closed s else Ready s)"

definition deliveries :: "MessageReceived \<Rightarrow> dlv list" where
  "deliveries e = map (\<lambda>rcpt. AtDomain (Received_From e) rcpt (Received_Body e)) (Received_To e)"

fun is_finished :: "dlv \<Rightarrow> bool" where
  "is_finished (Finished err) = True"
| "is_finished _ = False"

text \<open>A move of one process: a turn of its loop, or the next call of the delivery in progress.\<close>

fun advance ::
    "'v smtp_env \<Rightarrow> 'r backend \<Rightarrow> smtp_proc \<Rightarrow> 'r MessageStore \<Rightarrow> smtp_proc \<times> 'r MessageStore" where
  "advance E B (Ready s) w =
     (case smtp_step (with_outbox E) (s\<lparr>store := []\<rparr>) of
        (s', stop) \<Rightarrow> (settle s' stop (concat (map deliveries (store s'))), w))"
| "advance E B (Delivering s stop []) w = (settle s stop [], w)"
| "advance E B (Delivering s stop (th # q)) w =
     (case dlv_step B (th, w) of
        (th', w') \<Rightarrow> (settle s stop (if is_finished th' then q else th' # q), w'))"
| "advance E B (Closed s) w = (Closed s, w)"

datatype read_call =
    RdDomain string | RdUser string uint64 | RdMailbox uint64 string | RdMailboxes uint64
  | RdMailboxByID uint64 | RdMessages uint64 | RdMessage uint64 uint32 | RdBody uint64

fun read_store :: "'r backend \<Rightarrow> read_call \<Rightarrow> 'r MessageStore \<Rightarrow> 'r MessageStore" where
  "read_store B (RdDomain n) w = snd (storage_FindDomain B n w)"
| "read_store B (RdUser n d) w = snd (storage_FindUser B n d w)"
| "read_store B (RdMailbox u n) w = snd (storage_FindMailbox B u n w)"
| "read_store B (RdMailboxes u) w = snd (storage_ListMailboxes B u w)"
| "read_store B (RdMailboxByID b) w = snd (storage_GetMailboxByID B b w)"
| "read_store B (RdMessages b) w = snd (storage_ListMessages B b w)"
| "read_store B (RdMessage b u) w = snd (storage_GetMessageByUID B b u w)"
| "read_store B (RdBody i) w = snd (storage_GetMessageBody B i w)"

definition connect :: "'v smtp_env \<Rightarrow> stream \<Rightarrow> bool \<Rightarrow> smtp_proc" where
  "connect E c overTLS =
     Ready (smtp_write (''220 '' @ SMTP_Domain (cfg_SMTP (smtp_cfg E)) @ '' ESMTP gomail-core ready'')
       (smtp_NewSession c overTLS []))"

datatype action = Connect stream bool | Advance nat | Read read_call

fun act :: "'v smtp_env \<Rightarrow> 'r backend \<Rightarrow> action \<Rightarrow> smtp_proc list \<times> 'r MessageStore \<Rightarrow> smtp_proc list \<times> 'r MessageStore" where
  "act E B (Connect c t) (ps, w) = (ps @ [connect E c t], w)"
| "act E B (Advance i) (ps, w) =
     (if i < length ps then (case advance E B (ps ! i) w of (p, w') \<Rightarrow> (ps[i := p], w')) else (ps, w))"
| "act E B (Read rc) (ps, w) = (ps, read_store B rc w)"

inductive system :: "'v smtp_env \<Rightarrow> 'r backend \<Rightarrow> smtp_proc list \<times> 'r MessageStore \<Rightarrow> smtp_proc list \<times> 'r MessageStore \<Rightarrow> bool"
  for E :: "'v smtp_env" and B :: "'r backend" where
  connects: "system E B (ps, w) (ps @ [connect E c t], w)"
| advances: "i < length ps \<Longrightarrow> advance E B (ps ! i) w = (p, w') \<Longrightarrow> system E B (ps, w) (ps[i := p], w')"
| reads: "system E B (ps, w) (ps, read_store B rc w)"

definition play :: "'v smtp_env \<Rightarrow> 'r backend \<Rightarrow> action list \<Rightarrow> smtp_proc list \<times> 'r MessageStore \<Rightarrow> smtp_proc list \<times> 'r MessageStore" where
  "play E B as = fold (act E B) as"

lemma act_system: "(system E B)\<^sup>*\<^sup>* c (act E B a c)"
proof (cases c)
  case (Pair ps w)
  then show ?thesis
    by (cases a) (auto intro: system.intros split: prod.split)
qed

lemma play_system: "(system E B)\<^sup>*\<^sup>* c (play E B as c)"
proof (induction as arbitrary: c)
  case (Cons a as)
  have "(system E B)\<^sup>*\<^sup>* (act E B a c) (play E B as (act E B a c))" by (rule Cons.IH)
  then show ?case using act_system [of E B c a] by (simp add: play_def)
qed (simp add: play_def)

subsection \<open>The accounts stay\<close>

lemma on_sql_uid_grows: "on_sql (mysql_AllocateUID S b) s = (x, s') \<Longrightarrow> grows (ms_sql s) (ms_sql s')"
  by (auto simp: on_sql_def dest: AllocateUID_grows split: prod.splits)

lemma dlv_step_grows:
  assumes "dlv_step B (th, s) = (th', s')"
  shows "grows (ms_sql s) (ms_sql s')"
proof (cases th)
  case (AtInsert sender rcpt body b u)
  obtain r d' where ins: "mysql_InsertMessage (be_mysql B) (new_message b u sender rcpt body (be_Now B (ms_ticks s))) (ms_sql s) = (r, d')"
    by fastforce
  then have "ms_sql s' = d'" using assms AtInsert by (auto simp: on_sql_def split: sum.splits)
  with ins show ?thesis by (cases rule: InsertMessage_cases) (simp_all add: same_tables_grows)
qed (use assms in \<open>auto dest!: on_sql_grows [OF _ read_only_ops(1)] on_sql_grows [OF _ read_only_ops(2)]
      on_sql_grows [OF _ read_only_ops(4)] on_sql_uid_grows on_redis_sql
      split: prod.splits sum.splits option.splits\<close>)

lemma read_grows: "grows (ms_sql w) (ms_sql (read_store B rc w))"
  by (cases rc) (simp_all add: storage_reads_grow)

lemma advance_grows: "advance E B p w = (p', w') \<Longrightarrow> grows (ms_sql w) (ms_sql w')"
  by (induction E B p w rule: advance.induct) (auto dest: dlv_step_grows split: prod.splits)

lemma system_grows: "(system E B)\<^sup>*\<^sup>* c c' \<Longrightarrow> grows (ms_sql (snd c)) (ms_sql (snd c'))"
proof (induction rule: rtranclp_induct)
  case (step c' c'')
  from step.hyps(2) have "grows (ms_sql (snd c')) (ms_sql (snd c''))"
    by cases (auto dest: advance_grows simp: read_grows)
  then show ?case using step.IH grows_trans by blast
qed simp

subsection \<open>The invariant\<close>

lemma store_inv_mset:
  assumes "mset ths = mset ths'"
  shows "store_inv S view (ths, w) = store_inv S view (ths', w)"
proof -
  have "mset (concat (map dlv_pending ths)) = mset (concat (map dlv_pending ths'))"
    using assms by (simp add: mset_concat) (metis mset_map sum_mset_sum_list)
  then have "uid_inv (ms_sql w) (concat (map dlv_pending ths)) = uid_inv (ms_sql w) (concat (map dlv_pending ths'))"
    by (rule uid_inv_mset)
  then show ?thesis
    using mset_eq_setD [OF assms] by (simp add: store_inv_def list_all_iff)
qed

lemma store_inv_first:
  assumes "redis_writes (be_redis B) view" "store_inv (be_mysql B) view (th # ths, w)" "dlv_step B (th, w) = (th', w')"
  shows "store_inv (be_mysql B) view (th' # ths, w')"
  using store_inv_step [OF assms(1,2) concurrent.steps [of 0]] assms(3) by simp

lemma store_inv_finished: "is_finished th \<Longrightarrow> store_inv S view (th # ths, w) = store_inv S view (ths, w)"
  by (cases th) (simp_all add: store_inv_def)

lemma store_inv_deliveries:
  "store_inv S view (concat (map deliveries evs) @ ths, w) = store_inv S view (ths, w)"
proof -
  have "dlv_pending th = [] \<and> dlv_ok S d th" if "th \<in> set (concat (map deliveries evs))" for th d
    using that by (auto simp: deliveries_def)
  then have "concat (map dlv_pending (concat (map deliveries evs))) = []"
    "list_all (dlv_ok S (ms_sql w)) (concat (map deliveries evs))"
    by (auto simp: list_all_iff)
  then show ?thesis by (simp add: store_inv_def del: concat_eq_Nil_conv)
qed

lemma read_keeps_inv:
  assumes "redis_reads (be_redis B) view" "store_inv (be_mysql B) view (ths, w)"
  shows "store_inv (be_mysql B) view (ths, read_store B rc w)"
proof -
  let ?w = "read_store B rc w"
  have sql: "same_tables (ms_sql w) (ms_sql (snd (map_result g (on_sql f) w)))"
      "ms_redis (snd (map_result g (on_sql f) w)) = ms_redis w"
    if "read_only f" for f :: "(db, 'b) op" and g :: "'b \<Rightarrow> 'c"
    using on_sql_read [OF _ that] by (fastforce simp: map_result_def split: prod.split)+
  have body: "view (snd (redis_GetMessageBody (be_redis B) i r)) \<subseteq>\<^sub>m view r" for i r
    using assms(1) by (auto simp: redis_GetMessageBody_def redis_reads_def split: prod.split sum.split)
  have get: "ms_sql (snd (storage_GetMessageBody B i w)) = ms_sql w"
      "ms_redis (snd (storage_GetMessageBody B i w)) = snd (redis_GetMessageBody (be_redis B) i (ms_redis w))" for i
    by (simp_all add: storage_GetMessageBody_def on_redis_def split: prod.split)
  have t: "same_tables (ms_sql w) (ms_sql ?w)" and v: "view (ms_redis ?w) \<subseteq>\<^sub>m view (ms_redis w)"
    by (cases rc; simp add: sql read_only_ops get body storage_FindDomain_def storage_FindUser_def
        storage_FindMailbox_def storage_ListMailboxes_def storage_GetMailboxByID_def storage_ListMessages_def
        storage_GetMessageByUID_def)+
  have g: "grows (ms_sql w) (ms_sql ?w)" using t by (rule same_tables_grows)
  have "messages (ms_sql ?w) = messages (ms_sql w)" using t by (simp add: same_tables_iff)
  then have "routed (be_mysql B) (ms_sql ?w)" using assms(2) routed_same [OF g] by (simp add: store_inv_def)
  moreover have "cache_ok view ?w"
    unfolding cache_ok_def
  proof (intro allI impI)
    fix i b assume "view (ms_redis ?w) (messageBodyKey i) = Some b"
    then have "view (ms_redis w) (messageBodyKey i) = Some b" using v by (metis map_le_def domI)
    then show "has_row (ms_sql ?w) i b" using assms(2) has_row_grows [OF g] by (simp add: store_inv_def cache_ok_def)
  qed
  moreover have "list_all (dlv_ok (be_mysql B) (ms_sql ?w)) ths"
    using assms(2) dlv_ok_grows [OF g] by (simp add: store_inv_def list_all_iff)
  ultimately show ?thesis using assms(2) uid_inv_same_tables [OF t] by (simp add: store_inv_def)
qed

definition sys_inv :: "mysql_server \<Rightarrow> ('r \<Rightarrow> string \<rightharpoonup> bytes) \<Rightarrow> smtp_proc list \<times> 'r MessageStore \<Rightarrow> bool" where
  "sys_inv S view c \<longleftrightarrow> store_inv S view (concat (map proc_queue (fst c)), snd c)
     \<and> (\<forall>p \<in> set (fst c). smtp_inv (proc_session p))"

lemma smtp_step_inv:
  assumes "looplab_contract (smtp_Event E)" "smtp_inv s" "smtp_step E s = (s', stop)"
  shows "smtp_inv s'"
proof -
  have "smtp_inv t" if "smtp_dispatch E line (s\<lparr>reader := b, conn := c\<rparr>) = (t, q)" for line b c t q
    using smtp_dispatch_inv_delivers [OF assms(1) _ that] assms(2) by simp
  then show ?thesis using assms(2,3) by (auto simp: smtp_step_def Let_def split: prod.splits option.splits if_splits)
qed

lemma settle_fields [simp]: "proc_queue (settle s stop q) = q" "proc_session (settle s stop q) = s"
  by (simp_all add: settle_def)

lemma advance_inv:
  assumes C: "redis_writes (be_redis B) view" and fsm: "looplab_contract (smtp_Event E)"
    and inv: "store_inv (be_mysql B) view (proc_queue p @ rest, w)" "smtp_inv (proc_session p)"
    and st: "advance E B p w = (p', w')"
  shows "store_inv (be_mysql B) view (proc_queue p' @ rest, w') \<and> smtp_inv (proc_session p')"
proof (cases p)
  case (Ready s)
  obtain t stop where t: "smtp_step (with_outbox E) (s\<lparr>store := []\<rparr>) = (t, stop)" by fastforce
  have "smtp_inv t" using smtp_step_inv [OF _ _ t] fsm inv(2) Ready by simp
  then show ?thesis using st inv(1) t Ready by (auto simp: store_inv_deliveries)
next
  case (Delivering s stop q)
  show ?thesis
  proof (cases q)
    case Nil
    then show ?thesis using Delivering st inv by auto
  next
    case (Cons th q')
    obtain th' w1 where d: "dlv_step B (th, w) = (th', w1)" by fastforce
    have "store_inv (be_mysql B) view (th' # q' @ rest, w1)"
      using store_inv_first [OF C _ d] inv(1) Delivering Cons by simp
    then show ?thesis using st d Delivering Cons inv(2) store_inv_finished [of th' "be_mysql B" view "q' @ rest" w1] by (auto split: if_splits)
  qed
next
  case (Closed s)
  then show ?thesis using st inv by simp
qed

lemma system_inv:
  assumes C: "redis_contract (be_redis B) view" and fsm: "looplab_contract (smtp_Event E)"
    and "(system E B)\<^sup>*\<^sup>* c c'" "sys_inv (be_mysql B) view c"
  shows "sys_inv (be_mysql B) view c'"
  using assms(3,4)
proof (induction rule: rtranclp_induct)
  case (step c1 c2)
  have W: "redis_writes (be_redis B) view" and R: "redis_reads (be_redis B) view"
    using C by (simp_all add: redis_contract_def)
  have inv: "sys_inv (be_mysql B) view c1" using step.IH step.prems by blast
  from step.hyps(2) show ?case
  proof cases
    case (connects ps w c t)
    then show ?thesis using inv smtp_inv_NewSession by (auto simp: sys_inv_def connect_def)
  next
    case (reads ps w rc)
    then show ?thesis using inv read_keeps_inv [OF R] by (simp add: sys_inv_def)
  next
    case (advances i ps w p w')
    let ?rest = "concat (map proc_queue (take i ps @ drop (Suc i) ps))"
    have "store_inv (be_mysql B) view (proc_queue (ps ! i) @ ?rest, w)" "smtp_inv (proc_session (ps ! i))"
      using inv advances store_inv_mset [OF mset_concat_nth [OF advances(3), of proc_queue], of "be_mysql B" view w]
      by (simp_all add: sys_inv_def)
    then have "store_inv (be_mysql B) view (proc_queue p @ ?rest, w') \<and> smtp_inv (proc_session p)"
      using advance_inv [OF W fsm _ _ advances(4)] by blast
    then show ?thesis
      using inv advances store_inv_mset [OF mset_concat_update [OF advances(3), of proc_queue p], of "be_mysql B" view w']
      by (auto simp: sys_inv_def dest!: set_update_subset_insert [THEN subsetD])
  qed
qed

subsection \<open>A session that runs alone\<close>

lemma advances_alone: "advance E B p w = (p', w') \<Longrightarrow> system E B ([p], w) ([p'], w')"
  using system.advances [of 0 "[p]"] by simp

lemma finished_stays: "is_finished th \<Longrightarrow> (dlv_step B ^^ n) (th, w) = (th, w)"
  by (induction n) (cases th; simp)+

lemma delivery_alone:
  assumes "(dlv_step B ^^ n) (th, w) = (Finished e, w')" "\<not> is_finished th"
  shows "(system E B)\<^sup>*\<^sup>* ([settle s stop (th # q)], w) ([settle s stop q], w')"
  using assms
proof (induction n arbitrary: th w)
  case (Suc n)
  obtain th1 w1 where d: "dlv_step B (th, w) = (th1, w1)" by fastforce
  then have rest: "(dlv_step B ^^ n) (th1, w1) = (Finished e, w')" using Suc.prems(1) by (simp add: funpow_swap1)
  have st: "system E B ([settle s stop (th # q)], w) ([settle s stop (if is_finished th1 then q else th1 # q)], w1)"
    by (rule advances_alone) (simp add: settle_def d)
  show ?case
  proof (cases "is_finished th1")
    case True
    then have "w1 = w'" using rest by (simp add: finished_stays [OF True])
    then show ?thesis using st True by auto
  next
    case False
    then show ?thesis using st Suc.IH [OF rest False] by (auto intro: converse_rtranclp_into_rtranclp)
  qed
qed (cases th; simp)

lemma recipients_alone:
  "(system E B)\<^sup>*\<^sup>* ([settle s stop (map (\<lambda>rcpt. AtDomain f rcpt body) rcpts @ q)], w)
     ([settle s stop q], deliver_loop B f body rcpts w)"
proof (induction rcpts arbitrary: w)
  case (Cons r rs)
  obtain err w1 where d: "deliverTo B f r body w = (err, w1)" by fastforce
  then have "(dlv_step B ^^ 6) (AtDomain f r body, w) = (Finished err, w1)" by (simp add: deliverTo_steps)
  then have "(system E B)\<^sup>*\<^sup>* ([settle s stop (AtDomain f r body # map (\<lambda>rcpt. AtDomain f rcpt body) rs @ q)], w)
      ([settle s stop (map (\<lambda>rcpt. AtDomain f rcpt body) rs @ q)], w1)"
    by (rule delivery_alone) simp
  then show ?case using Cons.IH [of w1] d by (auto intro: rtranclp_trans)
qed simp

lemma events_alone:
  "(system E B)\<^sup>*\<^sup>* ([settle s stop (concat (map deliveries evs))], w)
     ([settle s stop []], deliver_all (store_delivery B) evs w)"
proof (induction evs arbitrary: w)
  case (Cons e evs)
  let ?w = "deliver_loop B (Received_From e) (Received_Body e) (Received_To e) w"
  have "(system E B)\<^sup>*\<^sup>* ([settle s stop (deliveries e @ concat (map deliveries evs))], w)
      ([settle s stop (concat (map deliveries evs))], ?w)"
    unfolding deliveries_def by (rule recipients_alone)
  moreover have "snd (Deliver (store_delivery B) e w) = ?w" by (simp add: store_delivery_def storage_Deliver_def)
  ultimately show ?case using Cons.IH [of ?w] by (auto intro: rtranclp_trans)
qed simp

lemma turn_alone:
  assumes "smtp_delivery E = store_delivery B" "smtp_step E s = (s', stop)"
  shows "\<exists>v'. (system E B)\<^sup>*\<^sup>* ([Ready (over v s)], store s) ([settle (over v' s') stop []], store s')"
proof -
  have "matches (store_delivery B) (store s) s (over [] s)" by (auto simp: matches_def)
  then obtain t where t: "smtp_step (with_outbox E) (over [] s) = (t, stop)" "matches (store_delivery B) (store s) s' t"
    using store_silent.smtp_step_matches [OF assms(1) _ assms(2)] by blast
  then obtain evs where evs: "t = over evs s'" "store s' = deliver_all (store_delivery B) evs (store s)"
    by (auto simp: matches_def)
  have "system E B ([Ready (over v s)], store s) ([settle t stop (concat (map deliveries evs))], store s)"
    by (rule advances_alone) (use t(1) evs(1) in \<open>simp add: over_updates\<close>)
  then show ?thesis
    using events_alone [of E B t stop evs "store s"] evs by (metis converse_rtranclp_into_rtranclp)
qed

lemma loop_alone:
  assumes "smtp_delivery E = store_delivery B"
  shows "\<exists>v'. (system E B)\<^sup>*\<^sup>* ([Ready (over v s)], store s) ([Closed (over v' (smtp_loop E s))], store (smtp_loop E s))"
proof (induction s arbitrary: v rule: smtp_turns_induct [of E])
  case (turn s)
  obtain s' stop where st: "smtp_step E s = (s', stop)" by fastforce
  obtain v1 where run: "(system E B)\<^sup>*\<^sup>* ([Ready (over v s)], store s) ([settle (over v1 s') stop []], store s')"
    using turn_alone [OF assms st] by blast
  show ?case
  proof (cases stop)
    case True
    then show ?thesis using run st by (auto simp: settle_def smtp_loop_step [of E s])
  next
    case False
    then have more: "smtp_step E s = (s', False)" using st by simp
    then obtain v2 where "(system E B)\<^sup>*\<^sup>* ([Ready (over v1 s')], store s') ([Closed (over v2 (smtp_loop E s'))], store (smtp_loop E s'))"
      using turn.IH [OF more, of v1] by blast
    moreover have "(system E B)\<^sup>*\<^sup>* ([Ready (over v s)], store s) ([Ready (over v1 s')], store s')"
      using run False by (simp add: settle_def)
    ultimately show ?thesis using st False by (auto simp: smtp_loop_step [of E s] intro: rtranclp_trans)
  qed
qed

subsection \<open>The reading ports in the running system\<close>

type_synonym 'r world = "(smtp_proc list \<times> 'r MessageStore) \<times> nat"

text \<open>Before the \<open>n\<close>-th call of the ports the system plays the actions \<open>sched n\<close>.\<close>

definition amid :: "'v smtp_env \<Rightarrow> 'r backend \<Rightarrow> (nat \<Rightarrow> action list) \<Rightarrow> ('r, 'a) store_op \<Rightarrow> ('r world, 'a) op" where
  "amid E B sched f c =
     (case play E B (sched (snd c)) (fst c) of
        (ps, w) \<Rightarrow> (case f w of (x, w') \<Rightarrow> (x, ((ps, w'), Suc (snd c)))))"

definition amid_mailboxes :: "'v smtp_env \<Rightarrow> 'r backend \<Rightarrow> (nat \<Rightarrow> action list) \<Rightarrow> 'r world MailboxReader" where
  "amid_mailboxes E B sched =
     \<lparr>FindMailbox = (\<lambda>u n. amid E B sched (FindMailbox (store_mailboxes B) u n)),
      ListMailboxes = (\<lambda>u. amid E B sched (ListMailboxes (store_mailboxes B) u)),
      GetMailboxByID = (\<lambda>i. amid E B sched (GetMailboxByID (store_mailboxes B) i))\<rparr>"

definition amid_messages :: "'v smtp_env \<Rightarrow> 'r backend \<Rightarrow> (nat \<Rightarrow> action list) \<Rightarrow> 'r world MessageReader" where
  "amid_messages E B sched =
     \<lparr>GetMessageBody = (\<lambda>i. amid E B sched (GetMessageBody (store_messages B) i)),
      ListMessages = (\<lambda>b. amid E B sched (ListMessages (store_messages B) b)),
      GetMessageByUID = (\<lambda>b u. amid E B sched (GetMessageByUID (store_messages B) b u))\<rparr>"

definition amid_domains :: "'v smtp_env \<Rightarrow> 'r backend \<Rightarrow> (nat \<Rightarrow> action list) \<Rightarrow> 'r world DomainResolver" where
  "amid_domains E B sched = \<lparr>FindDomain = (\<lambda>n. amid E B sched (FindDomain (store_domains B) n))\<rparr>"

definition amid_users :: "'v smtp_env \<Rightarrow> 'r backend \<Rightarrow> (nat \<Rightarrow> action list) \<Rightarrow> 'r world UserAuthenticator" where
  "amid_users E B sched = \<lparr>FindUser = (\<lambda>n d. amid E B sched (FindUser (store_users B) n d))\<rparr>"

definition owns_now :: "'r world \<Rightarrow> uint64 \<Rightarrow> uint64 \<Rightarrow> bool" where
  "owns_now c = owns (snd (fst c))"

definition directory_now :: "'r backend \<Rightarrow> 'r world \<Rightarrow> string \<Rightarrow> string \<Rightarrow> User \<Rightarrow> bool" where
  "directory_now B c = directory B (snd (fst c))"

lemma amidE:
  assumes "amid E B sched f c = (x, c')"
  obtains w where "f w = (x, snd (fst c'))" "grows (ms_sql (snd (fst c))) (ms_sql w)"
proof -
  obtain ps w where p: "play E B (sched (snd c)) (fst c) = (ps, w)" by fastforce
  then have "grows (ms_sql (snd (fst c))) (ms_sql w)"
    using system_grows [OF play_system [of E B "fst c" "sched (snd c)"]] by simp
  then show thesis using assms p that by (auto simp: amid_def split: prod.splits)
qed

lemma amid_view:
  assumes "amid E B sched f c = (x, c')"
  obtains w where "f w = (x, snd (fst c'))" "(owns w, directory B w) = (owns_now c, directory_now B c)"
  using assms
proof (rule amidE)
  fix w
  assume f: "f w = (x, snd (fst c'))" and g: "grows (ms_sql (snd (fst c))) (ms_sql w)"
  show thesis using that [OF f] owns_grows [OF g] directory_grows [OF g] by (simp add: owns_now_def directory_now_def)
qed

lemmas amid_ports = amid_mailboxes_def amid_messages_def amid_domains_def amid_users_def

lemma amid_system:
  assumes "\<And>w. snd (f w) = read_store B rc w"
  shows "(system E B)\<^sup>*\<^sup>* (fst c) (fst (snd (amid E B sched f c)))"
proof -
  obtain ps w where p: "play E B (sched (snd c)) (fst c) = (ps, w)" by fastforce
  then have "fst (snd (amid E B sched f c)) = (ps, read_store B rc w)"
    using assms [of w] by (auto simp: amid_def split: prod.splits)
  then show ?thesis
    using play_system [of E B "fst c" "sched (snd c)"] system.reads [of E B ps w rc] p by (metis rtranclp.rtrancl_into_rtrancl)
qed

lemma amid_messages_system:
  "(system E B)\<^sup>*\<^sup>* (fst c) (fst (snd (ListMessages (amid_messages E B sched) b c)))"
  "(system E B)\<^sup>*\<^sup>* (fst c) (fst (snd (GetMessageBody (amid_messages E B sched) i c)))"
  by (simp_all add: amid_messages_def store_messages_def
      amid_system [where rc = "RdMessages b"] amid_system [where rc = "RdBody i"])

lemma amid_messages_rows:
  assumes "ListMessages (amid_messages E B sched) b c = (Inr xs, c')"
  shows "\<exists>rows. xs = map to_Message rows \<and> sorted (map msg_uid rows)
    \<and> (\<forall>m \<in> set rows. m \<in> set (messages (ms_sql (snd (fst c')))) \<and> msg_mailbox_id m = b)"
proof -
  obtain w where w: "storage_ListMessages B b w = (Inr xs, snd (fst c'))"
    using assms by (auto simp: amid_messages_def store_messages_def elim: amidE)
  let ?rows = "sort_key msg_uid (filter (\<lambda>m. msg_mailbox_id m = b) (messages (ms_sql w)))"
  have "xs = map to_Message ?rows"
    using w by (auto simp: storage_ListMessages_def map_result_Inr dest!: mysql_ListMessages_spec(2) [OF _ refl])
  moreover have "prefix (messages (ms_sql w)) (messages (ms_sql (snd (fst c'))))"
    using storage_reads_grow(6) [of w B b] w by (simp add: grows_def)
  ultimately show ?thesis
    by (intro exI [of _ ?rows]) (auto dest: set_mono_prefix)
qed

lemma amid_quiet:
  assumes "\<And>w x w'. f w = (x, w') \<Longrightarrow> (owns w', directory B w') = (owns w, directory B w)"
    and "amid E B sched f c = (x, c')"
  shows "(owns_now c', directory_now B c') = (owns_now c, directory_now B c)"
  using assms(2)
proof (rule amid_view)
  fix w
  assume "f w = (x, snd (fst c'))" "(owns w, directory B w) = (owns_now c, directory_now B c)"
  then show ?thesis using assms(1) by (metis owns_now_def directory_now_def)
qed

interpretation running_quiet: quiet_ports "amid_mailboxes E B sched" "amid_messages E B sched" "amid_domains E B sched"
    "amid_users E B sched" "\<lambda>c. (owns_now c, directory_now B c)"
  for E :: "'v smtp_env" and B :: "'r backend" and sched
  by unfold_locales (unfold amid_ports MailboxReader.simps MessageReader.simps DomainResolver.simps UserAuthenticator.simps,
    (erule amid_quiet [rotated], erule store_quiet.quiet_find store_quiet.quiet_list store_quiet.quiet_messages
      store_quiet.quiet_body store_quiet.quiet_domain store_quiet.quiet_user)+)

interpretation running: account_reader "amid_mailboxes E B sched" "amid_messages E B sched" owns_now
    "amid_domains E B sched" "amid_users E B sched" "directory_now B"
  for E :: "'v smtp_env" and B :: "'r backend" and sched
proof unfold_locales
  fix u n m and c c' :: "'r world"
  assume "FindMailbox (amid_mailboxes E B sched) u n c = (Inr m, c')"
  then show "Mailbox_UserID m = u \<and> owns_now c (Mailbox_ID m) u"
    by (auto simp: amid_ports dest: store_reader.find_owned elim!: amid_view)
next
  fix u ms m and c c' :: "'r world"
  assume "ListMailboxes (amid_mailboxes E B sched) u c = (Inr ms, c')" "m \<in> set ms"
  then show "Mailbox_UserID m = u \<and> owns_now c (Mailbox_ID m) u"
    by (auto simp: amid_ports elim!: amid_view) (metis store_reader.list_owned)+
next
  fix b xs x and c c' :: "'r world"
  assume "ListMessages (amid_messages E B sched) b c = (Inr xs, c')" "x \<in> set xs"
  then show "Message_MailboxID x = b"
    by (auto simp: amid_ports elim!: amidE dest: store_reader.messages_inside)
next
  fix b xs and c c' :: "'r world"
  assume "ListMessages (amid_messages E B sched) b c = (Inr xs, c')"
  then show "sorted (map Message_UID xs)"
    by (auto simp: amid_ports elim!: amidE dest: store_reader.messages_sorted)
next
  fix dn n d u and c c1 c2 :: "'r world"
  assume f: "FindDomain (amid_domains E B sched) dn c = (Inr d, c1)" "FindUser (amid_users E B sched) n (Domain_ID d) c1 = (Inr u, c2)"
  obtain w where w: "storage_FindDomain B dn w = (Inr d, snd (fst c1))" "directory B w = directory_now B c"
    using f(1) by (auto simp: amid_domains_def store_ports elim!: amid_view)
  obtain w' where "storage_FindUser B n (Domain_ID d) w' = (Inr u, snd (fst c2))" "grows (ms_sql (snd (fst c1))) (ms_sql w')"
    using f(2) by (auto simp: amid_users_def store_ports elim!: amidE)
  then have "directory_now B c n dn u" using directory_answers [OF w(1)] w(2) by metis
  then show "directory_now B c2 n dn u"
    using running_quiet.quiet_domain [OF f(1)] running_quiet.quiet_user [OF f(2)] by simp
qed (metis prod.collapse prod.inject running_quiet.quiet_find running_quiet.quiet_list
    running_quiet.quiet_messages running_quiet.quiet_body)+

end
