(* ===== verification/Spec2Isabelle.thy ===== *)
theory Spec2Isabelle
  imports Smtp_Properties Imap_Properties Jmap_Properties Server Mail_System
begin

text \<open>
  A verification of \<^verbatim>\<open>gomail-core\<close>, a mail server in Go with an SMTP, an IMAP and a JMAP server over one
  message store.

  \<^bold>\<open>The program and its parts.\<close> The SMTP server (\<^verbatim>\<open>internal/smtp\<close>) runs one session per connection: a
  state machine that collects an envelope and hands each message to the port \<^verbatim>\<open>DeliveryPipeline\<close>. The
  IMAP server (\<^verbatim>\<open>internal/imap\<close>) runs one session per connection over the ports \<^verbatim>\<open>MailboxReader\<close>,
  \<^verbatim>\<open>MessageReader\<close>, \<^verbatim>\<open>DomainResolver\<close> and \<^verbatim>\<open>UserAuthenticator\<close>; the JMAP server (\<^verbatim>\<open>internal/jmap\<close>) answers HTTP
  requests over the same ports. Behind all of them stands \<^verbatim>\<open>MessageStore\<close>
  (\<^verbatim>\<open>internal/storage/message_store.go\<close>) with its MySQL and Redis stores. The programs of \<^verbatim>\<open>cmd\<close> read the
  configuration (\<^verbatim>\<open>config\<close>), load the TLS configuration (\<^verbatim>\<open>internal/security\<close>) and wire the parts.

  \<^bold>\<open>The theories.\<close>
  \<^item> \<open>GoLib\<close>: the prelude; Go's integers, errors, strings, UTF-8 and the verbs of \<^verbatim>\<open>fmt\<close>, with their laws
    and the collections \<open>go_str\<close>, \<open>frame\<close> and \<open>size_laws\<close>.
  \<^item> \<open>GoNet\<close>: connections as sequences of read results and \<^verbatim>\<open>bufio.Reader.ReadString\<close>.
  \<^item> \<open>Fsm\<close>: the machines of \<^verbatim>\<open>looplab/fsm\<close>: their tables as data, \<^verbatim>\<open>FSM.Event\<close> as a parameter with the
    documented behaviour \<open>looplab_contract\<close>.
  \<^item> \<open>Ports\<close>: \<^verbatim>\<open>internal/ports\<close>; each port is a record of operations over a state, and the contracts the
    clients rely on are the locales \<open>delivery_pipeline\<close>, \<open>silent_pipeline\<close>, \<open>mail_reader\<close>, \<open>quiet_ports\<close> and
    \<open>account_reader\<close>.
  \<^item> \<open>Config\<close>: \<^verbatim>\<open>config/config.go\<close> and \<^verbatim>\<open>internal/security/tls.go\<close>.
  \<^item> \<open>Smtp\<close> (\<^verbatim>\<open>envelope.go\<close>, \<^verbatim>\<open>handler.go\<close>, \<^verbatim>\<open>session.go\<close>), \<open>Smtp_Correct\<close>, \<open>Smtp_Properties\<close>: the session as a
    record, one function per handler, the read loop \<open>smtp_loop\<close>; the invariant \<open>smtp_inv\<close>, the round trip of
    dot stuffing, the deliveries of a session.
  \<^item> \<open>Smtp_Outbox\<close>: a session over a port that never reports an error is the session over a port that only
    writes events down, followed by their delivery.
  \<^item> \<open>Mysql\<close>, \<open>Redis\<close>: the two stores. A table is a list of rows, a statement a function on the
    database; the constraints that the migration declares on UIDs, ids and mailboxes are checked.
  \<^item> \<open>Storage\<close>, \<open>Storage_Correct\<close>, \<open>Storage_Properties\<close>: the message store; \<open>deliverTo\<close>, its six steps as
    \<open>dlv_step\<close>, their interleavings as the inductive relation \<open>concurrent\<close>, and the invariant \<open>store_inv\<close>.
  \<^item> \<open>Storage_Delivery\<close>: delivery to a list of recipients over servers that answer; who of them gets the
    message, and that the cache holds its body.
  \<^item> \<open>Imap\<close>, \<open>Imap_Correct\<close>, \<open>Imap_Properties\<close>: the IMAP session, the sessions any input leads to
    (\<open>imap_reach\<close>, an inductive predicate that records the lines handled and in which the storage may
    change between commands), their invariant, who is logged in and the shape of replies.
  \<^item> \<open>Imap_Lines\<close>: the read loop against a reference that handles the lines of the input one by one.
  \<^item> \<open>Json\<close>, \<open>Json_Round_Trip\<close>: the text of JSON as \<^verbatim>\<open>encoding/json\<close> writes and reads it, and its round trips.
  \<^item> \<open>Jmap\<close>, \<open>Jmap_Properties\<close>: tokens, requests and answers from their bytes to the Go values and back,
    the handlers and routes.
  \<^item> \<open>Server\<close>: the servers, their accept loops and the start-up of the three programs.
  \<^item> \<open>Storage_Ports\<close>: the message store as the instance of the reading ports (interpretations of
    \<open>mail_reader\<close>, \<open>quiet_ports\<close> and \<open>account_reader\<close>; those of \<open>delivery_pipeline\<close> are in \<open>Storage_Correct\<close>).
  \<^item> \<open>Mail_System\<close>: the running system. Any number of SMTP sessions over one store, each a process that
    takes a line or makes the next call of a delivery; \<open>system\<close> is the step relation, \<open>play\<close> runs a schedule.
    \<open>amid\<close> puts moves of the system before every call of a reading port, and these ports are a second
    instance of the contracts, so that what the IMAP and JMAP servers guarantee holds while mail is
    being delivered.
  \<^item> This theory: the properties of the servers over the message store and of the running system.

  \<^bold>\<open>What is shown.\<close> SMTP: a session changes the storage only by delivering well-formed messages; the
  body delivered is the one the client sent, however the network cuts it; commands follow the order
  of RFC 5321; STARTTLS discards what came in the clear. Storage: under any interleaving of
  deliveries and any loss of statements or answers, UIDs are unique and ascending, messages lie in
  the INBOX of their recipient and the cache never answers with another message's body; a database
  that answers files each message for every recipient that resolves, also after one that fails. System: all of this holds for any number of sessions at once, and a
  session alone does what the code's session does. IMAP and JMAP: a client reads the mail of the
  account whose password it gave, and no other, while mail is being delivered; what was sent over SMTP
  is what FETCH shows, as long as the cache keeps it; the replies do not depend on how the network cuts the commands; every command
  is answered with its tag, every call with its id; every JMAP answer is JSON that reads back.
  Where the code does something else than its comments or the RFC say, the behaviour is stated and
  proved as it is (recipients kept between transactions, RSET refused, pipelined data lost, mail
  accepted that cannot be delivered, UIDs visible out of order, a body lost with its cache entry, the
  length of a literal, a password with an at sign in the log). Start-up: each program runs one fresh session per
  connection, over TLS exactly for those of the TLS listener.

  \<^bold>\<open>State, errors, loops.\<close> A handler is a function on the session record; what it writes is the list
  of lines sent. Errors are values of \<open>go_error\<close>, and every early return is a branch. The loops over
  input are total functions without fuel, because a read shortens the input and the one event that
  replaces it, the upgrade to TLS, happens at most once. Only the JSON readers carry fuel, twice the
  length of the text and one more, which is always enough: their equations hold without it
  (\<open>read_value_eq\<close>, \<open>read_elems_eq\<close>, \<open>read_members_eq\<close>). Integers are words where the code has
  fixed widths that matter (ids, UIDs); lengths and sizes are unbounded, being lengths of values in
  memory.

  \<^bold>\<open>Parameters.\<close> Code outside of the repository is a parameter: \<^verbatim>\<open>FSM.Event\<close> (\<open>looplab_contract\<close>), the Redis
  client (\<open>redis_contract\<close>, and \<open>redis_keeps\<close> for one that loses nothing), the JWT library (\<open>jwt_contract\<close>), bcrypt, the TLS handshake, the clock, the
  collation and the faults of the MySQL server, the Unicode tables of the Go runtime. Each contract
  has a concrete instance (\<open>table_event\<close>, \<open>map_redis\<close>, \<open>plain_jwt\<close>) that the witnesses run on.

  \<^bold>\<open>Not modelled.\<close> Log lines and the profiling endpoint (\<^verbatim>\<open>internal/telemetry\<close>) have no effect on the
  rest. The router and its middleware are those of \<^verbatim>\<open>chi\<close>; a request that matches no route is answered by it.
  Errors of writes to a connection are ignored by the code and left out. Deadlines are read errors of the connection. A text too long
  for its column, or a size beyond the range of its column, is a fault of the statement. The step of
  the running system is a call to the database or the cache; the transaction of \<^verbatim>\<open>AllocateUID\<close>, which locks
  its row, is one step.
\<close>

subsection \<open>The SMTP server over the message store\<close>

definition smtp_over_store :: "'r backend \<Rightarrow> 'r MessageStore smtp_env \<Rightarrow> bool" where
  "smtp_over_store B E \<longleftrightarrow> smtp_delivery E = store_delivery B \<and> looplab_contract (smtp_Event E)"

text \<open>The runs of this theory's witnesses: a server over the store of theory \<open>Storage_Properties\<close>.\<close>

definition demo_mail :: "(string \<rightharpoonup> bytes) MessageStore smtp_env" where
  "demo_mail =
     \<lparr>smtp_cfg = Load (\<lambda>_. []), smtp_tlsCfg = None, smtp_delivery = store_delivery demo_backend,
      smtp_Event = table_event, smtp_Handshake = (\<lambda>tc c. (0, None)), smtp_Now = int\<rparr>"

lemma demo_mail_over_store [simp]: "smtp_over_store demo_backend demo_mail"
  by (simp add: smtp_over_store_def demo_mail_def table_event_contract)

definition demo_transaction :: "string \<Rightarrow> stream \<Rightarrow> (string \<rightharpoonup> bytes) MessageStore smtp_session" where
  "demo_transaction rcpt c =
     (smtp_NewSession c False demo_store)\<lparr>fsm := \<lparr>Current = StateRcptTo, Events = smtp_events\<rparr>,
        envelope := emptyEnvelope\<lparr>env_From := ''a@b'', env_To := [rcpt]\<rparr>\<rparr>"

lemma demo_transaction_fields [simp]:
  "smtp_currentState (demo_transaction r c) = StateRcptTo" "conn (demo_transaction r c) = c"
  "store (demo_transaction r c) = demo_store" "env_To (envelope (demo_transaction r c)) = [r]"
  "env_From (envelope (demo_transaction r c)) = ''a@b''"
  "r \<noteq> [] \<Longrightarrow> smtp_inv (demo_transaction r c)"
  by (simp_all add: demo_transaction_def smtp_NewSession_def smtp_state_simps emptyEnvelope_def)

text \<open>
  A whole SMTP session over the message store, with any input, cut in any way, and any fault of
  the database and the cache, keeps the store's invariant: unique UIDs below the mailbox's next one,
  unique message ids, every message in the INBOX its envelope names, and a cache that agrees with
  the rows.
\<close>

lemma smtp_session_keeps_store:
  assumes "smtp_over_store B E" "redis_writes (be_redis B) view" "store_inv (be_mysql B) view ([], w)"
  shows "store_inv (be_mysql B) view ([], store (smtp_Handle E (smtp_NewSession c t w)))"
proof -
  let ?s = "smtp_write (''220 '' @ SMTP_Domain (cfg_SMTP (smtp_cfg E)) @ '' ESMTP gomail-core ready'') (smtp_NewSession c t w)"
  have "smtp_inv ?s" using smtp_inv_NewSession [of c t w] by (simp only: smtp_inv_write)
  then have "delivers E ?s (smtp_loop E ?s)"
    using smtp_loop_inv_delivers assms(1) unfolding smtp_over_store_def by blast
  then obtain evs where evs: "list_all (smtp_event_ok E) evs"
    "store (smtp_loop E ?s) = deliver_all (store_delivery B) evs w"
    using assms(1) by (auto simp: delivers_def smtp_over_store_def smtp_NewSession_def)
  have "list_all event_ok evs" using evs(1) by (auto simp: list_all_iff smtp_event_ok_def)
  then show ?thesis
    using store_coherent.deliver_all_inv [of B view w evs] assms(2,3) evs(2) by (simp add: smtp_Handle_def)
qed

lemma smtp_session_keeps_store_witness:
  "store_inv (be_mysql demo_backend) (\<lambda>r. r)
     ([], store (smtp_Handle demo_mail (smtp_NewSession [Chunk (''EHLO x'' @ CRLF), ReadErr] False demo_store)))"
  by (rule smtp_session_keeps_store [where B = demo_backend]) simp_all

text \<open>Reads of bodies only take from the cache what has expired, and nothing when it keeps its entries.\<close>

definition cache_read :: "'r backend \<Rightarrow> ('r \<Rightarrow> string \<rightharpoonup> bytes) \<Rightarrow> 'r MessageStore \<Rightarrow> 'r MessageStore \<Rightarrow> bool" where
  "cache_read B view w w' \<longleftrightarrow> view (ms_redis w') \<subseteq>\<^sub>m view (ms_redis w)
     \<and> (redis_keeps (be_redis B) view \<longrightarrow> view (ms_redis w') = view (ms_redis w))"

lemma store_cache_read: "redis_contract (be_redis B) view \<Longrightarrow> cache_read B view w (snd (storage_GetMessageBody B i w))"
  using redis_GetMessageBody_view(1) [of "be_redis B" view] GetMessageBody_keeps [of "be_redis B" view]
  by (fastforce simp: cache_read_def storage_GetMessageBody_def on_redis_def redis_contract_def split: prod.split)

lemma body_reads_cache:
  assumes "redis_contract (be_redis B) view" "im_messageReader E = store_messages B"
  shows "body_reads E (cache_read B view)"
  using store_cache_read [OF assms(1)]
  by (auto simp: body_reads_def assms(2) store_messages_def reflp_def transp_def) (auto simp: cache_read_def intro: map_le_trans)

lemma fetch_body_cached:
  assumes "redis_contract (be_redis B) view" "im_messageReader E = store_messages B"
    and "\<And>b. view (ms_redis w) (messageBodyKey (Message_ID msg)) = Some b \<Longrightarrow> b = body"
  shows "fst (fetch_body E msg w) = body \<or> fst (fetch_body E msg w) = no_body"
proof -
  obtain x w' where g: "storage_GetMessageBody B (Message_ID msg) w = (x, w')" by fastforce
  have "b = body" if "x = Inr (Some b)" for b
    using redis_GetMessageBody_view(2) [of "be_redis B" view] g that assms(1,3)
    by (auto simp: storage_GetMessageBody_def on_redis_def redis_contract_def split: prod.splits)
  then show ?thesis using g assms(2) by (auto simp: fetch_body_def store_messages_def split: sum.splits option.splits)
qed

lemma fetch_body_kept:
  assumes "redis_keeps (be_redis B) view" "im_messageReader E = store_messages B"
    and "view (ms_redis w) (messageBodyKey (Message_ID msg)) = Some body"
  shows "fst (fetch_body E msg w) = body"
proof -
  obtain r where "redis_GetMessageBody (be_redis B) (Message_ID msg) (ms_redis w) = (Inr (Some body), r)"
    using GetMessageBody_keeps [OF assms(1)] assms(3) by (metis surj_pair)
  then show ?thesis
    by (simp add: fetch_body_def assms(2) store_messages_def storage_GetMessageBody_def on_redis_def)
qed

lemma lines_end: "list_all is_line ls \<Longrightarrow> concat ls = [] \<or> last (concat ls) \<noteq> SPC"
  by (cases ls rule: rev_cases) (auto simp: is_line_def)

text \<open>
  A session in a transaction with one recipient whose address resolves, a connection that carries the
  lines \<open>ls\<close> of a message, and a database that answers.
\<close>

definition ready_to_send :: "'r backend \<Rightarrow> 'r MessageStore smtp_env \<Rightarrow> string \<Rightarrow> string list \<Rightarrow> mysql_Mailbox \<Rightarrow> 'r MessageStore smtp_session \<Rightarrow> bool" where
  "ready_to_send B E rcpt ls I s \<longleftrightarrow>
     smtp_over_store B E \<and> smtp_inv s \<and> smtp_currentState s = StateRcptTo \<and> env_To (envelope s) = [rcpt]
     \<and> list_all is_line ls \<and> int (length (concat ls)) \<le> SMTP_MaxSize (cfg_SMTP (smtp_cfg E))
     \<and> (\<exists>cs evs rest. conn s = map Chunk cs @ evs \<and> concat cs = wire_data ls @ rest)
     \<and> healthy (be_mysql B) \<and> uid_inv (ms_sql (store s)) []
     \<and> lookup_inbox (be_mysql B) (ms_sql (store s)) rcpt = Some I
     \<and> mbx_uid_next I \<noteq> - 1 \<and> next_id (ms_sql (store s)) < 2 ^ 64"

definition sent_row :: "'r backend \<Rightarrow> string \<Rightarrow> string list \<Rightarrow> mysql_Mailbox \<Rightarrow> 'r MessageStore smtp_session \<Rightarrow> mysql_Message" where
  "sent_row B rcpt ls I s =
     (new_message (mbx_id I) (mbx_uid_next I) (env_From (envelope s)) rcpt (concat ls) (be_Now B (ms_ticks (store s))))
       \<lparr>msg_id := of_nat (next_id (ms_sql (store s)))\<rparr>"

lemma sent_row_fields [simp]:
  "msg_mailbox_id (sent_row B rcpt ls I s) = mbx_id I" "msg_uid (sent_row B rcpt ls I s) = mbx_uid_next I"
  "Message_ID (to_Message (sent_row B rcpt ls I s)) = of_nat (next_id (ms_sql (store s)))"
  "Message_UID (to_Message (sent_row B rcpt ls I s)) = mbx_uid_next I"
  "Message_SizeBytes (to_Message (sent_row B rcpt ls I s)) = int (length (concat ls))"
  by (simp_all add: sent_row_def new_message_def to_Message_def)

lemma handleDATA_delivers:
  assumes "ready_to_send B E rcpt ls I s"
  shows "last (sent (handleDATA E s)) = ''250 OK: message accepted for delivery'' @ CRLF
    \<and> deliverTo B (env_From (envelope s)) rcpt (concat ls) (store s) = (None, store (handleDATA E s))
    \<and> messages (ms_sql (store (handleDATA E s))) = messages (ms_sql (store s)) @
       [sent_row B rcpt ls I s]"
proof -
  obtain cs evs rest where net: "conn s = map Chunk cs @ evs" "concat cs = wire_data ls @ rest"
    using assms by (auto simp: ready_to_send_def)
  have wf: "smtp_wf s" and fsm: "looplab_contract (smtp_Event E)" and dl: "smtp_delivery E = store_delivery B"
    and st: "smtp_currentState s = StateRcptTo" "env_To (envelope s) = [rcpt]"
    and H: "healthy (be_mysql B)" "distinct (map mbx_id (mailboxes (ms_sql (store s))))"
      "lookup_inbox (be_mysql B) (ms_sql (store s)) rcpt = Some I"
      "mbx_uid_next I \<noteq> - 1" "next_id (ms_sql (store s)) < 2 ^ 64"
    using assms by (simp_all add: ready_to_send_def smtp_inv_def smtp_over_store_def uid_inv_def)
  obtain b cs' where loop: "data_loop (maxSize E) [] (conn s) [] = (DataComplete (concat ls), b, map Chunk cs' @ evs)"
    using data_loop_wire [of ls "[]" "maxSize E" "[]" cs rest evs] assms net by (auto simp: ready_to_send_def)
  from deliverTo_healthy [OF H, of "env_From (envelope s)" "concat ls"]
  obtain w where w: "deliverTo B (env_From (envelope s)) rcpt (concat ls) (store s) = (None, w)"
    "messages (ms_sql w) = messages (ms_sql (store s)) @
       [sent_row B rcpt ls I s]" unfolding sent_row_def by blast
  have "Deliver (smtp_delivery E) (data_event E s (concat ls)) (store s) = (None, w)"
    using w(1) st(2) by (simp add: dl store_delivery_def storage_Deliver_def data_event_def)
  from handleDATA_complete [OF fsm wf st(1) loop this]
  have "last (sent (handleDATA E s)) = ''250 OK: message accepted for delivery'' @ CRLF" "store (handleDATA E s) = w"
    by (simp_all add: Let_def with_body_def)
  then show ?thesis using w by simp
qed

text \<open>
  C3: a message sent over SMTP arrives. With a database that answers and a recipient whose address
  resolves, the client that sends the lines of a message reads 250, and the INBOX of the recipient
  holds one more message, under the mailbox's next UID, with the sender and recipient of the
  envelope, the size of the text and its subject.
\<close>

theorem smtp_message_arrives:
  assumes "ready_to_send B E rcpt ls I s"
  shows "last (sent (handleDATA E s)) = ''250 OK: message accepted for delivery'' @ CRLF
    \<and> (\<exists>m. messages (ms_sql (store (handleDATA E s))) = messages (ms_sql (store s)) @ [m]
         \<and> msg_mailbox_id m = mbx_id I \<and> msg_uid m = mbx_uid_next I
         \<and> filed_row (env_From (envelope s)) rcpt (concat ls) m)"
  using handleDATA_delivers [OF assms] by (simp add: filed_row_def sent_row_def new_message_def)

lemma demo_ready:
  "ready_to_send demo_backend demo_mail ''test@gomail.local'' [''Subject: hi'' @ CRLF]
     \<lparr>mbx_id = 1, mbx_user_id = 1, mbx_name = ''INBOX'', mbx_uid_validity = 1, mbx_uid_next = 1\<rparr>
     (demo_transaction ''test@gomail.local'' [Chunk (''Subject: hi'' @ CRLF @ ''.'' @ CRLF)])"
proof -
  have line: "list_all is_line [''Subject: hi'' @ CRLF]"
    unfolding is_line_def list_all_iff by (auto intro!: exI [of _ "''Subject: hi'' @ [CR]"] simp: CRLF_def)
  have size: "int (length (concat [''Subject: hi'' @ CRLF])) \<le> SMTP_MaxSize (cfg_SMTP (smtp_cfg demo_mail))"
    by (simp add: demo_mail_def Load_def getEnvInt_def CRLF_def)
  have "[Chunk (''Subject: hi'' @ CRLF @ ''.'' @ CRLF)] = map Chunk [''Subject: hi'' @ CRLF @ ''.'' @ CRLF] @ []"
    "concat [''Subject: hi'' @ CRLF @ ''.'' @ CRLF] = wire_data [''Subject: hi'' @ CRLF] @ []"
    by (simp_all add: wire_data_def dot_stuff_def)
  then have net: "\<exists>cs evs rest. [Chunk (''Subject: hi'' @ CRLF @ ''.'' @ CRLF)] = map Chunk cs @ evs
      \<and> concat cs = wire_data [''Subject: hi'' @ CRLF] @ rest" by blast
  have "next_id demo_db < 2 ^ 64" by (simp add: demo_db_def)
  then show ?thesis
    unfolding ready_to_send_def using line size net by (simp only: demo_transaction_fields) (simp add: demo_lookup)
qed

theorem smtp_message_arrives_witness:
  "let s = demo_transaction ''test@gomail.local'' [Chunk (''Subject: hi'' @ CRLF @ ''.'' @ CRLF)] in
    last (sent (handleDATA demo_mail s)) = ''250 OK: message accepted for delivery'' @ CRLF
    \<and> (\<exists>m. messages (ms_sql (store (handleDATA demo_mail s))) = [m] \<and> msg_mailbox_id m = 1 \<and> msg_uid m = 1
         \<and> filed_row ''a@b'' ''test@gomail.local'' (''Subject: hi'' @ CRLF) m)"
proof -
  have "messages demo_db = []" by (simp add: demo_db_def)
  then show ?thesis using smtp_message_arrives [OF demo_ready] by (simp add: Let_def)
qed

text \<open>FETCH after the message has been sent: its reply is the last one.\<close>

lemma fetch_after_send:
  assumes ready: "ready_to_send B E rcpt ls I s" and cache: "redis_contract (be_redis B) view"
    and client: "im_messageReader E' = store_messages B" "ms_sql (im_store t) = ms_sql (store (handleDATA E s))"
      "im_selected t = Some sel" "sel_ID sel = mbx_id I"
    and args: "SplitN2 SPC args = [seqs, items]"
  obtains replies w where "cache_read B view (im_store t) w"
    "length replies = length (filter (\<lambda>m. msg_mailbox_id m = mbx_id I) (messages (ms_sql (store s))))"
    "im_sent (handleFetch E' tag args t) = im_sent t @ replies @
      [fst (fetch_line E' (ToUpper items) (length replies + 1) (to_Message (sent_row B rcpt ls I s)) w) @ CRLF,
       tag @ '' OK FETCH completed'' @ CRLF]"
proof -
  have row: "messages (ms_sql (im_store t)) = messages (ms_sql (store s)) @ [sent_row B rcpt ls I s]"
    using handleDATA_delivers [OF ready] client(2) by simp
  have H: "healthy (be_mysql B)" "uid_inv (ms_sql (store s)) []" "I \<in> set (mailboxes (ms_sql (store s)))"
    using ready lookup_inboxD by (auto simp: ready_to_send_def)
  obtain xs w1 where l: "storage_ListMessages B (mbx_id I) (im_store t) = (Inr (xs @ [to_Message (sent_row B rcpt ls I s)]), w1)"
    "ms_redis w1 = ms_redis (im_store t)"
    "length xs = length (filter (\<lambda>m. msg_mailbox_id m = mbx_id I) (messages (ms_sql (store s))))"
    using ListMessages_filed [OF H row] by auto
  let ?t = "fetch_loop E' (ToUpper items) 0 xs (t\<lparr>im_store := w1\<rparr>)"
  have "cache_read B view w1 (im_store ?t)"
    using fetch_loop_store [OF body_reads_cache [OF cache client(1)], of "t\<lparr>im_store := w1\<rparr>"] by simp
  then have "cache_read B view (im_store t) (im_store ?t)" by (simp add: cache_read_def l(2))
  moreover obtain replies where "length replies = length xs" "im_sent (handleFetch E' tag args t) = im_sent t @ replies @
      [fst (fetch_line E' (ToUpper items) (length xs + 1) (to_Message (sent_row B rcpt ls I s)) (im_store ?t)) @ CRLF,
       tag @ '' OK FETCH completed'' @ CRLF]"
    using handleFetch_last [OF client(3) args, of E' xs _ w1 tag] client l(1) by (auto simp: store_messages_def)
  ultimately show thesis using that l(3) by auto
qed

text \<open>
  C2: what is sent over SMTP is read over IMAP. After a message has been sent as above, FETCH of its
  body in the recipient's INBOX shows one reply for every message that was there, and then the new
  message, under the UID that was the mailbox's next one, with the size of the text, and a literal
  that announces as many bytes as it has: the text that the client sent. Only a cache that fails or loses
  entries can put the placeholder in its place.
\<close>

theorem mail_sent_is_read:
  assumes ready: "ready_to_send B E rcpt ls I s"
    and cache: "redis_contract (be_redis B) view" "store_inv (be_mysql B) view ([], store s)"
    and client: "im_messageReader E' = store_messages B" "im_store t = store (handleDATA E s)"
      "im_selected t = Some sel" "sel_ID sel = mbx_id I"
    and args: "SplitN2 SPC args = [seqs, items]" "Contains (ToUpper items) ''BODY[]''"
  shows "\<exists>replies msg body. im_sent (handleFetch E' tag args t) = im_sent t @ replies @
      [fetch_head (ToUpper items) (length replies + 1) msg @ ''BODY[] {'' @ fmt_nat (length body) @ ''}'' @ CRLF @ body @ '')'' @ CRLF,
       tag @ '' OK FETCH completed'' @ CRLF]
    \<and> length replies = length (filter (\<lambda>m. msg_mailbox_id m = mbx_id I) (messages (ms_sql (store s))))
    \<and> Message_UID msg = mbx_uid_next I \<and> Message_SizeBytes msg = int (length (concat ls))
    \<and> (redis_keeps (be_redis B) view \<longrightarrow> body = concat ls) \<and> (body = concat ls \<or> body = no_body)"
proof -
  let ?w = "store (handleDATA E s)" and ?items = "ToUpper items" and ?m = "to_Message (sent_row B rcpt ls I s)"
  have dlv: "deliverTo B (env_From (envelope s)) rcpt (concat ls) (store s) = (None, ?w)"
    and row: "messages (ms_sql ?w) = messages (ms_sql (store s)) @ [sent_row B rcpt ls I s]"
    using handleDATA_delivers [OF ready] by blast+
  obtain replies w where r: "cache_read B view ?w w"
    "length replies = length (filter (\<lambda>m. msg_mailbox_id m = mbx_id I) (messages (ms_sql (store s))))"
    "im_sent (handleFetch E' tag args t) = im_sent t @ replies @
      [fst (fetch_line E' ?items (length replies + 1) ?m w) @ CRLF, tag @ '' OK FETCH completed'' @ CRLF]"
    by (rule fetch_after_send [OF ready cache(1) client(1) _ client(3,4) args(1), of tag]) (auto simp: client(2))
  define body where "body = fst (fetch_body E' ?m w)"
  have "b = concat ls" if "view (ms_redis w) (messageBodyKey (Message_ID ?m)) = Some b" for b
  proof -
    have "view (ms_redis ?w) (messageBodyKey (msg_id (last (messages (ms_sql ?w))))) = Some b"
      using that r(1) row by (auto simp: cache_read_def map_le_def to_Message_def dest!: bspec [OF _ domI])
    then show ?thesis using deliverTo_body cache dlv unfolding redis_contract_def by blast
  qed
  then have one: "body = concat ls \<or> body = no_body"
    unfolding body_def by (rule fetch_body_cached [OF cache(1) client(1)])
  have kept: "body = concat ls" if "redis_keeps (be_redis B) view"
    unfolding body_def using deliverTo_cached [OF that dlv] r(1) that
    by (intro fetch_body_kept [OF that client(1)]) (simp add: cache_read_def)
  have "concat ls = [] \<or> last (concat ls) \<noteq> SPC" using ready lines_end by (simp add: ready_to_send_def)
  then have "fst (fetch_line E' ?items (length replies + 1) ?m w) =
      fetch_head ?items (length replies + 1) ?m @ ''BODY[] {'' @ fmt_nat (length body) @ ''}'' @ CRLF @ body @ '')''"
    by (intro fetch_line_body) (use args(2) one in \<open>auto simp: body_def no_body_def\<close>)
  then show ?thesis
    using r(2,3) one kept by (intro exI [of _ replies] exI [of _ ?m] exI [of _ body]) simp
qed

definition demo_sel :: SelectedMailbox where
  "demo_sel = \<lparr>sel_ID = 1, sel_Name = ''INBOX'', sel_UIDValidity = 1, sel_UIDNext = 1, sel_ReadOnly = False, sel_SelectedAt = 0\<rparr>"

lemma demo_fetch_args:
  "SplitN2 SPC ''1 BODY[]'' = [''1'', ''BODY[]'']" "Contains (ToUpper ''BODY[]'') ''BODY[]''" "ToUpper ''BODY[]'' = ''BODY[]''"
  by code_simp+

theorem mail_sent_is_read_witness:
  "let w = store (handleDATA demo_mail (demo_transaction ''test@gomail.local'' [Chunk (''Subject: hi'' @ CRLF @ ''.'' @ CRLF)]));
       t = (imap_newSession [] False w)\<lparr>im_selected := Some demo_sel\<rparr>
   in \<exists>msg body. im_sent (handleFetch demo_imap ''a1'' ''1 BODY[]'' t) =
      [fetch_head ''BODY[]'' 1 msg @ ''BODY[] {'' @ fmt_nat (length body) @ ''}'' @ CRLF @ body @ '')'' @ CRLF,
       ''a1'' @ '' OK FETCH completed'' @ CRLF]
    \<and> Message_UID msg = 1 \<and> body = ''Subject: hi'' @ CRLF"
proof -
  let ?w = "store (handleDATA demo_mail (demo_transaction ''test@gomail.local'' [Chunk (''Subject: hi'' @ CRLF @ ''.'' @ CRLF)]))"
  let ?t = "(imap_newSession [] False ?w)\<lparr>im_selected := Some demo_sel\<rparr>"
  have inv: "store_inv (be_mysql demo_backend) (\<lambda>r. r) ([], store (demo_transaction ''test@gomail.local''
      [Chunk (''Subject: hi'' @ CRLF @ ''.'' @ CRLF)]))" by simp
  have t: "im_messageReader demo_imap = store_messages demo_backend" "im_store ?t = ?w" "im_selected ?t = Some demo_sel"
    "sel_ID demo_sel = 1" "im_sent ?t = []" "messages demo_db = []"
    by (simp_all add: demo_imap_def imap_newSession_def demo_db_def demo_sel_def)
  obtain replies msg body where h: "im_sent (handleFetch demo_imap ''a1'' ''1 BODY[]'' ?t) = im_sent ?t @ replies @
      [fetch_head (ToUpper ''BODY[]'') (length replies + 1) msg @ ''BODY[] {'' @ fmt_nat (length body) @ ''}'' @ CRLF @ body @ '')'' @ CRLF,
       ''a1'' @ '' OK FETCH completed'' @ CRLF]" "replies = []" "Message_UID msg = 1" "body = ''Subject: hi'' @ CRLF"
    using mail_sent_is_read [OF demo_ready demo_backend_redis(1) inv t(1,2,3) _ demo_fetch_args(1,2), of "''a1''"] t(4,6) by auto
  have "im_sent (handleFetch demo_imap ''a1'' ''1 BODY[]'' ?t) =
      [fetch_head ''BODY[]'' 1 msg @ ''BODY[] {'' @ fmt_nat (length body) @ ''}'' @ CRLF @ body @ '')'' @ CRLF,
       ''a1'' @ '' OK FETCH completed'' @ CRLF]"
    unfolding h(1) h(2) t(5) demo_fetch_args(3) by simp
  then show ?thesis unfolding Let_def using h(3,4) by blast
qed

text \<open>
  C25: a body that the cache has lost is not recovered. When the entry of a message sent as above is gone
  from the cache, expired or evicted, FETCH still shows the message with the size of its text, but the
  placeholder for its body: the code reads no other place.
\<close>

theorem lost_body_not_recovered:
  assumes ready: "ready_to_send B E rcpt ls I s" and cache: "redis_contract (be_redis B) view"
    and client: "im_messageReader E' = store_messages B" "ms_sql (im_store t) = ms_sql (store (handleDATA E s))"
      "im_selected t = Some sel" "sel_ID sel = mbx_id I"
    and lost: "view (ms_redis (im_store t)) (messageBodyKey (of_nat (next_id (ms_sql (store s))))) = None"
    and args: "SplitN2 SPC args = [seqs, items]" "Contains (ToUpper items) ''BODY[]''"
  shows "\<exists>replies msg. im_sent (handleFetch E' tag args t) = im_sent t @ replies @
      [fetch_head (ToUpper items) (length replies + 1) msg @ ''BODY[] {'' @ fmt_nat (length no_body) @ ''}'' @ CRLF @ no_body @ '')'' @ CRLF,
       tag @ '' OK FETCH completed'' @ CRLF]
    \<and> Message_UID msg = mbx_uid_next I \<and> Message_SizeBytes msg = int (length (concat ls))"
proof -
  let ?items = "ToUpper items" and ?m = "to_Message (sent_row B rcpt ls I s)"
  obtain replies w where r: "cache_read B view (im_store t) w"
    "im_sent (handleFetch E' tag args t) = im_sent t @ replies @
      [fst (fetch_line E' ?items (length replies + 1) ?m w) @ CRLF, tag @ '' OK FETCH completed'' @ CRLF]"
    by (rule fetch_after_send [OF ready cache client args(1), of tag])
  have "view (ms_redis w) (messageBodyKey (Message_ID ?m)) = None"
    using r(1) lost by (cases "view (ms_redis w) (messageBodyKey (Message_ID ?m))") (auto simp: cache_read_def map_le_def dest!: bspec [OF _ domI])
  then have "fst (fetch_body E' ?m w) = no_body"
    using fetch_body_cached [OF cache client(1), of w ?m no_body] by simp
  then have "fst (fetch_line E' ?items (length replies + 1) ?m w) =
      fetch_head ?items (length replies + 1) ?m @ ''BODY[] {'' @ fmt_nat (length no_body) @ ''}'' @ CRLF @ no_body @ '')''"
    by (intro fetch_line_body) (use args(2) in \<open>auto simp: no_body_def\<close>)
  then show ?thesis
    using r(2) by (intro exI [of _ replies] exI [of _ ?m]) simp
qed

theorem lost_body_not_recovered_witness:
  "let w = store (handleDATA demo_mail (demo_transaction ''test@gomail.local'' [Chunk (''Subject: hi'' @ CRLF @ ''.'' @ CRLF)]));
       t = (imap_newSession [] False (w\<lparr>ms_redis := Map.empty\<rparr>))\<lparr>im_selected := Some demo_sel\<rparr>
   in \<exists>replies msg. im_sent (handleFetch demo_imap ''a1'' ''1 BODY[]'' t) = replies @
      [fetch_head ''BODY[]'' (length replies + 1) msg @ ''BODY[] {'' @ fmt_nat (length no_body) @ ''}'' @ CRLF @ no_body @ '')'' @ CRLF,
       ''a1'' @ '' OK FETCH completed'' @ CRLF]
    \<and> Message_UID msg = 1 \<and> Message_SizeBytes msg = 13"
proof -
  let ?w = "store (handleDATA demo_mail (demo_transaction ''test@gomail.local'' [Chunk (''Subject: hi'' @ CRLF @ ''.'' @ CRLF)]))"
  let ?t = "(imap_newSession [] False (?w\<lparr>ms_redis := Map.empty\<rparr>))\<lparr>im_selected := Some demo_sel\<rparr>"
  have t: "im_messageReader demo_imap = store_messages demo_backend" "ms_sql (im_store ?t) = ms_sql ?w" "im_selected ?t = Some demo_sel"
    "sel_ID demo_sel = 1" "im_sent ?t = []" "ms_redis (im_store ?t) = Map.empty"
    by (simp_all add: demo_imap_def imap_newSession_def demo_sel_def)
  have "length (concat [''Subject: hi'' @ CRLF]) = 13" by (simp add: CRLF_def)
  then show ?thesis
    using lost_body_not_recovered [OF demo_ready demo_backend_redis(1) t(1-3) _ _ demo_fetch_args(1,2), of "''a1''"] t(4-6) demo_fetch_args(3)
    unfolding Let_def by auto
qed

text \<open>
  C36: mail that cannot be delivered is accepted all the same. Over the message store DATA answers 250
  for every complete message, whatever the recipients are and whatever the database does: the 451
  of the handler is unreachable, and the sender never learns of a failed delivery.
\<close>

theorem smtp_accepts_undeliverable:
  assumes "smtp_over_store B E" "smtp_inv s" "smtp_currentState s = StateRcptTo"
    and "list_all is_line ls" "int (length (concat ls)) \<le> SMTP_MaxSize (cfg_SMTP (smtp_cfg E))"
    and "conn s = map Chunk cs @ evs" "concat cs = wire_data ls @ rest"
  shows "last (sent (handleDATA E s)) = ''250 OK: message accepted for delivery'' @ CRLF
    \<and> smtp_currentState (handleDATA E s) = StateGreeted"
proof -
  have wf: "smtp_wf s" and fsm: "looplab_contract (smtp_Event E)" and dl: "smtp_delivery E = store_delivery B"
    using assms(1,2) by (simp_all add: smtp_inv_def smtp_over_store_def)
  obtain b cs' where loop: "data_loop (maxSize E) [] (conn s) [] = (DataComplete (concat ls), b, map Chunk cs' @ evs)"
    using data_loop_wire [of ls "[]" "maxSize E" "[]" cs rest evs] assms(4-7) by auto
  obtain w where "Deliver (smtp_delivery E) (data_event E s (concat ls)) (store s) = (None, w)"
    by (simp add: dl store_delivery_def storage_Deliver_def)
  from handleDATA_complete [OF fsm wf assms(3) loop this] show ?thesis by (simp add: Let_def with_body_def)
qed

theorem smtp_accepts_undeliverable_witness:
  "last (sent (handleDATA demo_mail (demo_transaction ''nobody'' [Chunk (''.'' @ CRLF)]))) = ''250 OK: message accepted for delivery'' @ CRLF
    \<and> smtp_currentState (handleDATA demo_mail (demo_transaction ''nobody'' [Chunk (''.'' @ CRLF)])) = StateGreeted"
proof -
  have "0 \<le> SMTP_MaxSize (cfg_SMTP (smtp_cfg demo_mail))" by (simp add: demo_mail_def Load_def getEnvInt_def)
  then show ?thesis
    using smtp_accepts_undeliverable [of demo_backend demo_mail "demo_transaction ''nobody'' [Chunk (''.'' @ CRLF)]" "[]" "[''.'' @ CRLF]" "[]" "[]"]
    by (simp add: wire_data_def)
qed

subsection \<open>The running system\<close>

text \<open>
  C1: the system is safe. Whatever sessions connect, whatever they send and however their turns, the
  calls of their deliveries and the calls of the reading servers interleave, with any fault of the
  database and the cache: UIDs are unique in their mailbox and below its next one, those of messages
  and those that deliveries in progress hold; message ids are unique; every message lies in the INBOX
  its envelope names; the cache agrees with the rows; and every session keeps its own invariant.
\<close>

theorem system_safe:
  assumes "redis_contract (be_redis B) view" "looplab_contract (smtp_Event E)" "store_inv (be_mysql B) view ([], w)"
    and "(system E B)\<^sup>*\<^sup>* ([], w) (ps, w')"
  shows "distinct (used_uids (ms_sql w') @ concat (map dlv_pending (concat (map proc_queue ps))))
    \<and> list_all (below_next (ms_sql w')) (used_uids (ms_sql w') @ concat (map dlv_pending (concat (map proc_queue ps))))
    \<and> distinct (map msg_id (messages (ms_sql w')))
    \<and> routed (be_mysql B) (ms_sql w') \<and> cache_ok view w'
    \<and> list_all (\<lambda>p. smtp_inv (proc_session p)) ps"
proof -
  have "sys_inv (be_mysql B) view (ps, w')"
    by (rule system_inv [OF assms(1,2,4)]) (use assms(3) in \<open>simp add: sys_inv_def\<close>)
  then show ?thesis by (simp add: sys_inv_def store_inv_def uid_inv_def list_all_iff)
qed

text \<open>Two sessions that send a message each, turn by turn, while a mailbox is being read.\<close>

definition demo_client :: stream where
  "demo_client = [Chunk (''EHLO x'' @ CRLF), Chunk (''MAIL FROM:<a@b>'' @ CRLF), Chunk (''RCPT TO:<test@gomail.local>'' @ CRLF),
     Chunk (''DATA'' @ CRLF), Chunk (''hi'' @ CRLF @ ''.'' @ CRLF), Chunk (''QUIT'' @ CRLF)]"

definition demo_schedule :: "action list" where
  "demo_schedule = [Connect demo_client False, Connect demo_client True]
     @ concat (replicate 12 [Advance 0, Advance 1, Read (RdMessages 1)])"

theorem system_safe_witness:
  "\<exists>ps w'. play demo_mail demo_backend demo_schedule ([], demo_store) = (ps, w')
     \<and> distinct (used_uids (ms_sql w') @ concat (map dlv_pending (concat (map proc_queue ps))))
     \<and> routed (be_mysql demo_backend) (ms_sql w') \<and> cache_ok (\<lambda>r. r) w'
     \<and> list_all (\<lambda>p. smtp_inv (proc_session p)) ps"
proof -
  obtain ps w' where p: "play demo_mail demo_backend demo_schedule ([], demo_store) = (ps, w')" by (metis surj_pair)
  have "(system demo_mail demo_backend)\<^sup>*\<^sup>* ([], demo_store) (ps, w')"
    using play_system [of demo_mail demo_backend "([], demo_store)" demo_schedule] p by simp
  moreover have "looplab_contract (smtp_Event demo_mail)" by (simp add: demo_mail_def table_event_contract)
  ultimately show ?thesis
    using system_safe [OF demo_backend_redis(1) _ demo_store_inv, of demo_mail ps w'] p by blast
qed

text \<open>
  C11: the model of the running system is a refinement of the sessions as the server runs them: a
  session that runs alone comes to its end, has sent what \<open>smtp_Handle\<close> sends and leaves the store
  that \<open>smtp_Handle\<close> leaves.
\<close>

theorem session_alone_is_Handle:
  assumes "smtp_delivery E = store_delivery B"
  shows "\<exists>s. (system E B)\<^sup>*\<^sup>* ([], w) ([Closed s], store (smtp_Handle E (smtp_NewSession c t w)))
    \<and> sent s = sent (smtp_Handle E (smtp_NewSession c t w))"
proof -
  let ?s = "smtp_write (''220 '' @ SMTP_Domain (cfg_SMTP (smtp_cfg E)) @ '' ESMTP gomail-core ready'') (smtp_NewSession c t w)"
  have start: "connect E c t = Ready (over [] ?s)" "store ?s = w"
    by (simp_all add: connect_def over_NewSession [of c t "[]" w] over_write smtp_NewSession_def)
  obtain v where run: "(system E B)\<^sup>*\<^sup>* ([Ready (over [] ?s)], store ?s) ([Closed (over v (smtp_loop E ?s))], store (smtp_loop E ?s))"
    using loop_alone [OF assms] by blast
  have "system E B ([], w) ([Ready (over [] ?s)], store ?s)"
    using system.connects [of E B "[]" w c t] start by simp
  then have "(system E B)\<^sup>*\<^sup>* ([], w) ([Closed (over v (smtp_loop E ?s))], store (smtp_loop E ?s))"
    using run by (rule converse_rtranclp_into_rtranclp)
  then show ?thesis by (intro exI [of _ "over v (smtp_loop E ?s)"]) (simp add: smtp_Handle_def)
qed

theorem session_alone_is_Handle_witness:
  "\<exists>s. (system demo_mail demo_backend)\<^sup>*\<^sup>* ([], demo_store)
       ([Closed s], store (smtp_Handle demo_mail (smtp_NewSession [Chunk (''QUIT'' @ CRLF)] False demo_store)))
    \<and> sent s = sent (smtp_Handle demo_mail (smtp_NewSession [Chunk (''QUIT'' @ CRLF)] False demo_store))"
  by (rule session_alone_is_Handle) (simp add: demo_mail_def)

text \<open>
  C12: what a session says does not depend on the storage. Over the message store it sends exactly the
  lines it would send over a port that only writes events down, and it leaves the store that the
  delivery of these events, one after the other, leaves.
\<close>

theorem smtp_session_outbox:
  assumes "smtp_delivery E = store_delivery B"
  shows "sent (smtp_Handle E (smtp_NewSession c t w)) = sent (smtp_Handle (with_outbox E) (smtp_NewSession c t []))
    \<and> store (smtp_Handle E (smtp_NewSession c t w))
        = deliver_all (store_delivery B) (store (smtp_Handle (with_outbox E) (smtp_NewSession c t []))) w"
  by (rule store_silent.smtp_Handle_outbox [OF assms])

theorem smtp_session_outbox_witness:
  "let c = demo_client; outbox = store (smtp_Handle (with_outbox demo_mail) (smtp_NewSession c False []))
   in sent (smtp_Handle demo_mail (smtp_NewSession c False demo_store)) = sent (smtp_Handle (with_outbox demo_mail) (smtp_NewSession c False []))
    \<and> store (smtp_Handle demo_mail (smtp_NewSession c False demo_store)) = deliver_all (store_delivery demo_backend) outbox demo_store"
  unfolding Let_def by (rule smtp_session_outbox) (simp add: demo_mail_def)

subsection \<open>Access to mail\<close>

text \<open>
  An IMAP server whose four ports are those of the message store in the running system: before each
  call the SMTP sessions make any moves, and between two commands any more.
\<close>

definition imap_over_system ::
    "'v smtp_env \<Rightarrow> 'r backend \<Rightarrow> (nat \<Rightarrow> action list) \<Rightarrow> 'r world imap_env \<Rightarrow> bool" where
  "imap_over_system F B sched E \<longleftrightarrow> looplab_contract (im_Event E)
     \<and> uses_ports E (amid_mailboxes F B sched) (amid_messages F B sched) (amid_domains F B sched) (amid_users F B sched)"

definition moves :: "'v smtp_env \<Rightarrow> 'r backend \<Rightarrow> 'r world \<Rightarrow> 'r world \<Rightarrow> bool" where
  "moves F B c c' \<longleftrightarrow> (system F B)\<^sup>*\<^sup>* (fst c) (fst c')"

lemma moves_keep:
  assumes "moves F B c c'"
  shows "owns_now c' = owns_now c" "directory_now B c' = directory_now B c"
  using owns_grows directory_grows system_grows assms unfolding moves_def owns_now_def directory_now_def by blast+

lemma moves_rows: "moves F B c c' \<Longrightarrow> set (messages (ms_sql (snd (fst c)))) \<subseteq> set (messages (ms_sql (snd (fst c'))))"
  using system_grows unfolding moves_def grows_def by (metis set_mono_prefix)

lemma moves_reads:
  assumes "im_messageReader E = amid_messages F B sched"
  shows "body_reads E (moves F B)" "moves F B c (snd (ListMessages (im_messageReader E) b c))"
  by (auto simp: body_reads_def moves_def reflp_def transp_def assms amid_messages_system)

definition demo_sched :: "nat \<Rightarrow> action list" where
  "demo_sched n = [Connect [Chunk (''EHLO x'' @ CRLF)] False]"

definition demo_live :: "(string \<rightharpoonup> bytes) world imap_env" where
  "demo_live =
     \<lparr>im_cfg = Load (\<lambda>_. []), im_tlsCfg = None,
      im_mailboxReader = amid_mailboxes demo_mail demo_backend demo_sched, im_messageReader = amid_messages demo_mail demo_backend demo_sched,
      im_domainResolver = amid_domains demo_mail demo_backend demo_sched, im_userAuth = amid_users demo_mail demo_backend demo_sched,
      im_Event = table_event, im_Handshake = (\<lambda>tc c. (0, None)),
      im_bcrypt = (\<lambda>hash password. if password = ''password'' then None else Some (ErrExternal ''mismatch'')),
      im_unicode = ascii_tables\<rparr>"

lemma demo_live_over_system: "imap_over_system demo_mail demo_backend demo_sched demo_live"
  by (simp add: imap_over_system_def demo_live_def uses_ports_def table_event_contract)

lemma demo_amid:
  "amid F B demo_sched f ((ps, w), n) =
     (case f w of (x, w') \<Rightarrow> (x, ((ps @ [connect F [Chunk (''EHLO x'' @ CRLF)] False], w'), Suc n)))"
  by (simp add: amid_def demo_sched_def play_def)

text \<open>A mailbox with one message, and a session that has selected it.\<close>

definition demo_row :: mysql_Message where
  "demo_row = (new_message 1 1 ''b@c'' ''test@gomail.local'' ''hi'' 0)\<lparr>msg_id := 1\<rparr>"

definition demo_filled :: "(string \<rightharpoonup> bytes) MessageStore" where
  "demo_filled = demo_store\<lparr>ms_sql := demo_db\<lparr>messages := [demo_row]\<rparr>\<rparr>"

lemma demo_row_fields [simp]: "msg_mailbox_id demo_row = 1" "msg_uid demo_row = 1"
  by (simp_all add: demo_row_def new_message_def)

lemma demo_live_selected:
  "\<exists>ls s sel. imap_reach demo_live (moves demo_mail demo_backend) ls s \<and> imap_state s = StateSelected
     \<and> im_selected s = Some sel \<and> im_userID s = 1
     \<and> (\<exists>c. ListMessages (im_messageReader demo_live) (sel_ID sel) (im_store s) = (Inr [to_Message demo_row], c))"
proof -
  let ?c = "(([], demo_filled), 0) :: (string \<rightharpoonup> bytes) world"
  have "\<exists>d w1 user w2 mb w3 xs w4 w5. FindDomain (im_domainResolver demo_live) ''gomail.local'' ?c = (Inr d, w1)
      \<and> FindUser (im_userAuth demo_live) ''test'' (Domain_ID d) w1 = (Inr user, w2)
      \<and> imap_checkPassword demo_live ''password'' (User_PasswordHash user) \<and> User_ID user = 1
      \<and> FindMailbox (im_mailboxReader demo_live) (User_ID user) ''INBOX'' w2 = (Inr mb, w3)
      \<and> ListMessages (im_messageReader demo_live) (Mailbox_ID mb) w3 = (Inr xs, w4)
      \<and> ListMessages (im_messageReader demo_live) (Mailbox_ID mb) w4 = (Inr [to_Message demo_row], w5)"
    by (simp add: demo_live_def amid_ports demo_amid demo_filled_def run_imap)
  moreover have "looplab_contract (im_Event demo_live)"
    using demo_live_over_system by (simp add: imap_over_system_def)
  ultimately show ?thesis using demo_lines [of demo_live ?c] by metis
qed

text \<open>
  C8: a session past the login has proved who it is. In every session that any input leads to, with
  mail being delivered at any moment, a mailbox is selected in the selected state and not before; and
  a session past the login has handled a LOGIN line with its name and a password that bcrypt accepted
  for the account of that name, an active user of an active domain, whose id the session carries.
\<close>

theorem imap_session_authenticated:
  assumes "imap_over_system F B sched E" "imap_reach E (moves F B) ls s"
  shows "(imap_state s = StateSelected \<longrightarrow> im_selected s \<noteq> None)
    \<and> (imap_state s \<in> {StateNotAuthenticated, StateAuthenticated} \<longrightarrow> im_selected s = None)
    \<and> (imap_state s \<in> {StateAuthenticated, StateSelected} \<longrightarrow>
         (\<exists>line password n dn u. line \<in> set ls \<and> login_line line (im_username s) password
            \<and> imap_parseAddress (im_username s) = Some (n, dn) \<and> directory_now B (im_store s) n dn u
            \<and> imap_checkPassword E password (User_PasswordHash u) \<and> im_userID s = User_ID u))"
proof -
  have E: "looplab_contract (im_Event E)"
    "uses_ports E (amid_mailboxes F B sched) (amid_messages F B sched) (amid_domains F B sched) (amid_users F B sched)"
    using assms(1) by (simp_all add: imap_over_system_def)
  have "logged_in (directory_now B) E ls s"
    by (rule running.imap_reach_logged_in [OF assms(2) E(2,1)]) (simp add: moves_keep)
  moreover have "imap_inv s" by (rule imap_reach_inv [OF assms(2) E(1)])
  ultimately show ?thesis unfolding logged_in_def imap_inv_def by blast
qed

theorem imap_session_authenticated_witness:
  "\<exists>ls s. imap_reach demo_live (moves demo_mail demo_backend) ls s \<and> imap_state s = StateSelected \<and> im_selected s \<noteq> None
     \<and> (\<exists>line password n dn u. line \<in> set ls \<and> login_line line (im_username s) password
            \<and> imap_parseAddress (im_username s) = Some (n, dn) \<and> directory_now demo_backend (im_store s) n dn u
            \<and> imap_checkPassword demo_live password (User_PasswordHash u) \<and> im_userID s = User_ID u)"
proof -
  obtain ls s sel where s: "imap_reach demo_live (moves demo_mail demo_backend) ls s" "imap_state s = StateSelected"
    using demo_live_selected by blast
  then show ?thesis using imap_session_authenticated [OF demo_live_over_system s(1)] by blast
qed

text \<open>
  C6: an IMAP client reads its own mail only. In every session over the message store that any input
  leads to, with mail being delivered by others at any moment, the selected mailbox belongs to the user the
  session is logged in as, and FETCH sends one reply per message, numbered from one, of messages that are in
  the database, in mailboxes of that user, in the order of their UIDs, and then its tagged line. A reply
  shows the items of its message and at most the body that the store gave for the id of that message.
\<close>

theorem imap_reads_own_mail:
  assumes "imap_over_system F B sched E" "imap_reach E (moves F B) ls s" "im_selected s = Some sel"
  shows "owns_now (im_store s) (sel_ID sel) (im_userID s)
    \<and> (\<exists>items rows replies tail.
         im_sent (handleFetch E tag args s) = im_sent s @ replies @ [tag @ '' '' @ tail @ CRLF]
       \<and> list_all2 (shows_message E (moves F B (im_store s)) items) (enumerate 1 (map to_Message rows)) replies
       \<and> (\<forall>m \<in> set rows. m \<in> set (messages (ms_sql (snd (fst (im_store (handleFetch E tag args s))))))
            \<and> owns_now (im_store (handleFetch E tag args s)) (msg_mailbox_id m) (im_userID s))
       \<and> sorted (map msg_uid rows))"
proof -
  have E: "looplab_contract (im_Event E)"
    "uses_ports E (amid_mailboxes F B sched) (amid_messages F B sched) (amid_domains F B sched) (amid_users F B sched)"
    using assms(1) by (simp_all add: imap_over_system_def)
  then have port: "im_messageReader E = amid_messages F B sched" by (simp add: uses_ports_def)
  have "sel_owned owns_now s"
    by (rule running.imap_reach_owned [OF assms(2) E(2,1)]) (simp add: moves_keep)
  then have own: "owns_now (im_store s) (sel_ID sel) (im_userID s)" using assms(3) by (simp add: sel_owned_def)
  let ?s' = "handleFetch E tag args s"
  obtain items xs replies tail where r: "im_sent ?s' = im_sent s @ replies @ [tag @ '' '' @ tail @ CRLF]"
    "list_all2 (shows_message E (moves F B (im_store s)) items) (enumerate 1 xs) replies"
    and xs: "xs = [] \<or> (\<exists>sel w. im_selected s = Some sel \<and> ListMessages (im_messageReader E) (sel_ID sel) (im_store s) = (Inr xs, w)
          \<and> moves F B w (im_store ?s'))"
    using handleFetch_shows [of E "moves F B" tag args s] moves_reads [OF port] by metis
  have "\<exists>rows. xs = map to_Message rows \<and> sorted (map msg_uid rows)
      \<and> (\<forall>m \<in> set rows. m \<in> set (messages (ms_sql (snd (fst (im_store ?s'))))) \<and> owns_now (im_store ?s') (msg_mailbox_id m) (im_userID s))"
    using xs
  proof
    assume "\<exists>sel w. im_selected s = Some sel \<and> ListMessages (im_messageReader E) (sel_ID sel) (im_store s) = (Inr xs, w)
        \<and> moves F B w (im_store ?s')"
    then obtain w where w: "ListMessages (amid_messages F B sched) (sel_ID sel) (im_store s) = (Inr xs, w)" "moves F B w (im_store ?s')"
      using assms(3) port by auto
    moreover have "owns_now (im_store ?s') = owns_now (im_store s)"
      using moves_keep(1) [OF w(2)] running_quiet.quiet_messages [OF w(1)] by simp
    ultimately show ?thesis using amid_messages_rows [OF w(1)] moves_rows [OF w(2)] own by fastforce
  qed simp
  then show ?thesis using own r by blast
qed

theorem imap_reads_own_mail_witness:
  "\<exists>ls s items m reply. imap_reach demo_live (moves demo_mail demo_backend) ls s \<and> im_userID s = 1
     \<and> im_sent (handleFetch demo_live ''a3'' ''1 UID'' s) = im_sent s @ [reply, ''a3 OK FETCH completed'' @ CRLF]
     \<and> shows_message demo_live (moves demo_mail demo_backend (im_store s)) items (1, to_Message m) reply
     \<and> m \<in> set (messages (ms_sql (snd (fst (im_store (handleFetch demo_live ''a3'' ''1 UID'' s))))))
     \<and> owns_now (im_store (handleFetch demo_live ''a3'' ''1 UID'' s)) (msg_mailbox_id m) 1"
proof -
  obtain ls s sel c where s: "imap_reach demo_live (moves demo_mail demo_backend) ls s" "im_selected s = Some sel" "im_userID s = 1"
    "ListMessages (im_messageReader demo_live) (sel_ID sel) (im_store s) = (Inr ([] @ [to_Message demo_row]), c)"
    using demo_live_selected by auto
  have "SplitN2 SPC ''1 UID'' = [''1'', ''UID'']" by code_simp
  from handleFetch_last [OF s(2) this s(4), of "''a3''"] obtain reply where
    one: "im_sent (handleFetch demo_live ''a3'' ''1 UID'' s) = im_sent s @ [reply, ''a3 OK FETCH completed'' @ CRLF]" by auto
  obtain items rows replies tail where r: "im_sent (handleFetch demo_live ''a3'' ''1 UID'' s) = im_sent s @ replies @ [''a3'' @ '' '' @ tail @ CRLF]"
    "list_all2 (shows_message demo_live (moves demo_mail demo_backend (im_store s)) items) (enumerate 1 (map to_Message rows)) replies"
    "\<forall>m \<in> set rows. m \<in> set (messages (ms_sql (snd (fst (im_store (handleFetch demo_live ''a3'' ''1 UID'' s))))))
       \<and> owns_now (im_store (handleFetch demo_live ''a3'' ''1 UID'' s)) (msg_mailbox_id m) (im_userID s)"
    using imap_reads_own_mail [OF demo_live_over_system s(1,2), of "''a3''" "''1 UID''"] by blast
  have "replies = [reply]" using r(1) one by (simp add: append_eq_Cons_conv)
  moreover from this r(2) obtain m where "rows = [m]"
    by (cases rows; cases "tl rows") auto
  ultimately have "shows_message demo_live (moves demo_mail demo_backend (im_store s)) items (1, to_Message m) reply"
    "m \<in> set (messages (ms_sql (snd (fst (im_store (handleFetch demo_live ''a3'' ''1 UID'' s))))))"
    "owns_now (im_store (handleFetch demo_live ''a3'' ''1 UID'' s)) (msg_mailbox_id m) 1"
    using r(2,3) s(3) by simp_all
  then show ?thesis using s(1,3) one by blast
qed

text \<open>
  C7: a JMAP client reads its own mail only, with mail being delivered by others at any moment: the
  messages that \<^verbatim>\<open>Email/get\<close> returns lie in a mailbox of the token's user, in the order of their UIDs,
  and the mailboxes of \<^verbatim>\<open>Mailbox/get\<close> are that user's.
\<close>

theorem jmap_reads_own_mail:
  assumes "jm_mailboxReader E = amid_mailboxes F B sched" "jm_messageReader E = amid_messages F B sched"
    and "jmap_dispatch E claims call c = (resp, c')"
  shows "(mr_Name resp = ''Email/get'' \<longrightarrow>
      (\<exists>xs. mr_Result resp = JObj [(''accountId'', JStr (account_id (cl_UserID claims))),
          (''list'', JArr (map JMAPEmail xs)), (''notFound'', JArr [])]
        \<and> (\<forall>x \<in> set xs. owns_now c' (Message_MailboxID x) (cl_UserID claims)) \<and> sorted (map Message_UID xs)))
    \<and> (mr_Name resp = ''Mailbox/get'' \<longrightarrow>
      (\<exists>ms. mr_Result resp = JObj [(''accountId'', JStr (account_id (cl_UserID claims))),
          (''list'', JArr (map JMAPMailbox ms)), (''notFound'', JArr [])]
        \<and> (\<forall>m \<in> set ms. owns_now c' (Mailbox_ID m) (cl_UserID claims))))"
proof (intro conjI impI)
  assume n: "mr_Name resp = ''Email/get''"
  then have "handleEmailGet E claims call c = (resp, c')"
    using assms(3) by (auto simp: jmap_dispatch_def handleMailboxGet_def handleMailboxQuery_def handleEmailQuery_def
        fail_with_def split: if_splits prod.splits sum.splits)
  then show "\<exists>xs. mr_Result resp = JObj [(''accountId'', JStr (account_id (cl_UserID claims))),
          (''list'', JArr (map JMAPEmail xs)), (''notFound'', JArr [])]
        \<and> (\<forall>x \<in> set xs. owns_now c' (Message_MailboxID x) (cl_UserID claims)) \<and> sorted (map Message_UID xs)"
    using running.email_list_owned [OF assms(1,2) _ n] by blast
next
  assume n: "mr_Name resp = ''Mailbox/get''"
  then have "handleMailboxGet E claims call c = (resp, c')"
    using assms(3) by (auto simp: jmap_dispatch_def handleEmailGet_def handleMailboxQuery_def handleEmailQuery_def
        fail_with_def split: if_splits prod.splits sum.splits)
  then show "\<exists>ms. mr_Result resp = JObj [(''accountId'', JStr (account_id (cl_UserID claims))),
          (''list'', JArr (map JMAPMailbox ms)), (''notFound'', JArr [])]
        \<and> (\<forall>m \<in> set ms. owns_now c' (Mailbox_ID m) (cl_UserID claims))"
    using running.mailbox_list_owned [OF assms(1) _ n] by blast
qed

definition demo_live_jmap :: "(string \<rightharpoonup> bytes) world jmap_env" where
  "demo_live_jmap =
     \<lparr>jm_cfg = Load (\<lambda>_. []), jm_mailboxReader = amid_mailboxes demo_mail demo_backend demo_sched,
      jm_messageReader = amid_messages demo_mail demo_backend demo_sched, jm_domainResolver = amid_domains demo_mail demo_backend demo_sched,
      jm_userAuth = amid_users demo_mail demo_backend demo_sched, jm_jwt = plain_jwt, jm_Now = (\<lambda>_. 0),
      jm_bcrypt = (\<lambda>hash password. None), jm_unicode = ascii_tables\<rparr>"

theorem jmap_reads_own_mail_witness:
  "\<exists>resp c'. jmap_dispatch demo_live_jmap plain_claims \<lparr>mc_Name = ''Email/get'', mc_Args = None, mc_CallID = ''c1''\<rparr> (([], demo_store), 0) = (resp, c')
     \<and> (mr_Name resp = ''Email/get'' \<longrightarrow>
      (\<exists>xs. mr_Result resp = JObj [(''accountId'', JStr (account_id (cl_UserID plain_claims))),
          (''list'', JArr (map JMAPEmail xs)), (''notFound'', JArr [])]
        \<and> (\<forall>x \<in> set xs. owns_now c' (Message_MailboxID x) (cl_UserID plain_claims)) \<and> sorted (map Message_UID xs)))"
proof -
  let ?call = "\<lparr>mc_Name = ''Email/get'', mc_Args = None, mc_CallID = ''c1''\<rparr>"
  obtain resp c' where d: "jmap_dispatch demo_live_jmap plain_claims ?call (([], demo_store), 0) = (resp, c')" by (metis surj_pair)
  have "jm_mailboxReader demo_live_jmap = amid_mailboxes demo_mail demo_backend demo_sched"
    "jm_messageReader demo_live_jmap = amid_messages demo_mail demo_backend demo_sched"
    by (simp_all add: demo_live_jmap_def)
  from jmap_reads_own_mail [OF this d] show ?thesis using d by blast
qed

text \<open>
  The three servers read an address alike: the copies of \<open>parseAddress\<close> in the packages agree, and
  they accept exactly the strings with a first at sign that has something on both sides.
\<close>

lemma parseAddress_agree:
  "imap_parseAddress addr = storage_parseAddress addr \<and> jmap_parseAddress addr = storage_parseAddress addr
   \<and> (\<forall>u d. storage_parseAddress addr = Some (u, d) \<longleftrightarrow>
        addr = u @ CHR ''@'' # d \<and> CHR ''@'' \<notin> set u \<and> u \<noteq> [] \<and> d \<noteq> [])"
  using storage_parseAddress_iff
  by (simp add: imap_parseAddress_def jmap_parseAddress_def storage_parseAddress_def)

end
